(* ===== verification/Prelude.thy ===== *)
theory Prelude
  imports Main "HOL-Library.Word" "HOL-Library.Monad_Syntax"
begin

text \<open>
  Shared vocabulary of the development: fixed-width integers, the \<open>errno\<close> values the
  sources return, byte-addressed memory, the power-of-two ring arithmetic of the descriptor and
  event rings, and the generic invariant principle used by every state machine below.

  A fault (a CHERI bounds or permission trap, or a failed \<open>KASSERT\<close>) is the value
  \<open>None\<close> of an \<open>option\<close>; an error the code returns is a value of \<open>errno\<close>.
\<close>

unbundle bit_operations_syntax

type_synonym u8 = "8 word"
type_synonym u16 = "16 word"
type_synonym u32 = "32 word"
type_synonym u64 = "64 word"

type_synonym bytes = "nat \<Rightarrow> u8"
  \<comment> \<open>a buffer addressed by byte offset; every accessor checks the offset against its size\<close>

named_theorems ring_simps \<open>arithmetic of ring indices\<close>
named_theorems sc_defs \<open>definitions a component's proofs unfold together\<close>

text \<open>The return codes of the sources. \<open>OK\<close> is the integer 0.\<close>

datatype errno =
    OK | EPERM | ENOENT | EINTR | EIO | ENXIO | EAGAIN | ENOMEM | EACCES | EFAULT | EBUSY
  | ENODEV | EINVAL | ENOTTY | ENOSYS | ETIMEDOUT | EOPNOTSUPP | EPROTO | EOTHER nat

section \<open>Options as faults\<close>

lemma bind_eq_SomeD: "Option.bind m f = Some y \<Longrightarrow> \<exists>x. m = Some x \<and> f x = Some y"
  by (cases m) auto

lemma bind_Some_iff: "Option.bind m f = Some y \<longleftrightarrow> (\<exists>x. m = Some x \<and> f x = Some y)"
  by (cases m) auto

section \<open>Power-of-two rings\<close>

text \<open>
  Every ring of the program has a power-of-two size and is indexed by
  \<^verbatim>\<open>(i + 1) & (SIZE - 1)\<close> on a machine integer. The locale states that once; it is
  interpreted below at the size 512 that all the rings have, for the two widths in use.
\<close>

locale pow2_ring =
  fixes n :: nat and sz :: nat and msk :: "'w :: len word"
  assumes sz_def: "sz = 2 ^ n"
    and n_small: "n < LENGTH('w)"
    and msk_def: "msk = mask n"
begin

lemma sz_pos: "0 < sz"
  by (simp add: sz_def)

lemma unat_and_msk: "unat (w AND msk) = unat w mod sz"
proof -
  have "w AND msk = take_bit n w"
    by (simp add: msk_def take_bit_eq_mask)
  then have "unat (w AND msk) = take_bit n (unat w)"
    by (simp only: unsigned_take_bit_eq)
  then show ?thesis
    by (simp add: take_bit_eq_mod sz_def)
qed

lemma and_msk_less: "unat (w AND msk) < sz"
  by (simp add: unat_and_msk sz_pos)

lemma and_msk_id: "unat w < sz \<Longrightarrow> w AND msk = w"
  by (rule word_unat_eq_iff [THEN iffD2]) (simp add: unat_and_msk)

lemma unat_add_and_msk: "unat ((w + v) AND msk) = (unat w + unat v) mod sz"
proof -
  have "sz dvd (2 :: nat) ^ LENGTH('w)"
    unfolding sz_def by (rule le_imp_power_dvd) (use n_small in simp)
  then have "(unat w + unat v) mod 2 ^ LENGTH('w) mod sz = (unat w + unat v) mod sz"
    by (rule mod_mod_cancel)
  then show ?thesis
    by (simp add: unat_and_msk unat_word_ariths)
qed

lemma unat_next: "unat ((w + 1) AND msk) = Suc (unat w) mod sz"
  by (simp add: unat_add_and_msk)

end

interpretation ring512: pow2_ring 9 512 "511 :: u32"
  by unfold_locales (simp_all add: mask_eq_exp_minus_1)

interpretation ring512h: pow2_ring 9 512 "511 :: u16"
  by unfold_locales (simp_all add: mask_eq_exp_minus_1)

lemmas ring512_simps [ring_simps] =
  ring512.unat_next ring512.unat_and_msk ring512.unat_add_and_msk

declare ring512.and_msk_less [simp]

section \<open>Machines and invariants\<close>

text \<open>
  A machine given by its initial states and its step relation. An invariant of the steps holds in
  every state reached from an initial one.
\<close>

locale invariant_machine =
  fixes init :: "'s \<Rightarrow> bool" and step :: "'s \<Rightarrow> 's \<Rightarrow> bool" and inv :: "'s \<Rightarrow> bool"
  assumes init_inv: "init s \<Longrightarrow> inv s"
    and step_inv: "\<lbrakk>inv s; step s s'\<rbrakk> \<Longrightarrow> inv s'"
begin

lemma steps_inv: "\<lbrakk>step\<^sup>*\<^sup>* s s'; inv s\<rbrakk> \<Longrightarrow> inv s'"
  by (induction rule: rtranclp_induct) (auto intro: step_inv)

lemma reachable_inv: "\<lbrakk>init s; step\<^sup>*\<^sup>* s s'\<rbrakk> \<Longrightarrow> inv s'"
  using steps_inv init_inv by blast

end

end
