(* ===== verification/Regs.thy ===== *)
theory Regs
  imports Prelude
begin

text \<open>
  The hardware vocabulary the kernel driver and the userspace library share: ring geometry and
  region numbers (\<^verbatim>\<open>sfc7120_uapi.h\<close>), doorbell offsets
  (\<^verbatim>\<open>sfc7120_mmio.h\<close>), the CAPIO slice manifest
  (\<^verbatim>\<open>sfc7120_tables.c\<close>), and the 8-byte DMA descriptor and event words that
  \<^verbatim>\<open>sfc7120.c\<close> and \<^verbatim>\<open>userlib/sfc7120_user.c\<close> build and decode.
  The lemmas show that the manifest never reaches a kernel-only register and that the descriptor
  encoding can be read back.
\<close>

section \<open>Geometry and region numbers\<close>

abbreviation (input) "SFC7120_NUM_TX_DESC \<equiv> 512"
abbreviation (input) "SFC7120_NUM_RX_DESC \<equiv> 512"
abbreviation (input) "SFC7120_NUM_EVQ_ENTRY \<equiv> 512"
abbreviation (input) "SFC7120_TX_BUFFER_SIZE \<equiv> 2048"
abbreviation (input) "SFC7120_RX_BUFFER_SIZE \<equiv> 2048"
abbreviation (input) "SFC7120_EVQ_ENTRY_SIZE \<equiv> 8"
abbreviation (input) "SFC7120_TX_DESC_SIZE \<equiv> 8"
abbreviation (input) "SFC7120_RX_DESC_SIZE \<equiv> 8"
abbreviation (input) "SFC7120_EF10_RX_PREFIX_LEN \<equiv> 14"
abbreviation (input) "SFC7120_EVQ_RPTR_MASK \<equiv> 0x7fff"

text \<open>A map type arrives from userspace as a plain C \<open>int\<close>, so the enumerators are integers.\<close>

abbreviation (input) SFC7120_TX_BUFFER :: int where "SFC7120_TX_BUFFER \<equiv> 0"
abbreviation (input) SFC7120_RX_BUFFER :: int where "SFC7120_RX_BUFFER \<equiv> 1"
abbreviation (input) SFC7120_MMIO_REGION :: int where "SFC7120_MMIO_REGION \<equiv> 2"
abbreviation (input) SFC7120_TX_DESC_RING :: int where "SFC7120_TX_DESC_RING \<equiv> 3"
abbreviation (input) SFC7120_RX_DESC_RING :: int where "SFC7120_RX_DESC_RING \<equiv> 4"
abbreviation (input) SFC7120_EVQ_RING :: int where "SFC7120_EVQ_RING \<equiv> 5"
abbreviation (input) SFC7120_MMIO_REGION_UNSLICED :: int where "SFC7120_MMIO_REGION_UNSLICED \<equiv> 6"
abbreviation (input) SFC7120_REGION_COUNT :: nat where "SFC7120_REGION_COUNT \<equiv> 7"

text \<open>Positions of the slices in the array userspace receives (\<open>sfc7120_mmio_slice_idx_t\<close>).\<close>

abbreviation (input) SFC7120_SLICE_RESERVED0 :: nat where "SFC7120_SLICE_RESERVED0 \<equiv> 0"
abbreviation (input) SFC7120_SLICE_DATA_EVQ_RPTR_DBL :: nat where "SFC7120_SLICE_DATA_EVQ_RPTR_DBL \<equiv> 1"
abbreviation (input) SFC7120_SLICE_RX_DESC_DBL :: nat where "SFC7120_SLICE_RX_DESC_DBL \<equiv> 2"
abbreviation (input) SFC7120_SLICE_TX_DESC_DBL :: nat where "SFC7120_SLICE_TX_DESC_DBL \<equiv> 3"
abbreviation (input) SFC7120_SLICE_HW_REV_ID :: nat where "SFC7120_SLICE_HW_REV_ID \<equiv> 4"
abbreviation (input) SFC7120_SLICE_COUNT :: nat where "SFC7120_SLICE_COUNT \<equiv> 5"

section \<open>Doorbell offsets\<close>

abbreviation (input) SFC7120_DATA_EVQ_INSTANCE :: nat where "SFC7120_DATA_EVQ_INSTANCE \<equiv> 1"
abbreviation (input) SFC7120_RXQ_INSTANCE :: nat where "SFC7120_RXQ_INSTANCE \<equiv> 0"
abbreviation (input) SFC7120_TXQ_INSTANCE :: nat where "SFC7120_TXQ_INSTANCE \<equiv> 0"

definition SFC7120_VI_WINDOW :: "nat \<Rightarrow> nat" where
  "SFC7120_VI_WINDOW inst = push_bit 13 inst"

abbreviation (input) SFC7120_REG_BIU_HW_REV_ID :: nat where "SFC7120_REG_BIU_HW_REV_ID \<equiv> 0x0000"
abbreviation (input) SFC7120_REG_EVQ_RPTR_DBL :: nat where "SFC7120_REG_EVQ_RPTR_DBL \<equiv> 0x0400"
abbreviation (input) SFC7120_REG_RX_DESC_DBL :: nat where "SFC7120_REG_RX_DESC_DBL \<equiv> 0x0830"
abbreviation (input) SFC7120_REG_TX_DESC_DBL :: nat where "SFC7120_REG_TX_DESC_DBL \<equiv> 0x0a10"

definition SFC7120_REG_DATA_EVQ_RPTR_DBL :: nat where
  "SFC7120_REG_DATA_EVQ_RPTR_DBL =
     SFC7120_VI_WINDOW SFC7120_DATA_EVQ_INSTANCE + SFC7120_REG_EVQ_RPTR_DBL"

definition SFC7120_REG_DATA_RX_DESC_DBL :: nat where
  "SFC7120_REG_DATA_RX_DESC_DBL =
     SFC7120_VI_WINDOW SFC7120_RXQ_INSTANCE + SFC7120_REG_RX_DESC_DBL"

definition SFC7120_REG_DATA_TX_DESC_DBL :: nat where
  "SFC7120_REG_DATA_TX_DESC_DBL =
     SFC7120_VI_WINDOW SFC7120_TXQ_INSTANCE + SFC7120_REG_TX_DESC_DBL"

definition SFC7120_REG_DATA_TX_WPTR_DBL :: nat where
  "SFC7120_REG_DATA_TX_WPTR_DBL = SFC7120_REG_DATA_TX_DESC_DBL + 8"

lemma data_dbl_values [simp]:
  "SFC7120_REG_DATA_EVQ_RPTR_DBL = 0x2400"
  "SFC7120_REG_DATA_RX_DESC_DBL = 0x0830"
  "SFC7120_REG_DATA_TX_DESC_DBL = 0x0a10"
  "SFC7120_REG_DATA_TX_WPTR_DBL = 0x0a18"
  by (simp_all add: SFC7120_REG_DATA_EVQ_RPTR_DBL_def SFC7120_REG_DATA_RX_DESC_DBL_def
      SFC7120_REG_DATA_TX_DESC_DBL_def SFC7120_REG_DATA_TX_WPTR_DBL_def
      SFC7120_VI_WINDOW_def push_bit_eq_mult)

text \<open>The kernel-only registers of \<^verbatim>\<open>sfc7120_mcdi.c\<close>.\<close>

abbreviation (input) EF10_REG_BIU_HW_REV_ID :: nat where "EF10_REG_BIU_HW_REV_ID \<equiv> 0x0000"
abbreviation (input) EF10_REG_BIU_MC_SFT_STATUS :: nat where "EF10_REG_BIU_MC_SFT_STATUS \<equiv> 0x0010"
abbreviation (input) EF10_REG_MC_DB_LWRD :: nat where "EF10_REG_MC_DB_LWRD \<equiv> 0x0200"
abbreviation (input) EF10_REG_MC_DB_HWRD :: nat where "EF10_REG_MC_DB_HWRD \<equiv> 0x0204"
abbreviation (input) EF10_REG_BIU_HW_REV_ID_RESET :: u32 where "EF10_REG_BIU_HW_REV_ID_RESET \<equiv> 0xeb14face"

section \<open>The slice manifest\<close>

record slice_def_t =
  sd_offset :: nat
  sd_name :: string
  sd_read_only :: bool
  sd_length :: nat

definition sfc7120_reg_slices :: "slice_def_t list" where
  "sfc7120_reg_slices =
    [\<lparr>sd_offset = SFC7120_REG_BIU_HW_REV_ID, sd_name = ''RESERVED0_HW_REV_ID'',
       sd_read_only = True, sd_length = 4\<rparr>,
     \<lparr>sd_offset = SFC7120_REG_DATA_EVQ_RPTR_DBL, sd_name = ''DATA_EVQ_RPTR_DBL'',
       sd_read_only = False, sd_length = 4\<rparr>,
     \<lparr>sd_offset = SFC7120_REG_DATA_RX_DESC_DBL, sd_name = ''RX_DESC_DBL'',
       sd_read_only = False, sd_length = 4\<rparr>,
     \<lparr>sd_offset = SFC7120_REG_DATA_TX_DESC_DBL, sd_name = ''TX_DESC_DBL'',
       sd_read_only = False, sd_length = 12\<rparr>,
     \<lparr>sd_offset = SFC7120_REG_BIU_HW_REV_ID, sd_name = ''HW_REV_ID'',
       sd_read_only = True, sd_length = 4\<rparr>]"

definition SFC7120_MMIO_SLICE_COUNT :: nat where
  "SFC7120_MMIO_SLICE_COUNT = length sfc7120_reg_slices"

text \<open>
  A store or load of one 32-bit register through the slice at position \<open>idx\<close>. The slice
  capability has the manifest entry's bounds, and store permission exactly when the entry is not
  read-only; an access outside them traps (\<open>None\<close>). The result is the BAR offset reached.
\<close>

definition slice_store :: "slice_def_t list \<Rightarrow> nat \<Rightarrow> nat \<Rightarrow> nat option" where
  "slice_store sl idx dword =
     (if idx < length sl \<and> \<not> sd_read_only (sl ! idx) \<and> 4 * dword + 4 \<le> sd_length (sl ! idx)
      then Some (sd_offset (sl ! idx) + 4 * dword) else None)"

definition slice_load :: "slice_def_t list \<Rightarrow> nat \<Rightarrow> nat \<Rightarrow> nat option" where
  "slice_load sl idx dword =
     (if idx < length sl \<and> 4 * dword + 4 \<le> sd_length (sl ! idx)
      then Some (sd_offset (sl ! idx) + 4 * dword) else None)"

section \<open>Descriptor and event words\<close>

text \<open>
  The 8-byte RX/TX descriptor: BYTE_CNT in bits 61:48, the 48-bit bus address below it. TYPE and
  CONT (bits 63 and 62) are zero.
\<close>

definition ef10_desc :: "u64 \<Rightarrow> u64 \<Rightarrow> u64" where
  "ef10_desc len paddr =
     (push_bit 48 (len AND 0x3fff)) OR
     (push_bit 32 (drop_bit 32 paddr AND 0xffff)) OR
     (paddr AND 0xffffffff)"

definition desc_byte_cnt :: "u64 \<Rightarrow> u64" where
  "desc_byte_cnt d = drop_bit 48 d AND 0x3fff"

definition desc_buf_addr :: "u64 \<Rightarrow> u64" where
  "desc_buf_addr d = d AND 0xffffffffffff"

text \<open>All-ones or all-zeros means no event written yet.\<close>

definition ev_is_empty :: "u64 \<Rightarrow> bool" where
  "ev_is_empty ev \<longleftrightarrow> ev = 0xffffffffffffffff \<or> ev = 0"

definition ev_code :: "u64 \<Rightarrow> u32" where
  "ev_code ev = ucast (drop_bit 60 ev) AND 0xf"

abbreviation (input) SFC7120_EV_CODE_RX :: u32 where "SFC7120_EV_CODE_RX \<equiv> 0"
abbreviation (input) SFC7120_EV_CODE_TX :: u32 where "SFC7120_EV_CODE_TX \<equiv> 2"
abbreviation (input) SFC7120_EV_CODE_DRIVER :: u32 where "SFC7120_EV_CODE_DRIVER \<equiv> 5"
abbreviation (input) SFC7120_EV_CODE_MCDI :: u32 where "SFC7120_EV_CODE_MCDI \<equiv> 12"

section \<open>The manifest reaches only data-path registers\<close>

lemma length_reg_slices [simp]: "length sfc7120_reg_slices = 5"
  by (simp add: sfc7120_reg_slices_def)

lemma less_5_cases: "i < (5::nat) \<Longrightarrow> i = 0 \<or> i = 1 \<or> i = 2 \<or> i = 3 \<or> i = 4"
  by linarith

lemma reg_slices_nth [simp]:
  "sd_offset (sfc7120_reg_slices ! 0) = 0" "sd_read_only (sfc7120_reg_slices ! 0)"
  "sd_offset (sfc7120_reg_slices ! 1) = 0x2400" "\<not> sd_read_only (sfc7120_reg_slices ! 1)"
  "sd_offset (sfc7120_reg_slices ! 2) = 0x0830" "\<not> sd_read_only (sfc7120_reg_slices ! 2)"
  "sd_offset (sfc7120_reg_slices ! 3) = 0x0a10" "\<not> sd_read_only (sfc7120_reg_slices ! 3)"
  "sd_offset (sfc7120_reg_slices ! 4) = 0" "sd_read_only (sfc7120_reg_slices ! 4)"
  "sd_length (sfc7120_reg_slices ! 0) = 4" "sd_length (sfc7120_reg_slices ! 1) = 4"
  "sd_length (sfc7120_reg_slices ! 2) = 4" "sd_length (sfc7120_reg_slices ! 3) = 12"
  "sd_length (sfc7120_reg_slices ! 4) = 4"
  by (simp_all add: sfc7120_reg_slices_def)

lemma reg_slices_nth_Suc0 [simp]:
  "sd_offset (sfc7120_reg_slices ! Suc 0) = 0x2400"
  "\<not> sd_read_only (sfc7120_reg_slices ! Suc 0)"
  "sd_length (sfc7120_reg_slices ! Suc 0) = 4"
  using reg_slices_nth(3,4,12) by simp_all

lemma slice_store_targets:
  "slice_store sfc7120_reg_slices idx d = Some off \<longleftrightarrow>
     (idx = SFC7120_SLICE_DATA_EVQ_RPTR_DBL \<and> d = 0 \<and> off = SFC7120_REG_DATA_EVQ_RPTR_DBL) \<or>
     (idx = SFC7120_SLICE_RX_DESC_DBL \<and> d = 0 \<and> off = SFC7120_REG_DATA_RX_DESC_DBL) \<or>
     (idx = SFC7120_SLICE_TX_DESC_DBL \<and> d < 3 \<and> off = SFC7120_REG_DATA_TX_DESC_DBL + 4 * d)"
proof (cases "idx < 5")
  case True
  from less_5_cases [OF this] show ?thesis
    by (elim disjE) (auto simp: slice_store_def)
next
  case False
  then show ?thesis by (auto simp: slice_store_def)
qed

section \<open>Descriptor round trip\<close>

lemma desc_mask: "(0x3fff :: u64) = mask 14" "(0xffff :: u64) = mask 16"
  "(0xffffffff :: u64) = mask 32" "(0xffffffffffff :: u64) = mask 48"
  by (simp_all add: mask_eq_exp_minus_1)

lemma desc_byte_cnt_ef10_desc: "desc_byte_cnt (ef10_desc len pa) = len AND 0x3fff"
  unfolding desc_byte_cnt_def ef10_desc_def desc_mask
  by (rule bit_eqI) (auto simp: bit_simps)

lemma desc_buf_addr_ef10_desc: "desc_buf_addr (ef10_desc len pa) = pa AND 0xffffffffffff"
  unfolding desc_buf_addr_def ef10_desc_def desc_mask
  by (rule bit_eqI) (auto simp: bit_simps)

lemma ef10_desc_high_bits: "drop_bit 62 (ef10_desc len pa) = 0"
  unfolding ef10_desc_def desc_mask
  by (rule bit_eqI) (auto simp: bit_simps)

lemma and_mask_small:
  fixes w :: "'a :: len word"
  assumes "unat w < 2 ^ k"
  shows "w AND mask k = w"
proof -
  have "unat (take_bit k w) = unat w"
    using assms by (simp only: unsigned_take_bit_eq take_bit_nat_eq_self)
  then show ?thesis
    by (simp add: take_bit_eq_mask word_unat_eq_iff)
qed

text \<open>The bus address of slot \<open>h\<close> of a packet buffer survives the 48-bit descriptor field.\<close>

lemma slot_desc_addr:
  assumes "unat (pa :: u64) + 512 * 2048 \<le> 2 ^ 48" "h < 512"
  shows "unat (desc_buf_addr (ef10_desc len (pa + of_nat (h * 2048)))) = unat pa + h * 2048"
proof -
  let ?a = "pa + of_nat (h * 2048)"
  have small: "h * 2048 < 2 ^ 20" using assms(2) by simp
  have "unat (of_nat n :: u64) = n" if "n < 2 ^ 20" for n using that by (simp add: unat_of_nat)
  from this [OF small] have "unat (of_nat (h * 2048) :: u64) = h * 2048" .
  then have a: "unat ?a = unat pa + h * 2048"
    using assms small by (subst unat_add_lem [THEN iffD1]) auto
  then have "?a AND 0xffffffffffff = ?a"
    using and_mask_small [of ?a 48] assms small by (simp add: desc_mask)
  with a show ?thesis by (simp add: desc_buf_addr_ef10_desc)
qed

section \<open>Properties\<close>

text \<open>
  C5: whatever slice and whatever 32-bit register in it userspace stores to, the access falls on
  one of the data-path doorbells (data EVQ read pointer, RX producer, the three low dwords of the
  TX push register). It never touches the MC doorbell pair (0x200-0x207), through which firmware
  commands are issued, nor the control event queue's read pointer (0x400-0x403).
\<close>

theorem slice_store_confined:
  assumes "slice_store sfc7120_reg_slices idx d = Some off"
  shows "off \<in> {SFC7120_REG_DATA_EVQ_RPTR_DBL, SFC7120_REG_DATA_RX_DESC_DBL,
                SFC7120_REG_DATA_TX_DESC_DBL, SFC7120_REG_DATA_TX_DESC_DBL + 4,
                SFC7120_REG_DATA_TX_WPTR_DBL} \<and>
         {off..<off + 4} \<inter> {EF10_REG_MC_DB_LWRD..<EF10_REG_MC_DB_HWRD + 4} = {} \<and>
         {off..<off + 4} \<inter> {SFC7120_REG_EVQ_RPTR_DBL..<SFC7120_REG_EVQ_RPTR_DBL + 4} = {}"
proof -
  have "d < 3 \<Longrightarrow> d = 0 \<or> d = 1 \<or> d = 2" by linarith
  then have "off = 0x2400 \<or> off = 0x830 \<or> off = 0xa10 \<or> off = 0xa14 \<or> off = 0xa18"
    using assms unfolding slice_store_targets by auto
  then show ?thesis
    by (elim disjE) simp_all
qed

theorem slice_store_confined_witness:
  "slice_store sfc7120_reg_slices SFC7120_SLICE_TX_DESC_DBL 2 = Some SFC7120_REG_DATA_TX_WPTR_DBL \<and>
   {SFC7120_REG_DATA_TX_WPTR_DBL..<SFC7120_REG_DATA_TX_WPTR_DBL + 4}
     \<inter> {EF10_REG_MC_DB_LWRD..<EF10_REG_MC_DB_HWRD + 4} = {}"
proof -
  have "slice_store sfc7120_reg_slices SFC7120_SLICE_TX_DESC_DBL 2 = Some SFC7120_REG_DATA_TX_WPTR_DBL"
    by (simp add: slice_store_targets)
  then show ?thesis
    using slice_store_confined by blast
qed

text \<open>
  The descriptor word written for a buffer of length at most 0x3fff at a 48-bit bus address
  decodes back to exactly that length and address, with TYPE and CONT clear.
\<close>

theorem ef10_desc_roundtrip:
  assumes "unat len < 2 ^ 14" and "unat pa < 2 ^ 48"
  shows "desc_byte_cnt (ef10_desc len pa) = len \<and> desc_buf_addr (ef10_desc len pa) = pa \<and>
         drop_bit 62 (ef10_desc len pa) = 0"
  using assms and_mask_small [of len 14] and_mask_small [of pa 48]
  by (simp add: desc_byte_cnt_ef10_desc desc_buf_addr_ef10_desc ef10_desc_high_bits desc_mask)

theorem ef10_desc_roundtrip_witness:
  "desc_byte_cnt (ef10_desc 1514 0x80001000) = 1514 \<and>
   desc_buf_addr (ef10_desc 1514 0x80001000) = 0x80001000"
  using ef10_desc_roundtrip [of 1514 "0x80001000"] by simp

end
