(* ===== verification/Io.thy ===== *)
theory Io
  imports Regs
begin

text \<open>
  The boundary between the driver and the outside: register and PCI accesses, the management
  controller (MC) that reads and rewrites the MCDI mailbox, and \<open>bus_dma\<close>. Every interaction
  appends an event to the driver's trace, and every answer from outside is a function of the trace
  so far, so a theorem that holds for all environments covers hardware, firmware and kernel services
  of arbitrary, history-dependent behaviour.

  Also the little-endian byte view of 32-bit words that the mailbox accessors use.
\<close>

section \<open>Events and environment\<close>

datatype io =
    RegWr nat u32
  | RegRd nat
  | PciRd
  | McRequest u32 "u8 list"  \<comment> \<open>the MC fetches the request when the doorbell pair is written\<close>
  | McPoll
  | Delay u32
  | DmaTagCreate nat
  | DmaMemAlloc nat
  | DmaMapLoad nat
  | DmaMapUnload
  | DmaMemFree
  | DmaTagDestroy
  | MsixAlloc
  | MsixRelease
  | IrqSetup
  | IrqTeardown
  | BusAlloc nat
  | BusRelease nat
  | DevMake
  | DevDestroy
  | CopyIn nat
  | CopyOut nat
  | EvqRead nat              \<comment> \<open>the CPU reads event queue 0 or 1; the NIC may have posted meanwhile\<close>
  | RxBufRead

record env =
  e_mc_poll :: "io list \<Rightarrow> bytes \<Rightarrow> bytes"   \<comment> \<open>the mailbox as the next sync finds it\<close>
  e_reg_rd :: "io list \<Rightarrow> nat \<Rightarrow> u32"
  e_pci_rd :: "io list \<Rightarrow> u16"
  e_dma_tag :: "io list \<Rightarrow> errno"            \<comment> \<open>\<open>bus_dma_tag_create\<close>\<close>
  e_dma_mem :: "io list \<Rightarrow> errno + nat"      \<comment> \<open>\<open>bus_dmamem_alloc\<close>: error or address\<close>
  e_dma_load :: "io list \<Rightarrow> errno \<times> u64"    \<comment> \<open>\<open>bus_dmamap_load\<close> and the bus address, 0 if none\<close>
  e_tunable :: "string \<Rightarrow> int option"        \<comment> \<open>kernel environment, \<open>TUNABLE_INT_FETCH\<close>\<close>

text \<open>One DMA allocation: tag, kernel address (0 is NULL) and bus address.\<close>

record dmabuf =
  db_tag :: bool
  db_va :: nat
  db_pa :: u64

definition dmabuf_null :: dmabuf where
  "dmabuf_null = \<lparr>db_tag = False, db_va = 0, db_pa = 0\<rparr>"

definition tunable :: "'e env_scheme \<Rightarrow> string \<Rightarrow> int \<Rightarrow> int" where
  "tunable env name dflt = (case e_tunable env name of None \<Rightarrow> dflt | Some v \<Rightarrow> v)"

section \<open>Little-endian words\<close>

definition le32 :: "u8 \<Rightarrow> u8 \<Rightarrow> u8 \<Rightarrow> u8 \<Rightarrow> u32" where
  "le32 a b c d =
     ucast a OR push_bit 8 (ucast b) OR push_bit 16 (ucast c) OR push_bit 24 (ucast d)"

definition byte_of :: "nat \<Rightarrow> u32 \<Rightarrow> u8" where
  "byte_of i v = ucast (drop_bit (8 * i) v)"

definition put32 :: "nat \<Rightarrow> u32 \<Rightarrow> bytes \<Rightarrow> bytes" where
  "put32 off v m =
     m(off := byte_of 0 v, off + 1 := byte_of 1 v, off + 2 := byte_of 2 v, off + 3 := byte_of 3 v)"

definition get32 :: "nat \<Rightarrow> bytes \<Rightarrow> u32" where
  "get32 off m = le32 (m off) (m (off + 1)) (m (off + 2)) (m (off + 3))"

lemma le32_byte_of: "le32 (byte_of 0 v) (byte_of 1 v) (byte_of 2 v) (byte_of 3 v) = v"
proof (rule bit_word_eqI)
  fix n assume n: "n < LENGTH(32)"
  show "bit (le32 (byte_of 0 v) (byte_of 1 v) (byte_of 2 v) (byte_of 3 v)) n = bit v n"
  proof -
    consider "n < 8" | "8 \<le> n \<and> n < 16" | "16 \<le> n \<and> n < 24" | "24 \<le> n" by linarith
    then show ?thesis
      using n by cases (auto simp: le32_def byte_of_def bit_simps)
  qed
qed

lemma byte_of_le32 [simp]:
  "byte_of 0 (le32 a b c d) = a" "byte_of (Suc 0) (le32 a b c d) = b"
  "byte_of 2 (le32 a b c d) = c" "byte_of 3 (le32 a b c d) = d"
  by (rule bit_word_eqI; auto simp: le32_def byte_of_def bit_simps dest: bit_imp_le_length)+

lemma get32_put32_same [simp]: "get32 off (put32 off v m) = v"
  using le32_byte_of [of v] by (simp add: get32_def put32_def)

lemma put32_other: "i < off \<or> off + 4 \<le> i \<Longrightarrow> put32 off v m i = m i"
  by (auto simp: put32_def)

lemma get32_put32_other: "i + 4 \<le> off \<or> off + 4 \<le> i \<Longrightarrow> get32 i (put32 off v m) = get32 i m"
  by (auto simp: get32_def put32_other)

lemma get32_cong: "(\<And>i. \<lbrakk>off \<le> i; i < off + 4\<rbrakk> \<Longrightarrow> m i = m' i) \<Longrightarrow> get32 off m = get32 off m'"
  by (simp add: get32_def)

definition bytes_at :: "bytes \<Rightarrow> nat \<Rightarrow> nat \<Rightarrow> u8 list" where
  "bytes_at m off n = map (\<lambda>i. m (off + i)) [0..<n]"

lemma length_bytes_at [simp]: "length (bytes_at m off n) = n"
  by (simp add: bytes_at_def)

lemma bytes_at_0 [simp]: "bytes_at m off 0 = []"
  by (simp add: bytes_at_def)

lemma bytes_at_Suc: "bytes_at m off (Suc n) = m off # bytes_at m (Suc off) n"
  by (simp add: bytes_at_def upt_conv_Cons map_Suc_upt [symmetric] del: upt_Suc)

lemma bytes_at_append: "bytes_at m off (n + k) = bytes_at m off n @ bytes_at m (off + n) k"
  by (induction n arbitrary: off) (simp_all add: bytes_at_Suc)

lemma bytes_at_cong:
  "(\<And>i. \<lbrakk>off \<le> i; i < off + n\<rbrakk> \<Longrightarrow> m i = m' i) \<Longrightarrow> bytes_at m off n = bytes_at m' off n"
  by (simp add: bytes_at_def)

lemma bytes_at_put32_other: "off + n \<le> p \<Longrightarrow> bytes_at (put32 p v m) off n = bytes_at m off n"
  by (rule bytes_at_cong) (simp add: put32_other)

lemma bytes_at_put32: "bytes_at (put32 off (le32 a b c d) m) off 4 = [a, b, c, d]"
proof -
  have "[0..<4] = [0, 1, 2, 3 :: nat]" by (simp add: upt_rec)
  then show ?thesis by (simp add: bytes_at_def put32_def)
qed

lemma take_bytes_at: "n \<le> k \<Longrightarrow> take n (bytes_at m off k) = bytes_at m off n"
  by (simp add: bytes_at_def take_map)

lemma bytes_at_put32_take:
  "n \<le> 4 \<Longrightarrow> bytes_at (put32 off (le32 a b c d) m) off n = take n [a, b, c, d]"
  using take_bytes_at [of n 4 "put32 off (le32 a b c d) m" off] by (simp only: bytes_at_put32)

text \<open>Fields of a local byte array, as the command wrappers read and write them.\<close>

definition rd32 :: "nat \<Rightarrow> u8 list \<Rightarrow> u32" where
  "rd32 off xs = le32 (xs ! off) (xs ! (off + 1)) (xs ! (off + 2)) (xs ! (off + 3))"

definition wr32 :: "nat \<Rightarrow> u32 \<Rightarrow> u8 list \<Rightarrow> u8 list" where
  "wr32 off v xs = xs[off := byte_of 0 v, off + 1 := byte_of 1 v, off + 2 := byte_of 2 v,
                      off + 3 := byte_of 3 v]"

definition wr64 :: "nat \<Rightarrow> u64 \<Rightarrow> u8 list \<Rightarrow> u8 list" where
  "wr64 off v xs = wr32 (off + 4) (ucast (drop_bit 32 v)) (wr32 off (ucast v) xs)"

definition rd64 :: "nat \<Rightarrow> u8 list \<Rightarrow> u64" where
  "rd64 off xs = push_bit 32 (ucast (rd32 (off + 4) xs)) OR ucast (rd32 off xs)"

definition wr_bytes :: "nat \<Rightarrow> u8 list \<Rightarrow> u8 list \<Rightarrow> u8 list" where
  "wr_bytes off src xs = take off xs @ src @ drop (off + length src) xs"

lemma length_wr [simp]:
  "length (wr32 off v xs) = length xs" "length (wr64 off w xs) = length xs"
  by (simp_all add: wr32_def wr64_def)

lemma length_wr_bytes [simp]:
  "off + length src \<le> length xs \<Longrightarrow> length (wr_bytes off src xs) = length xs"
  by (simp add: wr_bytes_def)

lemma rd32_wr32_same: "off + 4 \<le> length xs \<Longrightarrow> rd32 off (wr32 off v xs) = v"
  using le32_byte_of [of v] by (simp add: rd32_def wr32_def)

lemma rd32_wr32_other:
  "i + 4 \<le> off \<or> off + 4 \<le> i \<Longrightarrow> rd32 i (wr32 off v xs) = rd32 i xs"
  by (auto simp: rd32_def wr32_def)

lemma rd64_wr64_same: "off + 8 \<le> length xs \<Longrightarrow> rd64 off (wr64 off v xs) = v"
proof -
  assume "off + 8 \<le> length xs"
  then have "rd64 off (wr64 off v xs) = push_bit 32 (ucast (ucast (drop_bit 32 v) :: u32)) OR ucast (ucast v :: u32)"
    by (simp add: rd64_def wr64_def rd32_wr32_same rd32_wr32_other)
  also have "\<dots> = v" by (rule bit_word_eqI) (auto simp: bit_simps)
  finally show ?thesis .
qed

lemma rd32_wr64_other: "i + 4 \<le> off \<or> off + 8 \<le> i \<Longrightarrow> rd32 i (wr64 off v xs) = rd32 i xs"
  by (auto simp: wr64_def rd32_wr32_other)

lemmas buf_field_simps = rd32_wr32_same rd32_wr32_other rd64_wr64_same rd32_wr64_other

end
