(* ===== verification/Mcdi.thy ===== *)
theory Mcdi
  imports Io
begin

text \<open>
  The MCDI transport (first half of \<^verbatim>\<open>sfc7120_mcdi.c\<close>): the 256-byte DMA mailbox and its
  accessors, its allocation, initialisation and release, request framing in both header formats, the
  bounded poll loop, and \<open>sfc7120_mcdi_exec\<close>. The state is the MCDI part of
  \<open>sfc7120_softc\<close>, extended by the later theories, so every lemma here also says that the rest of
  the softc is untouched. \<open>None\<close> is a fault: an access outside the mailbox or a failed
  KASSERT. \<open>mcdi_mtx\<close> is held from the send to the end of the command, which makes
  \<open>sfc7120_mcdi_exec\<close> one atomic step.
\<close>

section \<open>State\<close>

abbreviation (input) MCDI_HEADER_LEN :: nat where "MCDI_HEADER_LEN \<equiv> 4"
abbreviation (input) MCDI_V2_HEADER_LEN :: nat where "MCDI_V2_HEADER_LEN \<equiv> 8"
abbreviation (input) MCDI_PAYLOAD_LEN_MAX_V1 :: nat where "MCDI_PAYLOAD_LEN_MAX_V1 \<equiv> 0xfc"
abbreviation (input) MC_CMD_V2_EXTN :: u32 where "MC_CMD_V2_EXTN \<equiv> 0x7f"
abbreviation (input) SFC7120_MCDI_POLL_MIN_US :: u32 where "SFC7120_MCDI_POLL_MIN_US \<equiv> 10"
abbreviation (input) SFC7120_MCDI_POLL_MAX_US :: u32 where "SFC7120_MCDI_POLL_MAX_US \<equiv> 100 * 1000"
abbreviation (input) SFC7120_MCDI_TIMEOUT_US :: u32 where "SFC7120_MCDI_TIMEOUT_US \<equiv> 10 * 1000 * 1000"

definition MCDI_BUF_LEN :: nat where
  "MCDI_BUF_LEN = MCDI_HEADER_LEN + MCDI_PAYLOAD_LEN_MAX_V1"

record mcdi_sc =
  trace :: "io list"
  mcdi_buf :: bytes
  mcdi_buf_va :: nat          \<comment> \<open>0 is NULL\<close>
  mcdi_buf_paddr :: u64
  mcdi_dtag :: bool           \<comment> \<open>tag is not NULL\<close>
  mcdi_seq :: u8
  mcdi_new_epoch :: bool
  mcdi_initialized :: bool
  mcdi_prev_reboot_status :: u32

definition io :: "io list \<Rightarrow> 'a mcdi_sc_scheme \<Rightarrow> 'a mcdi_sc_scheme" where
  "io evs sc = sc\<lparr>trace := trace sc @ evs\<rparr>"

definition SFC7120_READ_REG :: "'e env_scheme \<Rightarrow> nat \<Rightarrow> 'a mcdi_sc_scheme \<Rightarrow> u32 \<times> 'a mcdi_sc_scheme" where
  "SFC7120_READ_REG env off sc = (e_reg_rd env (trace sc) off, io [RegRd off] sc)"

definition SFC7120_WRITE_REG :: "nat \<Rightarrow> u32 \<Rightarrow> 'a mcdi_sc_scheme \<Rightarrow> 'a mcdi_sc_scheme" where
  "SFC7120_WRITE_REG off v sc = io [RegWr off v] sc"

section \<open>Mailbox accessors\<close>

definition mcdi_buf_write_dword :: "nat \<Rightarrow> u32 \<Rightarrow> bytes \<Rightarrow> bytes option" where
  "mcdi_buf_write_dword off v m = (if off + 4 \<le> MCDI_BUF_LEN then Some (put32 off v m) else None)"

definition mcdi_buf_read_dword :: "nat \<Rightarrow> bytes \<Rightarrow> u32 option" where
  "mcdi_buf_read_dword off m = (if off + 4 \<le> MCDI_BUF_LEN then Some (get32 off m) else None)"

fun mcdi_buf_write_payload :: "nat \<Rightarrow> u8 list \<Rightarrow> bytes \<Rightarrow> bytes option" where
  "mcdi_buf_write_payload off (a # b # c # d # rest) m =
     do { m \<leftarrow> mcdi_buf_write_dword off (le32 a b c d) m; mcdi_buf_write_payload (off + 4) rest m }"
| "mcdi_buf_write_payload off [a, b, c] m = mcdi_buf_write_dword off (le32 a b c 0) m"
| "mcdi_buf_write_payload off [a, b] m = mcdi_buf_write_dword off (le32 a b 0 0) m"
| "mcdi_buf_write_payload off [a] m = mcdi_buf_write_dword off (le32 a 0 0 0) m"
| "mcdi_buf_write_payload off [] m = Some m"

fun mcdi_buf_read_payload :: "nat \<Rightarrow> nat \<Rightarrow> bytes \<Rightarrow> u8 list option" where
  "mcdi_buf_read_payload off len m =
     (if 4 \<le> len then
        do { v \<leftarrow> mcdi_buf_read_dword off m;
             rest \<leftarrow> mcdi_buf_read_payload (off + 4) (len - 4) m;
             Some (map (\<lambda>i. byte_of i v) [0..<4] @ rest) }
      else if 0 < len then
        do { v \<leftarrow> mcdi_buf_read_dword off m; Some (map (\<lambda>i. byte_of i v) [0..<len]) }
      else Some [])"

declare mcdi_buf_read_payload.simps [simp del]

section \<open>Mailbox memory\<close>

definition sfc7120_mcdi_alloc_buf ::
  "'e env_scheme \<Rightarrow> 'a mcdi_sc_scheme \<Rightarrow> (errno \<times> 'a mcdi_sc_scheme) option" where
  "sfc7120_mcdi_alloc_buf env sc =
     (let e1 = e_dma_tag env (trace sc); sc = io [DmaTagCreate MCDI_BUF_LEN] sc in
      if e1 \<noteq> OK then Some (e1, sc)
      else let sc = sc\<lparr>mcdi_dtag := True\<rparr>;
               mem = e_dma_mem env (trace sc); sc = io [DmaMemAlloc MCDI_BUF_LEN] sc in
      case mem of
        Inl e2 \<Rightarrow> Some (e2, (io [DmaTagDestroy] sc)\<lparr>mcdi_dtag := False\<rparr>)
      | Inr va \<Rightarrow>
          let sc = sc\<lparr>mcdi_buf_va := va, mcdi_buf := (\<lambda>_. 0)\<rparr>;
              (e3, pa) = e_dma_load env (trace sc);
              sc = (io [DmaMapLoad MCDI_BUF_LEN] sc)\<lparr>mcdi_buf_paddr := pa\<rparr> in
          if e3 \<noteq> OK \<or> pa = 0
          then Some (if e3 \<noteq> OK then e3 else ENOMEM,
                     (io [DmaMemFree, DmaTagDestroy] sc)\<lparr>mcdi_buf_va := 0, mcdi_dtag := False\<rparr>)
          else if pa AND 0xff \<noteq> 0 then None
          else Some (OK, sc))"

definition sfc7120_mcdi_free_buf :: "'a mcdi_sc_scheme \<Rightarrow> 'a mcdi_sc_scheme" where
  "sfc7120_mcdi_free_buf sc =
     (let sc = (if mcdi_buf_paddr sc \<noteq> 0 then (io [DmaMapUnload] sc)\<lparr>mcdi_buf_paddr := 0\<rparr> else sc);
          sc = (if mcdi_buf_va sc \<noteq> 0 then (io [DmaMemFree] sc)\<lparr>mcdi_buf_va := 0\<rparr> else sc)
      in if mcdi_dtag sc then (io [DmaTagDestroy] sc)\<lparr>mcdi_dtag := False\<rparr> else sc)"

abbreviation (input) PCI_MEMEN_BUSMASTEREN :: u16 where "PCI_MEMEN_BUSMASTEREN \<equiv> 0x6"

definition sfc7120_mcdi_init ::
  "'e env_scheme \<Rightarrow> 'a mcdi_sc_scheme \<Rightarrow> (errno \<times> 'a mcdi_sc_scheme) option" where
  "sfc7120_mcdi_init env sc =
     (if mcdi_initialized sc then None else
      do { (error, sc) \<leftarrow> sfc7120_mcdi_alloc_buf env sc;
           if error \<noteq> OK then Some (error, sc)
           else
             let pci_cmd = e_pci_rd env (trace sc); sc = io [PciRd] sc in
             if pci_cmd AND PCI_MEMEN_BUSMASTEREN \<noteq> PCI_MEMEN_BUSMASTEREN
             then Some (ENXIO, sfc7120_mcdi_free_buf sc)
             else
               let (hw_rev, sc) = SFC7120_READ_REG env EF10_REG_BIU_HW_REV_ID sc in
               if hw_rev \<noteq> EF10_REG_BIU_HW_REV_ID_RESET
               then Some (ENXIO, sfc7120_mcdi_free_buf sc)
               else
                 let (mc_sft_status, sc) = SFC7120_READ_REG env EF10_REG_BIU_MC_SFT_STATUS sc;
                     sc = SFC7120_WRITE_REG EF10_REG_MC_DB_HWRD 1 sc in
                 Some (OK, sc\<lparr>mcdi_seq := 0, mcdi_new_epoch := True,
                              mcdi_prev_reboot_status := mc_sft_status, mcdi_initialized := True\<rparr>) })"

definition sfc7120_mcdi_fini :: "'a mcdi_sc_scheme \<Rightarrow> 'a mcdi_sc_scheme" where
  "sfc7120_mcdi_fini sc =
     (if \<not> mcdi_initialized sc then sc
      else (sfc7120_mcdi_free_buf sc)\<lparr>mcdi_initialized := False\<rparr>)"

section \<open>Request and response\<close>

definition mcdi_v1_hdr :: "u32 \<Rightarrow> u32 \<Rightarrow> u8 \<Rightarrow> bool \<Rightarrow> u32" where
  "mcdi_v1_hdr code datalen seq new_epoch =
     push_bit 0 (code AND 0x7f) OR push_bit 8 (datalen AND 0xff) OR
     push_bit 16 (ucast seq AND 0x0f) OR
     (if \<not> new_epoch then push_bit 21 1 else 0)"

definition mcdi_v2_hdr :: "u32 \<Rightarrow> u32 \<Rightarrow> u32" where
  "mcdi_v2_hdr cmd in_len = push_bit 0 (cmd AND 0x7fff) OR push_bit 16 (in_len AND 0x3ff)"

definition sfc7120_mcdi_send_locked ::
  "u32 \<Rightarrow> u8 list \<Rightarrow> u8 \<Rightarrow> 'a mcdi_sc_scheme \<Rightarrow> (nat \<times> 'a mcdi_sc_scheme) option" where
  "sfc7120_mcdi_send_locked cmd inp seq sc =
     (let use_v2 = (cmd \<ge> MC_CMD_V2_EXTN \<or> length inp > MCDI_PAYLOAD_LEN_MAX_V1);
          in_len = of_nat (length inp) :: u32 in
      if length inp > MCDI_PAYLOAD_LEN_MAX_V1 then None
      else do {
        (payload_off, m) \<leftarrow>
          (if use_v2 then
             do { m \<leftarrow> mcdi_buf_write_dword 0 (mcdi_v1_hdr MC_CMD_V2_EXTN 0 seq (mcdi_new_epoch sc))
                        (mcdi_buf sc);
                  m \<leftarrow> mcdi_buf_write_dword MCDI_HEADER_LEN (mcdi_v2_hdr cmd in_len) m;
                  Some (MCDI_V2_HEADER_LEN, m) }
           else
             do { m \<leftarrow> mcdi_buf_write_dword 0 (mcdi_v1_hdr cmd in_len seq (mcdi_new_epoch sc))
                        (mcdi_buf sc);
                  Some (MCDI_HEADER_LEN, m) });
        m \<leftarrow> (if length inp > 0 then mcdi_buf_write_payload payload_off inp m else Some m);
        let sc = sc\<lparr>mcdi_buf := m\<rparr>;
            sc = SFC7120_WRITE_REG EF10_REG_MC_DB_LWRD (ucast (drop_bit 32 (mcdi_buf_paddr sc))) sc;
            sc = SFC7120_WRITE_REG EF10_REG_MC_DB_HWRD (ucast (mcdi_buf_paddr sc AND 0xffffffff)) sc;
            sc = io [McRequest cmd inp] sc
        in Some (payload_off, sc) })"

definition resp_bit :: "u32 \<Rightarrow> bool" where
  "resp_bit header \<longleftrightarrow> drop_bit 23 header AND 0x1 \<noteq> 0"

definition err_bit :: "u32 \<Rightarrow> bool" where
  "err_bit header \<longleftrightarrow> drop_bit 22 header AND 0x1 \<noteq> 0"

definition sfc7120_mcdi_poll_response ::
  "'e env_scheme \<Rightarrow> 'a mcdi_sc_scheme \<Rightarrow> (bool \<times> 'a mcdi_sc_scheme) option" where
  "sfc7120_mcdi_poll_response env sc =
     (let sc = io [McPoll] (sc\<lparr>mcdi_buf := e_mc_poll env (trace sc) (mcdi_buf sc)\<rparr>)
      in do { header \<leftarrow> mcdi_buf_read_dword 0 (mcdi_buf sc); Some (resp_bit header, sc) })"

fun sfc7120_mcdi_xlate_err :: "u32 \<Rightarrow> errno" where
  "sfc7120_mcdi_xlate_err mc_err =
     (if mc_err = 0 then OK else if mc_err = 1 then EPERM else if mc_err = 2 then ENOENT
      else if mc_err = 4 then EINTR else if mc_err = 5 then EIO else if mc_err = 11 then EAGAIN
      else if mc_err = 12 then ENOMEM else if mc_err = 13 then EACCES else if mc_err = 16 then EBUSY
      else if mc_err = 22 then EINVAL else if mc_err = 38 then ENOSYS
      else if mc_err = 62 then ETIMEDOUT else if mc_err = 95 then EOPNOTSUPP else EIO)"

declare sfc7120_mcdi_xlate_err.simps [simp del]

text \<open>
  The poll loop of \<open>sfc7120_mcdi_exec\<close>; the Boolean of the result says that a response came, the
  word is the time waited.
\<close>

partial_function (option) mcdi_poll_loop ::
  "'e env_scheme \<Rightarrow> u32 \<Rightarrow> u32 \<Rightarrow> 'a mcdi_sc_scheme \<Rightarrow> (bool \<times> u32 \<times> 'a mcdi_sc_scheme) option"
where
  "mcdi_poll_loop env delay_us total_us sc =
     do { (resp, sc) \<leftarrow> sfc7120_mcdi_poll_response env sc;
          if resp then Some (True, total_us, sc)
          else if total_us \<ge> SFC7120_MCDI_TIMEOUT_US then Some (False, total_us, sc)
          else mcdi_poll_loop env
                 (if delay_us * 2 > SFC7120_MCDI_POLL_MAX_US then SFC7120_MCDI_POLL_MAX_US
                  else delay_us * 2)
                 (total_us + delay_us) (io [Delay delay_us] sc) }"

definition mcdi_advance :: "'a mcdi_sc_scheme \<Rightarrow> 'a mcdi_sc_scheme" where
  "mcdi_advance sc = sc\<lparr>mcdi_new_epoch := False, mcdi_seq := (mcdi_seq sc + 1) AND 0x0f\<rparr>"

text \<open>
  The response is read from the mailbox: the return code, the caller's \<open>out\<close> array afterwards
  and the value stored in \<open>*out_used\<close>, if it is stored. \<open>out\<close> is the array before the
  call; the empty list stands for NULL.
\<close>

definition mcdi_read_response ::
  "nat \<Rightarrow> u8 \<Rightarrow> u8 list \<Rightarrow> bytes \<Rightarrow> (errno \<times> u8 list \<times> nat option) option" where
  "mcdi_read_response payload_off seq out m =
     do { header \<leftarrow> mcdi_buf_read_dword 0 m;
          resp_datalen \<leftarrow>
            (if payload_off = MCDI_V2_HEADER_LEN
             then do { v2_hdr \<leftarrow> mcdi_buf_read_dword MCDI_HEADER_LEN m;
                       Some (unat (drop_bit 16 v2_hdr AND 0x3ff)) }
             else Some (unat (drop_bit 8 header AND 0xff)));
          let resp_seq = ucast (drop_bit 16 header AND 0x0f) :: u8 in
          if resp_seq \<noteq> seq then Some (EPROTO, out, None)
          else if err_bit header
          then do { mc_err \<leftarrow> (if resp_datalen \<ge> 4 then mcdi_buf_read_dword payload_off m else Some 0);
                    Some (sfc7120_mcdi_xlate_err mc_err, out, None) }
          else if length out > 0
          then let copy = (if resp_datalen < length out then resp_datalen else length out) in
               do { d \<leftarrow> (if copy > 0 then mcdi_buf_read_payload payload_off copy m else Some []);
                    Some (OK, d @ replicate (length out - copy) 0, Some copy) }
          else Some (OK, out, Some 0) }"

definition sfc7120_mcdi_exec ::
  "'e env_scheme \<Rightarrow> u32 \<Rightarrow> u8 list \<Rightarrow> u8 list \<Rightarrow> 'a mcdi_sc_scheme \<Rightarrow>
    (errno \<times> u8 list \<times> nat option \<times> 'a mcdi_sc_scheme) option" where
  "sfc7120_mcdi_exec env cmd inp out sc =
     (if \<not> mcdi_initialized sc then Some (ENXIO, out, None, sc)
      else if length inp > MCDI_PAYLOAD_LEN_MAX_V1 \<or> length out > MCDI_PAYLOAD_LEN_MAX_V1
      then Some (EINVAL, out, None, sc)
      else
        let seq = mcdi_seq sc AND 0x0f in
        do { (payload_off, sc) \<leftarrow> sfc7120_mcdi_send_locked cmd inp seq sc;
             (responded, total_us, sc) \<leftarrow> mcdi_poll_loop env SFC7120_MCDI_POLL_MIN_US 0 sc;
             if \<not> responded
             then
               let sc = io [McPoll] (sc\<lparr>mcdi_buf := e_mc_poll env (trace sc) (mcdi_buf sc)\<rparr>);
                   sc = io [RegRd EF10_REG_BIU_HW_REV_ID, RegRd EF10_REG_BIU_MC_SFT_STATUS, PciRd] sc
               in Some (ETIMEDOUT, out, None, mcdi_advance sc)
             else do { (rc, out, used) \<leftarrow> mcdi_read_response payload_off seq out (mcdi_buf sc);
                       Some (rc, out, used, mcdi_advance sc) } })"

section \<open>Header fields\<close>

lemma u32_masks:
  "(0x7f :: u32) = mask 7" "(0xff :: u32) = mask 8" "(0x0f :: u32) = mask 4"
  "(0x7fff :: u32) = mask 15" "(0x3ff :: u32) = mask 10" "(0x1 :: u32) = mask 1"
  by (simp_all add: mask_eq_exp_minus_1)

lemma v1_hdr_bits:
  "mcdi_v1_hdr code len seq ep =
     (code AND mask 7) OR push_bit 8 (len AND mask 8) OR push_bit 16 (ucast seq AND mask 4) OR
     push_bit 21 (of_bool (\<not> ep))"
  unfolding mcdi_v1_hdr_def u32_masks(1,2,3) by simp

lemma v1_hdr_fields:
  "mcdi_v1_hdr code len seq ep AND 0x7f = code AND 0x7f"
  "drop_bit 8 (mcdi_v1_hdr code len seq ep) AND 0xff = len AND 0xff"
  "drop_bit 16 (mcdi_v1_hdr code len seq ep) AND 0x0f = ucast seq AND 0x0f"
  unfolding v1_hdr_bits u32_masks(1,2,3)
  by (rule bit_word_eqI; auto simp: bit_simps)+

lemma bit_v1_hdr:
  "bit (mcdi_v1_hdr code len seq ep) 21 \<longleftrightarrow> \<not> ep"
  "\<not> bit (mcdi_v1_hdr code len seq ep) 22" "\<not> bit (mcdi_v1_hdr code len seq ep) 23"
  unfolding v1_hdr_bits by (auto simp: bit_simps)

lemma resp_bit_iff: "resp_bit h \<longleftrightarrow> bit h 23"
  by (simp add: resp_bit_def and_one_eq odd_iff_mod_2_eq_one [symmetric] bit_iff_odd_drop_bit
      flip: mod_2_eq_odd)

lemma err_bit_iff: "err_bit h \<longleftrightarrow> bit h 22"
  by (simp add: err_bit_def and_one_eq odd_iff_mod_2_eq_one [symmetric] bit_iff_odd_drop_bit
      flip: mod_2_eq_odd)

lemma v2_hdr_fields:
  "mcdi_v2_hdr cmd len AND 0x7fff = cmd AND 0x7fff"
  "drop_bit 16 (mcdi_v2_hdr cmd len) AND 0x3ff = len AND 0x3ff"
  unfolding mcdi_v2_hdr_def u32_masks
  by (rule bit_word_eqI; auto simp: bit_simps)+

section \<open>Mailbox payloads\<close>

text \<open>Payloads occupy whole dwords.\<close>

definition pad4 :: "nat \<Rightarrow> nat" where
  "pad4 n = (n + 3) div 4 * 4"

lemma pad4_ge: "n \<le> pad4 n"
  by (simp add: pad4_def)

lemma pad4_add4: "pad4 (n + 4) = pad4 n + 4"
  using div_add_self2 [of 4 "n + 3"] by (simp add: pad4_def algebra_simps)

lemma pad4_small [simp]: "pad4 0 = 0" "0 < n \<Longrightarrow> n \<le> 4 \<Longrightarrow> pad4 n = 4"
  by (auto simp: pad4_def)

lemma write_payload_ok:
  "off + pad4 (length inp) \<le> MCDI_BUF_LEN \<Longrightarrow>
   \<exists>m'. mcdi_buf_write_payload off inp m = Some m' \<and> (\<forall>i < off. m' i = m i) \<and>
     bytes_at m' off (length inp) = inp"
proof (induction off inp m rule: mcdi_buf_write_payload.induct)
  case (1 off a b c d rest m)
  let ?m1 = "put32 off (le32 a b c d) m"
  have len: "length (a # b # c # d # rest) = length rest + 4" by simp
  have le: "off + 4 + pad4 (length rest) \<le> MCDI_BUF_LEN"
    using "1.prems" unfolding len pad4_add4 by simp
  then have w: "mcdi_buf_write_dword off (le32 a b c d) m = Some ?m1"
    by (simp add: mcdi_buf_write_dword_def)
  from "1.IH" [OF w] le obtain m' where m': "mcdi_buf_write_payload (off + 4) rest ?m1 = Some m'"
      "\<forall>i < off + 4. m' i = ?m1 i" "bytes_at m' (off + 4) (length rest) = rest"
    by auto
  have "bytes_at m' off (4 + length rest) = bytes_at m' off 4 @ bytes_at m' (off + 4) (length rest)"
    by (rule bytes_at_append)
  also have "bytes_at m' off 4 = bytes_at ?m1 off 4"
    using m'(2) by (intro bytes_at_cong) simp
  finally have "bytes_at m' off (length (a # b # c # d # rest)) = a # b # c # d # rest"
    using m'(3) unfolding bytes_at_put32 len by (simp add: add.commute)
  then show ?case using w m'(1,2) by (auto simp: put32_other)
qed (auto simp: mcdi_buf_write_dword_def put32_other bytes_at_put32_take)

lemma write_payload_none:
  "MCDI_BUF_LEN < off + pad4 (length inp) \<Longrightarrow> off \<le> MCDI_BUF_LEN \<Longrightarrow>
   mcdi_buf_write_payload off inp m = None"
proof (induction off inp m rule: mcdi_buf_write_payload.induct)
  case (1 off a b c d rest m)
  have len: "length (a # b # c # d # rest) = length rest + 4" by simp
  have lt: "MCDI_BUF_LEN < off + 4 + pad4 (length rest)"
    using "1.prems"(1) unfolding len pad4_add4 by simp
  show ?case
  proof (cases "off + 4 \<le> MCDI_BUF_LEN")
    case True
    then have w: "mcdi_buf_write_dword off (le32 a b c d) m = Some (put32 off (le32 a b c d) m)"
      by (simp add: mcdi_buf_write_dword_def)
    from "1.IH" [OF w lt True] w show ?thesis by simp
  qed (simp add: mcdi_buf_write_dword_def)
qed (auto simp: mcdi_buf_write_dword_def MCDI_BUF_LEN_def)

lemma read_dword_bytes:
  "n \<le> 4 \<Longrightarrow> map (\<lambda>i. byte_of i (get32 off m)) [0..<n] = bytes_at m off n"
proof -
  have "byte_of i (get32 off m) = m (off + i)" if "i < 4" for i
  proof -
    from that have "i = 0 \<or> i = 1 \<or> i = 2 \<or> i = 3" by linarith
    then show ?thesis by (elim disjE) (simp_all add: get32_def)
  qed
  then show "n \<le> 4 \<Longrightarrow> ?thesis" by (simp add: bytes_at_def)
qed

lemma read_payload_ok:
  "off + pad4 len \<le> MCDI_BUF_LEN \<Longrightarrow> mcdi_buf_read_payload off len m = Some (bytes_at m off len)"
proof (induction off len m rule: mcdi_buf_read_payload.induct)
  case (1 off len m)
  show ?case
  proof (cases "4 \<le> len")
    case True
    then have le: "off + 4 + pad4 (len - 4) \<le> MCDI_BUF_LEN"
      using "1.prems" pad4_add4 [of "len - 4"] by simp
    have "bytes_at m off len = bytes_at m off 4 @ bytes_at m (off + 4) (len - 4)"
      using True bytes_at_append [of m off 4 "len - 4"] by simp
    with True le "1.IH" [OF True] show ?thesis
      by (simp add: mcdi_buf_read_payload.simps [of off] mcdi_buf_read_dword_def read_dword_bytes)
  next
    case False
    with "1.prems" show ?thesis
      by (cases "len = 0")
        (simp_all add: mcdi_buf_read_payload.simps mcdi_buf_read_dword_def read_dword_bytes)
  qed
qed

section \<open>Framing\<close>

definition mcdi_payload_off :: "u32 \<Rightarrow> nat" where
  "mcdi_payload_off cmd = (if cmd \<ge> MC_CMD_V2_EXTN then MCDI_V2_HEADER_LEN else MCDI_HEADER_LEN)"

text \<open>The request fits: header, padding and payload stay inside the mailbox.\<close>

definition mcdi_fits :: "u32 \<Rightarrow> nat \<Rightarrow> bool" where
  "mcdi_fits cmd len \<longleftrightarrow> mcdi_payload_off cmd + pad4 len \<le> MCDI_BUF_LEN"

text \<open>How the MC decodes a request in the mailbox: opcode, payload length and payload.\<close>

definition mc_decode :: "bytes \<Rightarrow> u32 \<times> nat \<times> u8 list" where
  "mc_decode m =
     (let h = get32 0 m in
      if h AND 0x7f = MC_CMD_V2_EXTN
      then let x = get32 4 m; n = unat (drop_bit 16 x AND 0x3ff) in (x AND 0x7fff, n, bytes_at m 8 n)
      else let n = unat (drop_bit 8 h AND 0xff) in (h AND 0x7f, n, bytes_at m 4 n))"

lemma mcdi_fits_252: "mcdi_fits cmd n \<Longrightarrow> n \<le> 252"
  using pad4_ge [of n] by (auto simp: mcdi_fits_def mcdi_payload_off_def MCDI_BUF_LEN_def split: if_splits)

lemma send_locked_ok:
  assumes "mcdi_fits cmd (length inp)"
  obtains m where "sfc7120_mcdi_send_locked cmd inp seq sc =
      Some (mcdi_payload_off cmd,
        sc\<lparr>mcdi_buf := m,
           trace := trace sc @ [RegWr EF10_REG_MC_DB_LWRD (ucast (drop_bit 32 (mcdi_buf_paddr sc))),
             RegWr EF10_REG_MC_DB_HWRD (ucast (mcdi_buf_paddr sc AND 0xffffffff)), McRequest cmd inp]\<rparr>)"
    and "get32 0 m = (if cmd \<ge> MC_CMD_V2_EXTN then mcdi_v1_hdr MC_CMD_V2_EXTN 0 seq (mcdi_new_epoch sc)
      else mcdi_v1_hdr cmd (of_nat (length inp)) seq (mcdi_new_epoch sc))"
    and "cmd \<ge> MC_CMD_V2_EXTN \<Longrightarrow> get32 4 m = mcdi_v2_hdr cmd (of_nat (length inp))"
    and "bytes_at m (mcdi_payload_off cmd) (length inp) = inp"
proof -
  let ?h = "if cmd \<ge> MC_CMD_V2_EXTN then mcdi_v1_hdr MC_CMD_V2_EXTN 0 seq (mcdi_new_epoch sc)
      else mcdi_v1_hdr cmd (of_nat (length inp)) seq (mcdi_new_epoch sc)"
  let ?m1 = "put32 0 ?h (mcdi_buf sc)"
  let ?m2 = "if cmd \<ge> MC_CMD_V2_EXTN then put32 4 (mcdi_v2_hdr cmd (of_nat (length inp))) ?m1 else ?m1"
  obtain m where m: "mcdi_buf_write_payload (mcdi_payload_off cmd) inp ?m2 = Some m"
      "\<forall>i < mcdi_payload_off cmd. m i = ?m2 i" "bytes_at m (mcdi_payload_off cmd) (length inp) = inp"
    using write_payload_ok assms unfolding mcdi_fits_def by blast
  have "get32 0 m = get32 0 ?m2"
    using m(2) by (intro get32_cong) (auto simp: mcdi_payload_off_def)
  then have h: "get32 0 m = ?h" by (simp add: get32_put32_other)
  have x: "cmd \<ge> MC_CMD_V2_EXTN \<Longrightarrow> get32 4 m = mcdi_v2_hdr cmd (of_nat (length inp))"
    using m(2) get32_cong [of 4 m ?m2] by (auto simp: mcdi_payload_off_def)
  have "length inp \<le> 252" using assms by (rule mcdi_fits_252)
  with m(1) have "sfc7120_mcdi_send_locked cmd inp seq sc =
      Some (mcdi_payload_off cmd,
        sc\<lparr>mcdi_buf := m,
           trace := trace sc @ [RegWr EF10_REG_MC_DB_LWRD (ucast (drop_bit 32 (mcdi_buf_paddr sc))),
             RegWr EF10_REG_MC_DB_HWRD (ucast (mcdi_buf_paddr sc AND 0xffffffff)), McRequest cmd inp]\<rparr>)"
    by (auto simp: sfc7120_mcdi_send_locked_def Let_def mcdi_payload_off_def SFC7120_WRITE_REG_def
        io_def mcdi_buf_write_dword_def MCDI_BUF_LEN_def)
  from that [OF this h x m(3)] show thesis .
qed

lemma u32_and_mask_small: "x < 2 ^ n \<Longrightarrow> n < 32 \<Longrightarrow> (of_nat x :: u32) AND mask n = of_nat x"
  by (simp add: take_bit_of_nat take_bit_nat_eq_self flip: take_bit_eq_mask)

section \<open>The poll loop ends\<close>

lemma poll_response_eq:
  "sfc7120_mcdi_poll_response env sc =
     Some (resp_bit (get32 0 (e_mc_poll env (trace sc) (mcdi_buf sc))),
       sc\<lparr>mcdi_buf := e_mc_poll env (trace sc) (mcdi_buf sc), trace := trace sc @ [McPoll]\<rparr>)"
  by (simp add: sfc7120_mcdi_poll_response_def io_def mcdi_buf_read_dword_def MCDI_BUF_LEN_def Let_def)

text \<open>
  \<open>poll_ends n d t\<close>: from delay \<open>d\<close> and elapsed time \<open>t\<close> the loop returns after at most
  \<open>n\<close> more polls, having changed only the mailbox contents and the trace.
\<close>

definition waiting :: "io \<Rightarrow> bool" where
  "waiting e = (case e of McPoll \<Rightarrow> True | Delay d \<Rightarrow> True | _ \<Rightarrow> False)"

definition poll_ends :: "'e env_scheme \<Rightarrow> nat \<Rightarrow> u32 \<Rightarrow> u32 \<Rightarrow> 'a mcdi_sc_scheme \<Rightarrow> bool" where
  "poll_ends env n d t sc \<longleftrightarrow>
     (\<exists>r t' tr m. mcdi_poll_loop env d t sc = Some (r, t', sc\<lparr>mcdi_buf := m, trace := trace sc @ tr\<rparr>) \<and>
        length (filter (\<lambda>e. e = McPoll) tr) \<le> n \<and> (\<forall>e \<in> set tr. waiting e) \<and>
        t' \<le> 10063830 \<and> (r \<longleftrightarrow> resp_bit (get32 0 m)) \<and> (\<not> r \<longrightarrow> t' \<ge> SFC7120_MCDI_TIMEOUT_US))"

lemma poll_ends_last:
  assumes "t \<ge> SFC7120_MCDI_TIMEOUT_US" "t \<le> 10063830"
  shows "poll_ends env 1 d t sc"
proof -
  let ?m = "e_mc_poll env (trace sc) (mcdi_buf sc)"
  have "mcdi_poll_loop env d t sc =
      Some (resp_bit (get32 0 ?m), t, sc\<lparr>mcdi_buf := ?m, trace := trace sc @ [McPoll]\<rparr>)"
    using assms by (subst mcdi_poll_loop.simps) (simp add: poll_response_eq)
  then show ?thesis using assms unfolding poll_ends_def
    by (intro exI [of _ "resp_bit (get32 0 ?m)"] exI [of _ t] exI [of _ "[McPoll]"] exI [of _ ?m])
      (simp add: waiting_def)
qed

lemma poll_ends_step:
  assumes "t \<le> 10063830"
    and "\<And>sc. poll_ends env n (if d * 2 > SFC7120_MCDI_POLL_MAX_US then SFC7120_MCDI_POLL_MAX_US else d * 2)
      (t + d) (sc :: 'a mcdi_sc_scheme)"
  shows "poll_ends env (Suc n) d t (sc :: 'a mcdi_sc_scheme)"
proof -
  let ?m = "e_mc_poll env (trace sc) (mcdi_buf sc)"
  let ?d = "if d * 2 > SFC7120_MCDI_POLL_MAX_US then SFC7120_MCDI_POLL_MAX_US else d * 2"
  let ?sc1 = "sc\<lparr>mcdi_buf := ?m, trace := trace sc @ [McPoll]\<rparr>"
  show ?thesis
  proof (cases "resp_bit (get32 0 ?m) \<or> t \<ge> SFC7120_MCDI_TIMEOUT_US")
    case True
    then have "mcdi_poll_loop env d t sc = Some (resp_bit (get32 0 ?m), t, ?sc1)"
      by (subst mcdi_poll_loop.simps) (auto simp: poll_response_eq)
    then show ?thesis using True assms(1) unfolding poll_ends_def
      by (intro exI [of _ "resp_bit (get32 0 ?m)"] exI [of _ t] exI [of _ "[McPoll]"] exI [of _ ?m])
        (auto simp: waiting_def)
  next
    case False
    then have eq: "mcdi_poll_loop env d t sc = mcdi_poll_loop env ?d (t + d) (io [Delay d] ?sc1)"
      by (subst mcdi_poll_loop.simps) (simp add: poll_response_eq)
    from assms(2) [of "io [Delay d] ?sc1"] obtain r t' tr m where
      loop: "mcdi_poll_loop env ?d (t + d) (io [Delay d] ?sc1) =
        Some (r, t', sc\<lparr>mcdi_buf := m, trace := trace sc @ McPoll # Delay d # tr\<rparr>)"
      and "length (filter (\<lambda>e. e = McPoll) tr) \<le> n" "\<forall>e \<in> set tr. waiting e" "t' \<le> 10063830"
        "r \<longleftrightarrow> resp_bit (get32 0 m)" "\<not> r \<longrightarrow> t' \<ge> SFC7120_MCDI_TIMEOUT_US"
      unfolding poll_ends_def by (auto simp: io_def)
    then show ?thesis unfolding poll_ends_def eq
      by (intro exI [of _ r] exI [of _ t'] exI [of _ "McPoll # Delay d # tr"] exI [of _ m])
        (auto simp: waiting_def)
  qed
qed

lemma poll_ends_max:
  "k \<le> 99 \<Longrightarrow> poll_ends (env :: 'e env_scheme) (Suc k) 100000 (10063830 - of_nat k * 100000)
     (sc :: 'a mcdi_sc_scheme)"
proof (induction k arbitrary: sc)
  case 0
  show ?case using poll_ends_last [of 10063830] by simp
next
  case (Suc k)
  have "unat (of_nat (Suc k) * 100000 :: u32) = Suc k * 100000"
    using Suc.prems by (simp add: unat_word_ariths unat_of_nat take_bit_nat_eq_self)
  then have le: "10063830 - of_nat (Suc k) * 100000 \<le> (10063830 :: u32)"
    using Suc.prems by (intro word_sub_le) (simp add: word_le_nat_alt)
  have "10063830 - of_nat (Suc k) * 100000 + 100000 = (10063830 - of_nat k * 100000 :: u32)"
    by (simp add: algebra_simps)
  with Suc have "poll_ends env (Suc k) 100000 (10063830 - of_nat (Suc k) * 100000 + 100000) sc'"
    for sc' :: "'a mcdi_sc_scheme"
    by simp
  then show ?case
    by (intro poll_ends_step [OF le, of env "Suc k" 100000]) simp
qed

lemma poll_ends_start: "poll_ends (env :: 'e env_scheme) 114 10 0 (sc :: 'a mcdi_sc_scheme)"
proof -
  have "poll_ends env 100 100000 163830 sc" for sc :: "'a mcdi_sc_scheme"
    using poll_ends_max [of 99] by simp
  then have "poll_ends env 101 81920 81910 sc" for sc :: "'a mcdi_sc_scheme"
    by (rule poll_ends_step [of 81910 env 100 81920, simplified])
  then have "poll_ends env 102 40960 40950 sc" for sc :: "'a mcdi_sc_scheme"
    by (rule poll_ends_step [of 40950 env 101 40960, simplified])
  then have "poll_ends env 103 20480 20470 sc" for sc :: "'a mcdi_sc_scheme"
    by (rule poll_ends_step [of 20470 env 102 20480, simplified])
  then have "poll_ends env 104 10240 10230 sc" for sc :: "'a mcdi_sc_scheme"
    by (rule poll_ends_step [of 10230 env 103 10240, simplified])
  then have "poll_ends env 105 5120 5110 sc" for sc :: "'a mcdi_sc_scheme"
    by (rule poll_ends_step [of 5110 env 104 5120, simplified])
  then have "poll_ends env 106 2560 2550 sc" for sc :: "'a mcdi_sc_scheme"
    by (rule poll_ends_step [of 2550 env 105 2560, simplified])
  then have "poll_ends env 107 1280 1270 sc" for sc :: "'a mcdi_sc_scheme"
    by (rule poll_ends_step [of 1270 env 106 1280, simplified])
  then have "poll_ends env 108 640 630 sc" for sc :: "'a mcdi_sc_scheme"
    by (rule poll_ends_step [of 630 env 107 640, simplified])
  then have "poll_ends env 109 320 310 sc" for sc :: "'a mcdi_sc_scheme"
    by (rule poll_ends_step [of 310 env 108 320, simplified])
  then have "poll_ends env 110 160 150 sc" for sc :: "'a mcdi_sc_scheme"
    by (rule poll_ends_step [of 150 env 109 160, simplified])
  then have "poll_ends env 111 80 70 sc" for sc :: "'a mcdi_sc_scheme"
    by (rule poll_ends_step [of 70 env 110 80, simplified])
  then have "poll_ends env 112 40 30 sc" for sc :: "'a mcdi_sc_scheme"
    by (rule poll_ends_step [of 30 env 111 40, simplified])
  then have "poll_ends env 113 20 10 sc" for sc :: "'a mcdi_sc_scheme"
    by (rule poll_ends_step [of 10 env 112 20, simplified])
  then show ?thesis
    by (rule poll_ends_step [of 0 env 113 10, simplified])
qed

section \<open>Executing a command\<close>

text \<open>What a response in the mailbox means, without loops over dwords.\<close>

definition mcdi_outcome :: "u32 \<Rightarrow> u8 \<Rightarrow> u8 list \<Rightarrow> bytes \<Rightarrow> errno \<times> u8 list \<times> nat option" where
  "mcdi_outcome cmd seq out m =
     (let h = get32 0 m; off = mcdi_payload_off cmd;
          n = (if off = 8 then unat (drop_bit 16 (get32 4 m) AND 0x3ff)
               else unat (drop_bit 8 h AND 0xff));
          k = min n (length out) in
      if ucast (drop_bit 16 h AND 0x0f) \<noteq> seq then (EPROTO, out, None)
      else if err_bit h
      then (if n \<ge> 4 then sfc7120_mcdi_xlate_err (get32 off m) else OK, out, None)
      else (OK, bytes_at m off k @ replicate (length out - k) 0, Some k))"

lemma length_mcdi_outcome: "mcdi_outcome cmd seq out m = (rc, out', used) \<Longrightarrow> length out' = length out"
  by (auto simp: mcdi_outcome_def Let_def split: if_splits)

lemma pad4_mono: "a \<le> b \<Longrightarrow> pad4 a \<le> pad4 b"
  unfolding pad4_def by (intro mult_right_mono div_le_mono) auto

lemma read_response_outcome:
  assumes "mcdi_fits cmd (length out)"
  shows "mcdi_read_response (mcdi_payload_off cmd) seq out m = Some (mcdi_outcome cmd seq out m)"
proof -
  let ?off = "mcdi_payload_off cmd"
  have off: "?off = 4 \<or> ?off = 8" by (simp add: mcdi_payload_off_def)
  have copy: "mcdi_buf_read_payload p k m = Some (bytes_at m p k)" if "p = ?off" "k \<le> length out" for p k
    using that(1) assms pad4_mono [OF that(2)] by (intro read_payload_ok) (simp add: mcdi_fits_def)
  have dword: "mcdi_buf_read_dword i m = Some (get32 i m)" if "i \<le> 8" for i
    using that by (simp add: mcdi_buf_read_dword_def MCDI_BUF_LEN_def)
  show ?thesis
  proof (cases "out = []")
    case True
    with off show ?thesis
      by (elim disjE) (simp_all add: mcdi_read_response_def mcdi_outcome_def Let_def dword
          sfc7120_mcdi_xlate_err.simps [of 0])
  next
    case False
    with off show ?thesis
      by (elim disjE) (simp_all add: mcdi_read_response_def mcdi_outcome_def Let_def dword copy min_def
          sfc7120_mcdi_xlate_err.simps [of 0])
  qed
qed

definition is_request :: "io \<Rightarrow> bool" where
  "is_request e = (case e of McRequest cmd inp \<Rightarrow> True | _ \<Rightarrow> False)"

text \<open>The events a command may cause: no DMA memory is allocated or released.\<close>

definition mc_event :: "io \<Rightarrow> bool" where
  "mc_event e = (case e of RegWr _ _ \<Rightarrow> True | RegRd _ \<Rightarrow> True | PciRd \<Rightarrow> True | McRequest _ _ \<Rightarrow> True
     | McPoll \<Rightarrow> True | Delay _ \<Rightarrow> True | _ \<Rightarrow> False)"

lemma waiting_mc_event: "waiting e \<Longrightarrow> mc_event e"
  by (cases e) (auto simp: waiting_def mc_event_def)

definition mcdi_after :: "bytes \<Rightarrow> io list \<Rightarrow> 'a mcdi_sc_scheme \<Rightarrow> 'a mcdi_sc_scheme" where
  "mcdi_after m tr sc =
     sc\<lparr>mcdi_buf := m, trace := trace sc @ tr, mcdi_new_epoch := False,
        mcdi_seq := (mcdi_seq sc + 1) AND 0x0f\<rparr>"

lemma waiting_not_request: "\<forall>e \<in> set tr. waiting e \<Longrightarrow> filter is_request tr = []"
  by (auto simp: filter_empty_conv waiting_def is_request_def split: io.splits)

lemma exec_spec:
  assumes "mcdi_initialized sc" "mcdi_fits cmd (length inp)" "mcdi_fits cmd (length out)"
  obtains r m tr where
    "sfc7120_mcdi_exec env cmd inp out sc =
       (if r then (case mcdi_outcome cmd (mcdi_seq sc AND 0x0f) out m of (rc, out', used) \<Rightarrow>
                     Some (rc, out', used, mcdi_after m tr sc))
        else Some (ETIMEDOUT, out, None, mcdi_after m tr sc))"
    and "r \<Longrightarrow> resp_bit (get32 0 m)"
    and "filter is_request tr = [McRequest cmd inp]"
    and "length (filter (\<lambda>e. e = McPoll) tr) \<le> 115"
    and "\<forall>e \<in> set tr. mc_event e"
proof -
  let ?seq = "mcdi_seq sc AND 0x0f"
  let ?pre = "[RegWr EF10_REG_MC_DB_LWRD (ucast (drop_bit 32 (mcdi_buf_paddr sc))),
     RegWr EF10_REG_MC_DB_HWRD (ucast (mcdi_buf_paddr sc AND 0xffffffff)), McRequest cmd inp]"
  let ?late = "[McPoll, RegRd EF10_REG_BIU_HW_REV_ID, RegRd EF10_REG_BIU_MC_SFT_STATUS, PciRd]"
  have len: "\<not> (252 < length inp \<or> 252 < length out)" using assms(2,3) mcdi_fits_252 by fastforce
  obtain m1 where send: "sfc7120_mcdi_send_locked cmd inp ?seq sc =
      Some (mcdi_payload_off cmd, sc\<lparr>mcdi_buf := m1, trace := trace sc @ ?pre\<rparr>)"
    using send_locked_ok [OF assms(2)] by metis
  let ?sc1 = "sc\<lparr>mcdi_buf := m1, trace := trace sc @ ?pre\<rparr>"
  from poll_ends_start [of env ?sc1] obtain r t' tr m where
    loop: "mcdi_poll_loop env 10 0 ?sc1 =
      Some (r, t', ?sc1\<lparr>mcdi_buf := m, trace := trace ?sc1 @ tr\<rparr>)"
      and polls: "length (filter (\<lambda>e. e = McPoll) tr) \<le> 114" and w: "\<forall>e \<in> set tr. waiting e"
      and r: "r \<longleftrightarrow> resp_bit (get32 0 m)"
    unfolding poll_ends_def by blast
  let ?sc2 = "?sc1\<lparr>mcdi_buf := m, trace := trace ?sc1 @ tr\<rparr>"
  define m' where "m' = (if r then m else e_mc_poll env (trace ?sc2) m)"
  define tr' where "tr' = ?pre @ tr @ (if r then [] else ?late)"
  have "sfc7120_mcdi_exec env cmd inp out sc =
       (if r then (case mcdi_outcome cmd ?seq out m' of (rc, out', used) \<Rightarrow>
                     Some (rc, out', used, mcdi_after m' tr' sc))
        else Some (ETIMEDOUT, out, None, mcdi_after m' tr' sc))"
    using assms(1,3) len
    by (simp add: sfc7120_mcdi_exec_def send loop Let_def read_response_outcome m'_def tr'_def
        mcdi_after_def mcdi_advance_def io_def split: prod.split)
  moreover have "filter is_request tr' = [McRequest cmd inp]"
    using waiting_not_request [OF w] by (simp add: tr'_def is_request_def)
  moreover have "length (filter (\<lambda>e. e = McPoll) tr') \<le> 115"
    using polls by (simp add: tr'_def)
  moreover have "r \<Longrightarrow> resp_bit (get32 0 m')" using r by (simp add: m'_def)
  moreover have "\<forall>e \<in> set tr'. mc_event e"
  proof -
    have "\<forall>e \<in> set tr. mc_event e" using w waiting_mc_event by blast
    then show ?thesis by (simp add: tr'_def mc_event_def)
  qed
  ultimately show thesis using that by blast
qed

section \<open>The command channel as an interface\<close>

text \<open>
  What the command wrappers rely on: a channel that is open stays open, every command that fits is
  delivered to the MC exactly once and returns, and nothing but the channel's own bookkeeping
  changes (\<open>view\<close> is the rest of the state).
\<close>

locale command_channel =
  fixes ex :: "u32 \<Rightarrow> u8 list \<Rightarrow> u8 list \<Rightarrow> 's \<Rightarrow> (errno \<times> u8 list \<times> nat option \<times> 's) option"
    and ready :: "'s \<Rightarrow> bool"
    and fits :: "u32 \<Rightarrow> nat \<Rightarrow> bool"
    and view :: "'s \<Rightarrow> 'v"
    and requests :: "'s \<Rightarrow> (u32 \<times> u8 list) list"
  assumes ready_ex: "\<lbrakk>ready s; fits cmd (length inp); fits cmd (length out)\<rbrakk> \<Longrightarrow>
      \<exists>rc out' used s'. ex cmd inp out s = Some (rc, out', used, s') \<and> length out' = length out \<and>
        ready s' \<and> view s' = view s \<and> requests s' = requests s @ [(cmd, inp)]"
    and closed_ex: "\<not> ready s \<Longrightarrow> ex cmd inp out s = Some (ENXIO, out, None, s)"
begin

lemma ex_frame:
  assumes "ex cmd inp out s = Some (rc, out', used, s')" "fits cmd (length inp)" "fits cmd (length out)"
  shows "ready s' = ready s \<and> view s' = view s \<and> length out' = length out \<and>
    requests s' = (if ready s then requests s @ [(cmd, inp)] else requests s)"
  using assms ready_ex [of s cmd inp out] closed_ex [of s cmd inp out] by (cases "ready s") auto

lemma ex_total:
  assumes "fits cmd (length inp)" "fits cmd (length out)"
  shows "\<exists>rc out' used s'. ex cmd inp out s = Some (rc, out', used, s')"
  using assms ready_ex [of s cmd inp out] closed_ex [of s cmd inp out] by (cases "ready s") auto

end

definition request_of :: "io \<Rightarrow> (u32 \<times> u8 list) list" where
  "request_of e = (case e of McRequest cmd inp \<Rightarrow> [(cmd, inp)] | _ \<Rightarrow> [])"

definition mc_requests :: "'a mcdi_sc_scheme \<Rightarrow> (u32 \<times> u8 list) list" where
  "mc_requests sc = concat (map request_of (trace sc))"

lemma requests_of_filter: "concat (map request_of tr) = concat (map request_of (filter is_request tr))"
  by (induction tr) (auto simp: request_of_def is_request_def split: io.splits)

text \<open>The part of the state that executing a command leaves alone.\<close>

definition mcdi_view :: "'a mcdi_sc_scheme \<Rightarrow> nat \<times> u64 \<times> bool \<times> bool \<times> u32 \<times> 'a" where
  "mcdi_view sc = (mcdi_buf_va sc, mcdi_buf_paddr sc, mcdi_dtag sc, mcdi_initialized sc,
     mcdi_prev_reboot_status sc, mcdi_sc.more sc)"

lemma mcdi_after_view:
  "mcdi_view (mcdi_after m tr sc) = mcdi_view sc"
  "mc_requests (mcdi_after m tr sc) = mc_requests sc @ concat (map request_of tr)"
  "mcdi_initialized (mcdi_after m tr sc) = mcdi_initialized sc"
  by (simp_all add: mcdi_view_def mcdi_after_def mc_requests_def)

lemma exec_channel:
  assumes "mcdi_initialized sc" "mcdi_fits cmd (length inp)" "mcdi_fits cmd (length out)"
  shows "\<exists>rc out' used sc'. sfc7120_mcdi_exec env cmd inp out sc = Some (rc, out', used, sc') \<and>
    length out' = length out \<and> mcdi_initialized sc' \<and> mcdi_view sc' = mcdi_view sc \<and>
    mc_requests sc' = mc_requests sc @ [(cmd, inp)]"
proof -
  from exec_spec [OF assms, of env] obtain r m tr where
    ex: "sfc7120_mcdi_exec env cmd inp out sc =
       (if r then (case mcdi_outcome cmd (mcdi_seq sc AND 0x0f) out m of (rc, out', used) \<Rightarrow>
                     Some (rc, out', used, mcdi_after m tr sc))
        else Some (ETIMEDOUT, out, None, mcdi_after m tr sc))"
    and req: "filter is_request tr = [McRequest cmd inp]"
    by metis
  obtain rc out' used where o: "mcdi_outcome cmd (mcdi_seq sc AND 0x0f) out m = (rc, out', used)"
    by (cases "mcdi_outcome cmd (mcdi_seq sc AND 0x0f) out m") auto
  have "concat (map request_of tr) = [(cmd, inp)]"
    unfolding requests_of_filter [of tr] req by (simp add: request_of_def)
  with ex o length_mcdi_outcome [OF o] assms(1) show ?thesis
    by (cases r) (simp_all add: mcdi_after_view)
qed

lemma exec_cases:
  assumes "mcdi_fits cmd (length inp)" "mcdi_fits cmd (length out)"
  obtains (closed) "\<not> mcdi_initialized sc" "sfc7120_mcdi_exec env cmd inp out sc = Some (ENXIO, out, None, sc)"
  | (sent) rc out' used m tr where "mcdi_initialized sc"
      "sfc7120_mcdi_exec env cmd inp out sc = Some (rc, out', used, mcdi_after m tr sc)"
      "length out' = length out" "\<forall>e \<in> set tr. mc_event e" "concat (map request_of tr) = [(cmd, inp)]"
proof (cases "mcdi_initialized sc")
  case False
  with closed show thesis by (simp add: sfc7120_mcdi_exec_def)
next
  case True
  from exec_spec [OF True assms, of env] obtain r m tr where
    ex: "sfc7120_mcdi_exec env cmd inp out sc =
       (if r then (case mcdi_outcome cmd (mcdi_seq sc AND 0x0f) out m of (rc, out', used) \<Rightarrow>
                     Some (rc, out', used, mcdi_after m tr sc))
        else Some (ETIMEDOUT, out, None, mcdi_after m tr sc))"
    and req: "filter is_request tr = [McRequest cmd inp]" "\<forall>e \<in> set tr. mc_event e"
    by metis
  obtain rc out' used where o: "mcdi_outcome cmd (mcdi_seq sc AND 0x0f) out m = (rc, out', used)"
    by (cases "mcdi_outcome cmd (mcdi_seq sc AND 0x0f) out m") auto
  have "concat (map request_of tr) = [(cmd, inp)]"
    unfolding requests_of_filter [of tr] req(1) by (simp add: request_of_def)
  with ex o length_mcdi_outcome [OF o] True req(2) sent show thesis by (cases r) auto
qed

interpretation mc: command_channel "sfc7120_mcdi_exec env" mcdi_initialized mcdi_fits mcdi_view
  mc_requests for env
proof
  show "sfc7120_mcdi_exec env cmd inp out sc = Some (ENXIO, out, None, sc)"
    if "\<not> mcdi_initialized sc" for cmd inp out and sc :: "'b mcdi_sc_scheme"
    using that by (simp add: sfc7120_mcdi_exec_def)
qed (rule exec_channel)

section \<open>Properties of the transport\<close>

lemma word_hi_lo: "push_bit 32 (ucast (ucast (drop_bit 32 p) :: u32)) OR
    ucast (ucast (p AND 0xffffffff) :: u32) = (p :: u64)"
proof -
  have m: "(0xffffffff :: u64) = mask 32" by (simp add: mask_eq_exp_minus_1)
  show ?thesis unfolding m by (rule bit_word_eqI) (auto simp: bit_simps)
qed

text \<open>
  C32: Framing is faithful. For every opcode below 0x8000 and every payload that fits, sending leaves
  in the mailbox a request that the MC decodes to exactly that opcode, length and payload, in the
  short format below opcode 0x7f and in the extended one from there on; the header carries the
  sequence number, says whether this is a new epoch, and has its response bit clear, so an answer
  left over from an earlier command cannot be taken for this one's. The doorbell pair is written
  after that, high half first, and carries the mailbox address.
\<close>

theorem mcdi_send_decodes:
  assumes "mcdi_fits cmd (length inp)" "cmd < 0x8000"
  shows "\<exists>sc' hi lo. sfc7120_mcdi_send_locked cmd inp seq sc = Some (mcdi_payload_off cmd, sc') \<and>
    mc_decode (mcdi_buf sc') = (cmd, length inp, inp) \<and>
    drop_bit 16 (get32 0 (mcdi_buf sc')) AND 0x0f = ucast seq AND 0x0f \<and>
    (bit (get32 0 (mcdi_buf sc')) 21 \<longleftrightarrow> \<not> mcdi_new_epoch sc) \<and>
    \<not> resp_bit (get32 0 (mcdi_buf sc')) \<and>
    trace sc' = trace sc @ [RegWr EF10_REG_MC_DB_LWRD hi, RegWr EF10_REG_MC_DB_HWRD lo, McRequest cmd inp] \<and>
    push_bit 32 (ucast hi) OR ucast lo = mcdi_buf_paddr sc"
proof -
  obtain m where send: "sfc7120_mcdi_send_locked cmd inp seq sc =
      Some (mcdi_payload_off cmd,
        sc\<lparr>mcdi_buf := m,
           trace := trace sc @ [RegWr EF10_REG_MC_DB_LWRD (ucast (drop_bit 32 (mcdi_buf_paddr sc))),
             RegWr EF10_REG_MC_DB_HWRD (ucast (mcdi_buf_paddr sc AND 0xffffffff)), McRequest cmd inp]\<rparr>)"
    and h: "get32 0 m = (if cmd \<ge> MC_CMD_V2_EXTN then mcdi_v1_hdr MC_CMD_V2_EXTN 0 seq (mcdi_new_epoch sc)
      else mcdi_v1_hdr cmd (of_nat (length inp)) seq (mcdi_new_epoch sc))"
    and x: "cmd \<ge> MC_CMD_V2_EXTN \<Longrightarrow> get32 4 m = mcdi_v2_hdr cmd (of_nat (length inp))"
    and d: "bytes_at m (mcdi_payload_off cmd) (length inp) = inp"
    using send_locked_ok [OF assms(1)] by blast
  have n: "length inp \<le> 252" using assms(1) by (rule mcdi_fits_252)
  then have len: "unat ((of_nat (length inp) :: u32) AND 0x3ff) = length inp"
      "unat ((of_nat (length inp) :: u32) AND 0xff) = length inp"
    unfolding u32_masks by (simp_all add: u32_and_mask_small unat_of_nat take_bit_nat_eq_self)
  have dec: "mc_decode m = (cmd, length inp, inp)"
  proof (cases "cmd \<ge> MC_CMD_V2_EXTN")
    case True
    have "cmd AND 0x7fff = cmd"
      using assms(2) and_mask_small [of cmd 15] unfolding u32_masks(4)
      by (simp add: word_less_nat_alt)
    with True x h d len(1) show ?thesis
      by (simp add: mc_decode_def Let_def v1_hdr_fields v2_hdr_fields mcdi_payload_off_def)
  next
    case False
    then have "unat cmd < 2 ^ 7" by (simp add: word_le_nat_alt)
    then have "cmd AND 0x7f = cmd" unfolding u32_masks(1) by (rule and_mask_small)
    with False h d len(2) show ?thesis
      by (auto simp: mc_decode_def Let_def v1_hdr_fields mcdi_payload_off_def)
  qed
  show ?thesis
    using send dec by (simp add: h v1_hdr_fields bit_v1_hdr resp_bit_iff word_hi_lo)
qed

definition example_mcdi :: mcdi_sc where
  "example_mcdi = \<lparr>trace = [], mcdi_buf = (\<lambda>_. 0), mcdi_buf_va = 0x1000,
     mcdi_buf_paddr = 0x80000100, mcdi_dtag = True, mcdi_seq = 5, mcdi_new_epoch = True,
     mcdi_initialized = True, mcdi_prev_reboot_status = 0\<rparr>"

theorem mcdi_send_decodes_witness:
  "\<exists>sc'. sfc7120_mcdi_send_locked 0x8b [1, 0, 0, 0, 2, 0, 0, 0] 5 example_mcdi = Some (8, sc') \<and>
     mc_decode (mcdi_buf sc') = (0x8b, 8, [1, 0, 0, 0, 2, 0, 0, 0])"
proof -
  have "mcdi_fits 0x8b (length [1, 0, 0, 0, 2, 0, 0, 0 :: u8])" "mcdi_payload_off 0x8b = 8"
    by (simp_all add: mcdi_fits_def mcdi_payload_off_def MCDI_BUF_LEN_def pad4_def)
  with mcdi_send_decodes [where cmd = "0x8b" and inp = "[1, 0, 0, 0, 2, 0, 0, 0]" and seq = 5
      and sc = example_mcdi]
  show ?thesis by auto
qed

text \<open>
  C33: Every command returns. Whatever the MC writes to the mailbox and whenever it does, executing a
  command that fits on an initialised channel terminates without a fault after at most 115 looks at
  the mailbox, delivers the request to the MC exactly once, advances the sequence number modulo 16,
  and changes nothing else of the driver's state. The result is ETIMEDOUT with the caller's buffer
  untouched, or the outcome encoded in a mailbox whose response bit is set.
\<close>

theorem mcdi_exec_returns:
  assumes "mcdi_initialized sc" "mcdi_fits cmd (length inp)" "mcdi_fits cmd (length out)"
  shows "\<exists>rc out' used sc' tr. sfc7120_mcdi_exec env cmd inp out sc = Some (rc, out', used, sc') \<and>
    trace sc' = trace sc @ tr \<and> length (filter (\<lambda>e. e = McPoll) tr) \<le> 115 \<and>
    filter is_request tr = [McRequest cmd inp] \<and>
    mcdi_seq sc' = (mcdi_seq sc + 1) AND 0x0f \<and> \<not> mcdi_new_epoch sc' \<and>
    mcdi_view sc' = mcdi_view sc \<and>
    (rc = ETIMEDOUT \<and> out' = out \<or>
     resp_bit (get32 0 (mcdi_buf sc')) \<and>
     (rc, out', used) = mcdi_outcome cmd (mcdi_seq sc AND 0x0f) out (mcdi_buf sc'))"
proof -
  from exec_spec [OF assms, of env] obtain r m tr where
    ex: "sfc7120_mcdi_exec env cmd inp out sc =
       (if r then (case mcdi_outcome cmd (mcdi_seq sc AND 0x0f) out m of (rc, out', used) \<Rightarrow>
                     Some (rc, out', used, mcdi_after m tr sc))
        else Some (ETIMEDOUT, out, None, mcdi_after m tr sc))"
    and tr: "r \<Longrightarrow> resp_bit (get32 0 m)" "filter is_request tr = [McRequest cmd inp]"
      "length (filter (\<lambda>e. e = McPoll) tr) \<le> 115"
    by metis
  obtain rc out' used where o: "mcdi_outcome cmd (mcdi_seq sc AND 0x0f) out m = (rc, out', used)"
    by (cases "mcdi_outcome cmd (mcdi_seq sc AND 0x0f) out m") auto
  have after: "trace (mcdi_after m tr sc) = trace sc @ tr" "mcdi_buf (mcdi_after m tr sc) = m"
      "mcdi_seq (mcdi_after m tr sc) = (mcdi_seq sc + 1) AND 0x0f" "\<not> mcdi_new_epoch (mcdi_after m tr sc)"
    by (simp_all add: mcdi_after_def)
  show ?thesis
    using ex o tr after mcdi_after_view(1) [of m tr sc] by (cases r) auto
qed

definition silent_mc :: env where
  "silent_mc = \<lparr>e_mc_poll = (\<lambda>_ m. m), e_reg_rd = (\<lambda>_ _. 0), e_pci_rd = (\<lambda>_. 0),
     e_dma_tag = (\<lambda>_. OK), e_dma_mem = (\<lambda>_. Inr 0x1000), e_dma_load = (\<lambda>_. (OK, 0x80000100)),
     e_tunable = (\<lambda>_. None)\<rparr>"

theorem mcdi_exec_returns_witness:
  "\<exists>rc out' used sc'. sfc7120_mcdi_exec silent_mc 0x08 [] (replicate 32 0) example_mcdi =
      Some (rc, out', used, sc') \<and> mcdi_seq sc' = 6"
proof -
  have "mcdi_initialized example_mcdi" "mcdi_fits 0x08 (length ([] :: u8 list))"
      "mcdi_fits 0x08 (length (replicate 32 (0 :: u8)))"
    by (simp_all add: example_mcdi_def mcdi_fits_def mcdi_payload_off_def MCDI_BUF_LEN_def pad4_def)
  from mcdi_exec_returns [OF this, of silent_mc] show ?thesis
    by (auto simp: example_mcdi_def)
qed

text \<open>
  C34: A success carries the sequence number of the request. If executing a command whose buffers fit
  the mailbox returns 0, the mailbox holds a message with the response bit set whose 4-bit sequence
  number is the one just sent. The code does not compare the command code, so nothing is said of it.
\<close>

theorem mcdi_success_matches_request:
  assumes "mcdi_initialized sc" "mcdi_fits cmd (length inp)" "mcdi_fits cmd (length out)"
    and "sfc7120_mcdi_exec env cmd inp out sc = Some (rc, out', used, sc')" "rc = OK"
  shows "resp_bit (get32 0 (mcdi_buf sc')) \<and>
    ucast (drop_bit 16 (get32 0 (mcdi_buf sc')) AND 0x0f) = mcdi_seq sc AND 0x0f"
proof -
  from exec_spec [OF assms(1-3), of env] obtain r m tr where
    ex: "sfc7120_mcdi_exec env cmd inp out sc =
       (if r then (case mcdi_outcome cmd (mcdi_seq sc AND 0x0f) out m of (rc, out', used) \<Rightarrow>
                     Some (rc, out', used, mcdi_after m tr sc))
        else Some (ETIMEDOUT, out, None, mcdi_after m tr sc))"
    and r: "r \<Longrightarrow> resp_bit (get32 0 m)"
    by metis
  have "r" "sc' = mcdi_after m tr sc" "mcdi_outcome cmd (mcdi_seq sc AND 0x0f) out m = (OK, out', used)"
    using ex assms(4,5) by (auto split: if_splits prod.splits)
  then show ?thesis
    using r by (auto simp: mcdi_outcome_def mcdi_after_def Let_def split: if_splits)
qed

text \<open>An MC that acknowledges every request at the first look: it sets the response bit.\<close>

definition echo_mc :: env where
  "echo_mc = silent_mc\<lparr>e_mc_poll := (\<lambda>_ m. m(2 := m 2 OR 0x80))\<rparr>"

lemma echo_exec:
  "\<exists>out' used sc'. sfc7120_mcdi_exec echo_mc 0x08 [] [] example_mcdi = Some (OK, out', used, sc')"
proof -
  let ?m = "put32 0 (mcdi_v1_hdr 8 0 5 True) (\<lambda>_. 0)"
  have b: "get32 0 (?m(2 := ?m 2 OR 0x80)) = 0x850008"
    by (simp add: mcdi_v1_hdr_def byte_of_def get32_def put32_def le32_def)
  show ?thesis
    by (simp add: sfc7120_mcdi_exec_def sfc7120_mcdi_send_locked_def Let_def example_mcdi_def
        mcdi_buf_write_dword_def MCDI_BUF_LEN_def SFC7120_WRITE_REG_def io_def mcdi_poll_loop.simps
        poll_response_eq echo_mc_def mcdi_read_response_def mcdi_buf_read_dword_def b
        resp_bit_def err_bit_def)
qed

theorem mcdi_success_matches_request_witness:
  "\<exists>out' used sc'. sfc7120_mcdi_exec echo_mc 0x08 [] [] example_mcdi = Some (OK, out', used, sc') \<and>
     resp_bit (get32 0 (mcdi_buf sc')) \<and>
     ucast (drop_bit 16 (get32 0 (mcdi_buf sc')) AND 0x0f) = (5 :: u8)"
proof -
  have fit: "mcdi_initialized example_mcdi" "mcdi_fits 0x08 (length ([] :: u8 list))"
      "mcdi_seq example_mcdi AND 0x0f = 5"
    by (simp_all add: example_mcdi_def mcdi_fits_def mcdi_payload_off_def MCDI_BUF_LEN_def)
  obtain out' used sc' where "sfc7120_mcdi_exec echo_mc 0x08 [] [] example_mcdi = Some (OK, out', used, sc')"
    using echo_exec by blast
  with mcdi_success_matches_request [OF fit(1,2,2) this refl] fit(3) show ?thesis by auto
qed

text \<open>
  An error without a code is reported as success. When the MC answers with the error bit set
  and fewer than four payload bytes, the error code is taken to be 0 and the command returns 0, with
  the caller's output buffer left as it was.
\<close>

theorem mcdi_error_without_code_succeeds:
  assumes "ucast (drop_bit 16 (get32 0 m) AND 0x0f) = seq" "err_bit (get32 0 m)"
    and "unat (drop_bit 8 (get32 0 m) AND 0xff) < 4"
  shows "mcdi_read_response MCDI_HEADER_LEN seq out m = Some (OK, out, None)"
  using assms
  by (simp add: mcdi_read_response_def mcdi_buf_read_dword_def MCDI_BUF_LEN_def
      sfc7120_mcdi_xlate_err.simps)

theorem mcdi_error_without_code_succeeds_witness:
  "mcdi_read_response MCDI_HEADER_LEN 5 [7, 7] (put32 0 0xc50008 (\<lambda>_. 0)) = Some (OK, [7, 7], None)"
  using mcdi_error_without_code_succeeds [of "put32 0 0xc50008 (\<lambda>_. 0)" 5 "[7, 7]"]
  by (simp add: err_bit_def)

text \<open>
  C37: The length checks of \<open>sfc7120_mcdi_exec\<close> do not cover the extended header. For an opcode
  from 0x7f on, a request of 249 to 252 bytes passes them, but its last dword lies beyond the
  256-byte mailbox: the write faults.
\<close>

theorem mcdi_v2_overrun_faults:
  assumes "mcdi_initialized sc" "cmd \<ge> MC_CMD_V2_EXTN" "248 < length inp" "length inp \<le> 252"
    and "length out \<le> 252"
  shows "sfc7120_mcdi_exec env cmd inp out sc = None"
proof -
  have "252 \<le> pad4 (length inp)" using assms(3) by (simp add: pad4_def)
  then have "mcdi_buf_write_payload 8 inp m = None" for m
    using write_payload_none [of 8 inp] by (simp add: MCDI_BUF_LEN_def)
  moreover have "\<not> 252 < length inp" "0 < length inp" using assms(3,4) by auto
  ultimately show ?thesis using assms(1,2,5)
    by (simp add: sfc7120_mcdi_exec_def sfc7120_mcdi_send_locked_def Let_def mcdi_buf_write_dword_def
        MCDI_BUF_LEN_def)
qed

theorem mcdi_v2_overrun_faults_witness:
  "sfc7120_mcdi_exec silent_mc 0x80 (replicate 250 0) [] example_mcdi = None"
  by (rule mcdi_v2_overrun_faults) (simp_all only: length_replicate example_mcdi_def, simp_all)

section \<open>Initialisation and release\<close>

text \<open>
  Documented behaviour of \<open>bus_dma\<close> that the allocation relies on: memory is not at address 0,
  a failed load reports no address, and a load honours the 256-byte alignment of the tag.
\<close>

definition bus_dma_documented :: "'e env_scheme \<Rightarrow> bool" where
  "bus_dma_documented env \<longleftrightarrow>
     (\<forall>tr. e_dma_mem env tr \<noteq> Inr 0) \<and> (\<forall>tr. e_dma_mem env tr \<noteq> Inl OK) \<and>
     (\<forall>tr. fst (e_dma_load env tr) \<noteq> OK \<longrightarrow> snd (e_dma_load env tr) = 0) \<and>
     (\<forall>tr. snd (e_dma_load env tr) AND 0xff = 0)"

definition mcdi_res_clear :: "'a mcdi_sc_scheme \<Rightarrow> bool" where
  "mcdi_res_clear sc \<longleftrightarrow> \<not> mcdi_dtag sc \<and> mcdi_buf_va sc = 0 \<and> mcdi_buf_paddr sc = 0"

definition mcdi_res_held :: "'a mcdi_sc_scheme \<Rightarrow> bool" where
  "mcdi_res_held sc \<longleftrightarrow> mcdi_dtag sc \<and> mcdi_buf_va sc \<noteq> 0 \<and> mcdi_buf_paddr sc \<noteq> 0 \<and>
     mcdi_buf_paddr sc AND 0xff = 0"

definition mcdi_res_ok :: "'a mcdi_sc_scheme \<Rightarrow> bool" where
  "mcdi_res_ok sc \<longleftrightarrow> (if mcdi_initialized sc then mcdi_res_held sc else mcdi_res_clear sc)"

lemma alloc_buf_spec:
  assumes "bus_dma_documented env" "mcdi_res_clear sc"
  shows "\<exists>e sc'. sfc7120_mcdi_alloc_buf env sc = Some (e, sc') \<and>
    mcdi_initialized sc' = mcdi_initialized sc \<and> mcdi_sc.more sc' = mcdi_sc.more sc \<and>
    (if e = OK then mcdi_res_held sc' else mcdi_res_clear sc')"
proof (cases "e_dma_tag env (trace sc) = OK")
  case False
  with assms(2) show ?thesis
    by (simp add: sfc7120_mcdi_alloc_buf_def Let_def io_def mcdi_res_clear_def)
next
  case tag: True
  let ?tr1 = "trace sc @ [DmaTagCreate MCDI_BUF_LEN]"
  let ?tr2 = "?tr1 @ [DmaMemAlloc MCDI_BUF_LEN]"
  show ?thesis
  proof (cases "e_dma_mem env ?tr1")
    case (Inl e)
    moreover from Inl assms(1) have "e \<noteq> OK" unfolding bus_dma_documented_def by metis
    ultimately show ?thesis using tag assms(2)
      by (simp add: sfc7120_mcdi_alloc_buf_def Let_def io_def mcdi_res_clear_def)
  next
    case (Inr va)
    moreover from Inr assms(1) have "va \<noteq> 0" unfolding bus_dma_documented_def by metis
    moreover obtain e pa where l: "e_dma_load env ?tr2 = (e, pa)" by fastforce
    moreover from l assms(1) have "e \<noteq> OK \<Longrightarrow> pa = 0" "pa AND 0xff = 0"
      unfolding bus_dma_documented_def by (metis fst_conv snd_conv)+
    ultimately show ?thesis using tag assms(2)
      by (cases "e = OK"; cases "pa = 0")
        (simp_all add: sfc7120_mcdi_alloc_buf_def Let_def io_def mcdi_res_clear_def mcdi_res_held_def)
  qed
qed

lemma free_buf_clear:
  "mcdi_res_clear (sfc7120_mcdi_free_buf sc)"
  "mcdi_initialized (sfc7120_mcdi_free_buf sc) = mcdi_initialized sc"
  "mcdi_sc.more (sfc7120_mcdi_free_buf sc) = mcdi_sc.more sc"
  by (simp_all add: sfc7120_mcdi_free_buf_def mcdi_res_clear_def io_def Let_def)

lemma mcdi_init_spec:
  assumes "bus_dma_documented env" "\<not> mcdi_initialized sc" "mcdi_res_clear sc"
  shows "\<exists>e sc'. sfc7120_mcdi_init env sc = Some (e, sc') \<and> mcdi_res_ok sc' \<and>
    mcdi_initialized sc' = (e = OK) \<and> mcdi_sc.more sc' = mcdi_sc.more sc \<and>
    (e = OK \<longrightarrow> mcdi_seq sc' = 0 \<and> mcdi_new_epoch sc')"
proof -
  obtain e sc1 where a: "sfc7120_mcdi_alloc_buf env sc = Some (e, sc1)"
    "mcdi_initialized sc1 = mcdi_initialized sc" "mcdi_sc.more sc1 = mcdi_sc.more sc"
    "if e = OK then mcdi_res_held sc1 else mcdi_res_clear sc1"
    using alloc_buf_spec [OF assms(1,3)] by blast
  show ?thesis
  proof (cases "e = OK")
    case False
    with a assms(2) show ?thesis by (simp add: sfc7120_mcdi_init_def mcdi_res_ok_def)
  next
    case True
    then show ?thesis
      using a assms(2)
      by (auto simp: sfc7120_mcdi_init_def Let_def SFC7120_READ_REG_def SFC7120_WRITE_REG_def
          mcdi_res_ok_def free_buf_clear io_def mcdi_res_held_def)
  qed
qed

text \<open>
  The mailbox is owned exactly while the channel is initialised. With \<open>bus_dma\<close> behaving as
  documented, \<open>sfc7120_mcdi_init\<close> on a released channel never faults; on success the channel holds
  a 256-byte aligned mailbox, starts with sequence number 0 and a new epoch, and
  \<open>sfc7120_mcdi_fini\<close> releases all of it again; on every failure nothing stays allocated.
  \<open>sfc7120_mcdi_fini\<close> may be called any number of times.
\<close>

theorem mcdi_init_fini_balanced:
  assumes "bus_dma_documented env" "\<not> mcdi_initialized sc" "mcdi_res_clear sc"
  shows "\<exists>e sc'. sfc7120_mcdi_init env sc = Some (e, sc') \<and>
    (if e = OK then mcdi_initialized sc' \<and> mcdi_res_held sc' \<and> mcdi_seq sc' = 0 \<and> mcdi_new_epoch sc' \<and>
        mcdi_res_clear (sfc7120_mcdi_fini sc') \<and> \<not> mcdi_initialized (sfc7120_mcdi_fini sc') \<and>
        sfc7120_mcdi_fini (sfc7120_mcdi_fini sc') = sfc7120_mcdi_fini sc'
     else \<not> mcdi_initialized sc' \<and> mcdi_res_clear sc' \<and> sfc7120_mcdi_fini sc' = sc')"
proof -
  obtain e sc' where "sfc7120_mcdi_init env sc = Some (e, sc')" "mcdi_res_ok sc'"
      "mcdi_initialized sc' = (e = OK)" "e = OK \<longrightarrow> mcdi_seq sc' = 0 \<and> mcdi_new_epoch sc'"
    using mcdi_init_spec [OF assms] by blast
  then show ?thesis
    using free_buf_clear(1) [of sc'] by (auto simp: mcdi_res_ok_def sfc7120_mcdi_fini_def mcdi_res_clear_def)
qed

definition example_mcdi_off :: mcdi_sc where
  "example_mcdi_off = example_mcdi\<lparr>mcdi_buf_va := 0, mcdi_buf_paddr := 0, mcdi_dtag := False,
     mcdi_initialized := False\<rparr>"

definition live_mc :: env where
  "live_mc = echo_mc\<lparr>e_reg_rd := (\<lambda>_ off. if off = EF10_REG_BIU_HW_REV_ID
     then EF10_REG_BIU_HW_REV_ID_RESET else 0), e_pci_rd := (\<lambda>_. 0x7)\<rparr>"

lemma live_mc_documented: "bus_dma_documented live_mc"
  by (simp add: bus_dma_documented_def live_mc_def echo_mc_def silent_mc_def)

theorem mcdi_init_fini_balanced_witness:
  "\<exists>sc'. sfc7120_mcdi_init live_mc example_mcdi_off = Some (OK, sc') \<and> mcdi_res_held sc' \<and>
     mcdi_res_clear (sfc7120_mcdi_fini sc')"
proof -
  have off: "\<not> mcdi_initialized example_mcdi_off" "mcdi_res_clear example_mcdi_off"
    by (simp_all add: example_mcdi_off_def mcdi_res_clear_def)
  have "\<exists>sc'. sfc7120_mcdi_init live_mc example_mcdi_off = Some (OK, sc')"
    by (simp add: sfc7120_mcdi_init_def sfc7120_mcdi_alloc_buf_def Let_def live_mc_def echo_mc_def
        silent_mc_def example_mcdi_off_def SFC7120_READ_REG_def io_def)
  with mcdi_init_fini_balanced [OF live_mc_documented off] show ?thesis by auto
qed

end
