(* ===== verification/McdiCmds.thy ===== *)
theory McdiCmds
  imports Mcdi
begin

text \<open>
  The MC_CMD wrappers (second half of \<^verbatim>\<open>sfc7120_mcdi.c\<close>): one definition per function, with
  the request payload built field by field as the source does and the softc fields updated on the
  branches where the source updates them. A wrapper returns the errno and the new state; every
  read and write of a request or response buffer is checked, and \<open>None\<close> is an access outside
  the buffer or a failed KASSERT. The lemmas show that no wrapper faults, what each one sends, and that
  the \<open>*_initialized\<close>/\<open>*_allocated\<close> flags follow the MC's answers.
\<close>

section \<open>State\<close>

record hw_sc = mcdi_sc +
  mac_addr :: "u8 list"
  evq_read_ptr :: u32
  mcdi_func_flags :: u32
  vi_base :: u32
  vi_count :: u32
  mcdi_cap_flags1 :: u32
  mcdi_caps_valid :: bool
  fw_version :: "u32 \<times> u32"
  drv_attached :: bool
  vis_allocated :: bool
  evq_initialized :: bool
  data_evq_initialized :: bool
  vadaptor_allocated :: bool
  rxq_initialized :: bool
  txq_initialized :: bool
  phy_supported_cap_mask :: u32
  phy_adv_cap_mask :: u32
  phy_media_type :: u32
  link_up :: bool
  full_duplex :: bool
  link_speed_mbps :: u32
  link_fcntl :: u32
  mac_configured :: bool
  link_configured :: bool
  rx_filter_handle :: u64
  rx_filter_bcast_handle :: u64
  rx_filter_inserted :: bool
  stats_dma :: dmabuf

text \<open>\<open>*out_used\<close> of a caller that initialised it to 0.\<close>

definition used0 :: "nat option \<Rightarrow> nat" where
  "used0 u = (case u of None \<Rightarrow> 0 | Some n \<Rightarrow> n)"

abbreviation (input) EVB_PORT_ID_ASSIGNED :: u32 where "EVB_PORT_ID_ASSIGNED \<equiv> 0x01000000"

text \<open>Accesses of the local request and response arrays, and \<open>memcpy\<close>; out of bounds is a fault.\<close>

definition ld32 :: "nat \<Rightarrow> u8 list \<Rightarrow> u32 option" where
  "ld32 off xs = (if off + 4 \<le> length xs then Some (rd32 off xs) else None)"

definition st32 :: "nat \<Rightarrow> u32 \<Rightarrow> u8 list \<Rightarrow> u8 list option" where
  "st32 off v xs = (if off + 4 \<le> length xs then Some (wr32 off v xs) else None)"

definition st64 :: "nat \<Rightarrow> u64 \<Rightarrow> u8 list \<Rightarrow> u8 list option" where
  "st64 off v xs = (if off + 8 \<le> length xs then Some (wr64 off v xs) else None)"

definition ld_bytes :: "nat \<Rightarrow> nat \<Rightarrow> u8 list \<Rightarrow> u8 list option" where
  "ld_bytes off n xs = (if off + n \<le> length xs then Some (take n (drop off xs)) else None)"

definition st_bytes :: "nat \<Rightarrow> nat \<Rightarrow> u8 list \<Rightarrow> u8 list \<Rightarrow> u8 list option" where
  "st_bytes off n src xs =
     (if n \<le> length src \<and> off + n \<le> length xs then Some (wr_bytes off (take n src) xs) else None)"

lemma in_bounds [simp]:
  "off + 4 \<le> length xs \<Longrightarrow> ld32 off xs = Some (rd32 off xs)"
  "off + 4 \<le> length xs \<Longrightarrow> st32 off v xs = Some (wr32 off v xs)"
  "off + 8 \<le> length xs \<Longrightarrow> st64 off w xs = Some (wr64 off w xs)"
  "off + n \<le> length xs \<Longrightarrow> ld_bytes off n xs = Some (take n (drop off xs))"
  "n \<le> length src \<Longrightarrow> off + n \<le> length xs \<Longrightarrow> st_bytes off n src xs = Some (wr_bytes off (take n src) xs)"
  by (simp_all add: ld32_def st32_def st64_def ld_bytes_def st_bytes_def)

type_synonym ('e, 'a) mc_cmd = "'e env_scheme \<Rightarrow> 'a hw_sc_scheme \<Rightarrow> (errno \<times> 'a hw_sc_scheme) option"

section \<open>Attaching to the MC\<close>

text \<open>
  The retry loop of GET_ASSERTS: \<open>n\<close> attempts are left after this one; \<open>resp\<close> is the local
  array the attempts share. Fields that are only logged are read, too.
\<close>

fun asserts_retry :: "'e env_scheme \<Rightarrow> nat \<Rightarrow> u8 list \<Rightarrow> 'a hw_sc_scheme \<Rightarrow>
    (errno \<times> u8 list \<times> nat option \<times> 'a hw_sc_scheme) option" where
  "asserts_retry env n resp sc =
     do { buf \<leftarrow> st32 0 1 (replicate 4 0);
          (rc, resp, used, sc) \<leftarrow> sfc7120_mcdi_exec env 0x06 buf resp sc;
          if rc \<noteq> EINTR \<and> rc \<noteq> EIO then Some (rc, resp, used, sc)
          else (case n of 0 \<Rightarrow> Some (rc, resp, used, sc) | Suc m \<Rightarrow> asserts_retry env m resp sc) }"

declare asserts_retry.simps [simp del]

definition sfc7120_mcdi_clear_assertions :: "('e, 'a) mc_cmd" where
  "sfc7120_mcdi_clear_assertions env sc =
     do { (rc, resp, used, sc) \<leftarrow> asserts_retry env 2 (replicate 140 0) sc;
          if rc = EACCES then Some (OK, sc)
          else if rc \<noteq> OK then Some (rc, sc)
          else if used0 used < 4 then Some (OK, sc)
          else do { _ \<leftarrow> ld32 0 resp; Some (OK, sc) } }"

definition sfc7120_mcdi_entity_reset :: "('e, 'a) mc_cmd" where
  "sfc7120_mcdi_entity_reset env sc =
     do { buf \<leftarrow> st32 0 0x1 (replicate 4 0);
          (rc, _, _, sc) \<leftarrow> sfc7120_mcdi_exec env 0x20 buf [] sc;
          if rc = EACCES then Some (OK, sc) else if rc \<noteq> OK then Some (rc, sc) else Some (OK, sc) }"

definition sfc7120_mcdi_log_mc_state :: "'e env_scheme \<Rightarrow> 'a hw_sc_scheme \<Rightarrow> 'a hw_sc_scheme" where
  "sfc7120_mcdi_log_mc_state env sc =
     snd (SFC7120_READ_REG env EF10_REG_BIU_MC_SFT_STATUS
       (snd (SFC7120_READ_REG env EF10_REG_BIU_HW_REV_ID sc)))"

definition sfc7120_mcdi_dump_func_info :: "('e, 'a) mc_cmd" where
  "sfc7120_mcdi_dump_func_info env sc =
     do { (rc, resp, used, sc) \<leftarrow> sfc7120_mcdi_exec env 0xb8 [] (replicate 4 0) sc;
          _ \<leftarrow> (if rc = OK \<and> used0 used \<ge> 4 then ld32 0 resp else Some 0xffffffff);
          (rc, resp, used, sc) \<leftarrow> sfc7120_mcdi_exec env 0xec [] (replicate 8 0) sc;
          _ \<leftarrow> (if rc = OK \<and> used0 used \<ge> 8 then do { _ \<leftarrow> ld32 0 resp; ld32 4 resp } else Some 0xffffffff);
          (rc, resp, used, sc) \<leftarrow> sfc7120_mcdi_exec env 0xbe [] (replicate 20 0) sc;
          if rc \<noteq> OK then Some (OK, sc)
          else if used0 used \<ge> 20
          then do { flags1 \<leftarrow> ld32 0 resp; _ \<leftarrow> ld_bytes 4 2 resp; _ \<leftarrow> ld_bytes 6 2 resp;
                    _ \<leftarrow> ld32 12 resp; _ \<leftarrow> ld32 16 resp;
                    Some (OK, sc\<lparr>mcdi_cap_flags1 := flags1, mcdi_caps_valid := True\<rparr>) }
          else Some (OK, sc) }"

text \<open>
  The wait for the BIU to come back; \<open>n\<close> iterations are left (5000 of 1000 us each), and
  \<open>hw_rev\<close> is the local variable, 0 before the first read.
\<close>

primrec reboot_wait :: "'e env_scheme \<Rightarrow> nat \<Rightarrow> u32 \<Rightarrow> 'a hw_sc_scheme \<Rightarrow> u32 \<times> 'a hw_sc_scheme" where
  "reboot_wait env 0 hw_rev sc = (hw_rev, sc)"
| "reboot_wait env (Suc n) hw_rev sc =
     (let (hw_rev, sc) = SFC7120_READ_REG env EF10_REG_BIU_HW_REV_ID sc in
      if hw_rev = EF10_REG_BIU_HW_REV_ID_RESET then (hw_rev, sc)
      else reboot_wait env n hw_rev (io [Delay 1000] sc))"

definition sfc7120_mcdi_reboot_after_assertion :: "('e, 'a) mc_cmd" where
  "sfc7120_mcdi_reboot_after_assertion env sc =
     do { buf \<leftarrow> st32 0 0x1 (replicate 4 0);
          (rc, _, _, sc) \<leftarrow> sfc7120_mcdi_exec env 0x3d buf [] sc;
          if rc = OK \<or> rc = EACCES then Some (OK, sc)
          else if rc \<noteq> ETIMEDOUT \<and> rc \<noteq> EIO then Some (rc, sc)
          else
            let (hw_rev, sc) = reboot_wait env 5000 0 sc in
            if hw_rev \<noteq> EF10_REG_BIU_HW_REV_ID_RESET then Some (EIO, sc)
            else Some (OK, SFC7120_WRITE_REG EF10_REG_MC_DB_HWRD 1
                             (sc\<lparr>mcdi_new_epoch := True, mcdi_seq := 0\<rparr>)) }"

definition sfc7120_mcdi_get_version :: "('e, 'a) mc_cmd" where
  "sfc7120_mcdi_get_version env sc =
     do { (rc, resp, used, sc) \<leftarrow> sfc7120_mcdi_exec env 0x08 [] (replicate 32 0) sc;
          if rc \<noteq> OK then Some (rc, sc)
          else if used0 used < 24 + 8 then Some (EPROTO, sc)
          else do { v0 \<leftarrow> ld32 24 resp; v1 \<leftarrow> ld32 28 resp; Some (OK, sc\<lparr>fw_version := (v0, v1)\<rparr>) } }"

definition sfc7120_mcdi_drv_attach :: "('e, 'a) mc_cmd" where
  "sfc7120_mcdi_drv_attach env sc =
     do { buf \<leftarrow> st32 0 0x1 (replicate 12 0); buf \<leftarrow> st32 4 0x1 buf; buf \<leftarrow> st32 8 0x1 buf;
          (rc, resp, used, sc) \<leftarrow> sfc7120_mcdi_exec env 0x1c buf (replicate 8 0) sc;
          if rc \<noteq> OK then Some (rc, sc)
          else
            let sc = sc\<lparr>mcdi_func_flags := 0\<rparr> in
            if used0 used \<ge> 8
            then do { f \<leftarrow> ld32 4 resp; Some (OK, sc\<lparr>mcdi_func_flags := f, drv_attached := True\<rparr>) }
            else if used0 used < 4 then Some (EPROTO, sc)
            else Some (OK, sc\<lparr>drv_attached := True\<rparr>) }"

definition sfc7120_mcdi_drv_detach :: "('e, 'a) mc_cmd" where
  "sfc7120_mcdi_drv_detach env sc =
     (if \<not> drv_attached sc then Some (OK, sc)
      else do { buf \<leftarrow> st32 0 0x0 (replicate 12 0); buf \<leftarrow> st32 4 0x1 buf; buf \<leftarrow> st32 8 0xffffffff buf;
                (rc, _, _, sc) \<leftarrow> sfc7120_mcdi_exec env 0x1c buf (replicate 8 0) sc;
                Some (rc, if rc = OK then sc\<lparr>drv_attached := False\<rparr> else sc) })"

section \<open>Queues\<close>

definition pow2 :: "nat \<Rightarrow> bool" where
  "pow2 n \<longleftrightarrow> n AND (n - 1) = 0"

definition sfc7120_mcdi_init_evq :: "'e env_scheme \<Rightarrow> u32 \<Rightarrow> u64 \<Rightarrow> nat \<Rightarrow> 'a hw_sc_scheme \<Rightarrow>
    (errno \<times> 'a hw_sc_scheme) option" where
  "sfc7120_mcdi_init_evq env inst paddr nevs sc =
     (if nevs < 512 \<or> nevs > 32768 \<or> \<not> pow2 nevs \<or> (nevs * 8) mod 4096 \<noteq> 0 then Some (EINVAL, sc)
      else if inst \<ge> vi_count sc then Some (EINVAL, sc)
      else if (nevs * SFC7120_EVQ_ENTRY_SIZE) div 4096 \<noteq> 1 then None
      else
        let interrupting = (inst = 0);
            flags = push_bit 3 1 OR push_bit 4 1 OR push_bit 5 1;
            flags = (if interrupting then flags OR push_bit 0 1 OR push_bit 4 1 OR push_bit 5 1 else flags) in
        do { buf \<leftarrow> st32 0 (of_nat nevs) (replicate 44 0); buf \<leftarrow> st32 4 inst buf; buf \<leftarrow> st32 16 flags buf;
             buf \<leftarrow> st32 24 (if interrupting then inst else 0) buf; buf \<leftarrow> st64 36 paddr buf;
             (rc, _, _, sc) \<leftarrow> sfc7120_mcdi_exec env 0x80 buf (replicate 4 0) sc;
             if rc \<noteq> OK then Some (rc, sc)
             else Some (OK, sc\<lparr>evq_read_ptr := 0, evq_initialized := True\<rparr>) })"

definition sfc7120_mcdi_init_rxq :: "'e env_scheme \<Rightarrow> u32 \<Rightarrow> u32 \<Rightarrow> u64 \<Rightarrow> nat \<Rightarrow> 'a hw_sc_scheme \<Rightarrow>
    (errno \<times> 'a hw_sc_scheme) option" where
  "sfc7120_mcdi_init_rxq env inst target_evq ring_paddr ndescs sc =
     (if ndescs < 512 \<or> ndescs > 4096 \<or> \<not> pow2 ndescs \<or> (ndescs * 8) mod 4096 \<noteq> 0 then Some (EINVAL, sc)
      else if \<not> vadaptor_allocated sc then Some (EINVAL, sc)
      else if inst \<ge> vi_count sc then Some (EINVAL, sc)
      else if target_evq \<ge> vi_count sc then Some (EINVAL, sc)
      else if (ndescs * 8) div 4096 \<noteq> 1 then None
      else
        let flags = push_bit 8 1 OR push_bit 9 1 in
        do { buf \<leftarrow> st32 0 (of_nat ndescs) (replicate 36 0); buf \<leftarrow> st32 4 target_evq buf;
             buf \<leftarrow> st32 12 inst buf; buf \<leftarrow> st32 16 flags buf; buf \<leftarrow> st32 24 EVB_PORT_ID_ASSIGNED buf;
             buf \<leftarrow> st64 28 ring_paddr buf;
             (rc, _, _, sc) \<leftarrow> sfc7120_mcdi_exec env 0x81 buf [] sc;
             if rc \<noteq> OK then Some (rc, sc) else Some (OK, sc\<lparr>rxq_initialized := True\<rparr>) })"

definition sfc7120_mcdi_init_txq :: "'e env_scheme \<Rightarrow> u32 \<Rightarrow> u32 \<Rightarrow> u64 \<Rightarrow> nat \<Rightarrow> 'a hw_sc_scheme \<Rightarrow>
    (errno \<times> 'a hw_sc_scheme) option" where
  "sfc7120_mcdi_init_txq env inst target_evq ring_paddr ndescs sc =
     (if ndescs < 512 \<or> ndescs > 4096 \<or> \<not> pow2 ndescs \<or> (ndescs * 8) mod 4096 \<noteq> 0 then Some (EINVAL, sc)
      else if \<not> vadaptor_allocated sc then Some (EINVAL, sc)
      else if inst \<ge> vi_count sc then Some (EINVAL, sc)
      else if target_evq \<ge> vi_count sc then Some (EINVAL, sc)
      else if (ndescs * 8) div 4096 \<noteq> 1 then None
      else
        let tx_csum = tunable env ''hw.sfc7120pol.tx_csum'' 1;
            flags = (if tx_csum = 0 then push_bit 1 1 OR push_bit 2 1 else 0) in
        do { buf \<leftarrow> st32 0 (of_nat ndescs) (replicate 36 0); buf \<leftarrow> st32 4 target_evq buf;
             buf \<leftarrow> st32 12 inst buf; buf \<leftarrow> st32 16 flags buf; buf \<leftarrow> st32 24 EVB_PORT_ID_ASSIGNED buf;
             buf \<leftarrow> st64 28 ring_paddr buf;
             (rc, _, _, sc) \<leftarrow> sfc7120_mcdi_exec env 0x82 buf [] sc;
             if rc \<noteq> OK then Some (rc, sc) else Some (OK, sc\<lparr>txq_initialized := True\<rparr>) })"

definition sfc7120_mcdi_fini_evq :: "'e env_scheme \<Rightarrow> u32 \<Rightarrow> 'a hw_sc_scheme \<Rightarrow>
    (errno \<times> 'a hw_sc_scheme) option" where
  "sfc7120_mcdi_fini_evq env inst sc =
     (if \<not> (if inst = 0 then evq_initialized sc else data_evq_initialized sc) then Some (OK, sc)
      else do { buf \<leftarrow> st32 0 inst (replicate 4 0);
                (rc, _, _, sc) \<leftarrow> sfc7120_mcdi_exec env 0x83 buf [] sc;
                if rc = EBUSY then Some (rc, sc)
                else Some (rc, if inst = 0 then sc\<lparr>evq_initialized := False\<rparr>
                               else sc\<lparr>data_evq_initialized := False\<rparr>) })"

definition sfc7120_mcdi_fini_rxq :: "'e env_scheme \<Rightarrow> u32 \<Rightarrow> 'a hw_sc_scheme \<Rightarrow>
    (errno \<times> 'a hw_sc_scheme) option" where
  "sfc7120_mcdi_fini_rxq env inst sc =
     (if \<not> rxq_initialized sc then Some (OK, sc)
      else do { buf \<leftarrow> st32 0 inst (replicate 4 0);
                (rc, _, _, sc) \<leftarrow> sfc7120_mcdi_exec env 0x84 buf [] sc;
                Some (rc, sc\<lparr>rxq_initialized := False\<rparr>) })"

definition sfc7120_mcdi_fini_txq :: "'e env_scheme \<Rightarrow> u32 \<Rightarrow> 'a hw_sc_scheme \<Rightarrow>
    (errno \<times> 'a hw_sc_scheme) option" where
  "sfc7120_mcdi_fini_txq env inst sc =
     (if \<not> txq_initialized sc then Some (OK, sc)
      else do { buf \<leftarrow> st32 0 inst (replicate 4 0);
                (rc, _, _, sc) \<leftarrow> sfc7120_mcdi_exec env 0x85 buf [] sc;
                Some (rc, sc\<lparr>txq_initialized := False\<rparr>) })"

definition sfc7120_mcdi_vadaptor_alloc :: "('e, 'a) mc_cmd" where
  "sfc7120_mcdi_vadaptor_alloc env sc =
     (if vadaptor_allocated sc then Some (OK, sc)
      else
        let flags = (if mcdi_caps_valid sc \<and> mcdi_cap_flags1 sc AND push_bit 11 1 \<noteq> 0
                     then push_bit 1 1 else 0) in
        do { buf \<leftarrow> st32 0 EVB_PORT_ID_ASSIGNED (replicate 30 0); buf \<leftarrow> st32 8 flags buf;
             (rc, _, _, sc) \<leftarrow> sfc7120_mcdi_exec env 0x98 buf [] sc;
             if rc \<noteq> OK then Some (rc, sc) else Some (OK, sc\<lparr>vadaptor_allocated := True\<rparr>) })"

definition sfc7120_mcdi_vadaptor_free :: "('e, 'a) mc_cmd" where
  "sfc7120_mcdi_vadaptor_free env sc =
     (if \<not> vadaptor_allocated sc then Some (OK, sc)
      else do { buf \<leftarrow> st32 0 EVB_PORT_ID_ASSIGNED (replicate 4 0);
                (rc, _, _, sc) \<leftarrow> sfc7120_mcdi_exec env 0x99 buf [] sc;
                Some (rc, sc\<lparr>vadaptor_allocated := False\<rparr>) })"

definition sfc7120_mcdi_get_mac :: "('e, 'a) mc_cmd" where
  "sfc7120_mcdi_get_mac env sc =
     do { (rc, resp, used, sc) \<leftarrow> sfc7120_mcdi_exec env 0x55 [] (replicate 16 0) sc;
          if rc \<noteq> OK then Some (rc, sc)
          else if used0 used < 0 + 6 then Some (EPROTO, sc)
          else do { mac \<leftarrow> ld_bytes 0 6 resp; Some (OK, sc\<lparr>mac_addr := mac\<rparr>) } }"

definition sfc7120_mcdi_alloc_vis :: "'e env_scheme \<Rightarrow> u32 \<Rightarrow> u32 \<Rightarrow> 'a hw_sc_scheme \<Rightarrow>
    (errno \<times> 'a hw_sc_scheme) option" where
  "sfc7120_mcdi_alloc_vis env min_count max_count sc =
     do { buf \<leftarrow> st32 0 min_count (replicate 8 0); buf \<leftarrow> st32 4 max_count buf;
          (rc, resp, used, sc) \<leftarrow> sfc7120_mcdi_exec env 0x8b buf (replicate 8 0) sc;
          if rc \<noteq> OK then Some (rc, sc)
          else if used0 used < 8 then Some (EPROTO, sc)
          else do { count \<leftarrow> ld32 0 resp; base \<leftarrow> ld32 4 resp;
                    Some (OK, sc\<lparr>vi_count := count, vi_base := base, vis_allocated := True\<rparr>) } }"

definition sfc7120_mcdi_free_vis :: "('e, 'a) mc_cmd" where
  "sfc7120_mcdi_free_vis env sc =
     (if \<not> vis_allocated sc then Some (OK, sc)
      else do { (rc, _, _, sc) \<leftarrow> sfc7120_mcdi_exec env 0x8c [] [] sc;
                Some (rc, if rc = OK
                          then sc\<lparr>vis_allocated := False, vi_count := 0, vi_base := 0\<rparr> else sc) })"

section \<open>MAC, PHY and link\<close>

definition fec_quirk :: "u32 \<Rightarrow> u32" where
  "fec_quirk cap =
     (let cap = (if cap AND push_bit 16 1 \<noteq> 0 then cap OR push_bit 17 1 else cap);
          cap = (if cap AND push_bit 18 1 \<noteq> 0 then cap OR push_bit 19 1 else cap)
      in if cap AND push_bit 20 1 \<noteq> 0 then cap OR push_bit 21 1 else cap)"

definition sfc7120_mcdi_get_phy_cfg :: "('e, 'a) mc_cmd" where
  "sfc7120_mcdi_get_phy_cfg env sc =
     do { (rc, resp, used, sc) \<leftarrow> sfc7120_mcdi_exec env 0x24 [] (replicate 72 0) sc;
          if rc \<noteq> OK then Some (rc, sc)
          else if used0 used < 44 + 4 then Some (EPROTO, sc)
          else do { cap \<leftarrow> ld32 8 resp; media \<leftarrow> ld32 44 resp;
                    Some (OK, sc\<lparr>phy_supported_cap_mask := fec_quirk cap, phy_media_type := media\<rparr>) } }"

definition sfc7120_mcdi_set_mac :: "('e, 'a) mc_cmd" where
  "sfc7120_mcdi_set_mac env sc =
     (let fcntl = tunable env ''hw.sfc7120pol.fcntl'' 3;
          fcntl = (if fcntl < 0 \<or> fcntl > 3 then 3 else fcntl) in
      do { buf \<leftarrow> st32 0 1544 (replicate 28 0); buf \<leftarrow> st32 4 0 buf; buf \<leftarrow> st_bytes 8 6 (mac_addr sc) buf;
           buf \<leftarrow> st32 16 0 buf; buf \<leftarrow> st32 20 (of_int fcntl) buf; buf \<leftarrow> st32 24 0 buf;
           (rc, _, _, sc) \<leftarrow> sfc7120_mcdi_exec env 0x2c buf [] sc;
           if rc = EACCES then Some (OK, sc)
           else if rc \<noteq> OK then Some (rc, sc)
           else Some (OK, sc\<lparr>mac_configured := True\<rparr>) })"

definition sfc7120_mcdi_set_link :: "('e, 'a) mc_cmd" where
  "sfc7120_mcdi_set_link env sc =
     (let cap = phy_supported_cap_mask sc OR push_bit 10 1;
          sc = sc\<lparr>phy_adv_cap_mask := cap\<rparr> in
      do { buf \<leftarrow> st32 0 cap (replicate 16 0); buf \<leftarrow> st32 4 0 buf; buf \<leftarrow> st32 8 0 buf; buf \<leftarrow> st32 12 0 buf;
           (rc, _, _, sc) \<leftarrow> sfc7120_mcdi_exec env 0x2a buf [] sc;
           if rc \<noteq> OK then Some (rc, sc) else Some (OK, sc\<lparr>link_configured := True\<rparr>) })"

definition sfc7120_mcdi_get_link :: "('e, 'a) mc_cmd" where
  "sfc7120_mcdi_get_link env sc =
     do { (rc, resp, used, sc) \<leftarrow> sfc7120_mcdi_exec env 0x29 [] (replicate 44 0) sc;
          if rc \<noteq> OK then Some (rc, sc)
          else if used0 used < 28 then Some (EPROTO, sc)
          else do { speed \<leftarrow> ld32 8 resp; link_flags \<leftarrow> ld32 16 resp; fcntl \<leftarrow> ld32 20 resp;
                    _ \<leftarrow> ld32 24 resp;
                    Some (OK, sc\<lparr>link_up := (link_flags AND push_bit 0 1 \<noteq> 0),
                                 full_duplex := (link_flags AND push_bit 1 1 \<noteq> 0),
                                 link_speed_mbps := speed, link_fcntl := fcntl\<rparr>) } }"

section \<open>Filters and statistics\<close>

definition sfc7120_mcdi_filter_insert_mac :: "'e env_scheme \<Rightarrow> u8 list option \<Rightarrow> u32 \<Rightarrow>
    'a hw_sc_scheme \<Rightarrow> (errno \<times> u64 option \<times> 'a hw_sc_scheme) option" where
  "sfc7120_mcdi_filter_insert_mac env dst_mac match sc =
     do { buf \<leftarrow> st32 0 0x0 (replicate 108 0); buf \<leftarrow> st32 12 EVB_PORT_ID_ASSIGNED buf;
          buf \<leftarrow> st32 16 match buf; buf \<leftarrow> st32 20 0x1 buf; buf \<leftarrow> st32 24 0 buf;
          buf \<leftarrow> st32 28 0x0 buf; buf \<leftarrow> st32 40 0xffffffff buf;
          buf \<leftarrow> (case dst_mac of None \<Rightarrow> Some buf | Some m \<Rightarrow> st_bytes 52 6 m buf);
          (rc, resp, used, sc) \<leftarrow> sfc7120_mcdi_exec env 0x8a buf (replicate 12 0) sc;
          if rc \<noteq> OK then Some (rc, None, sc)
          else if used0 used < 12 then Some (EPROTO, None, sc)
          else do { handle_lo \<leftarrow> ld32 4 resp; handle_hi \<leftarrow> ld32 8 resp;
                    if handle_lo = 0xffffffff \<and> handle_hi = 0xffffffff then Some (EIO, None, sc)
                    else Some (OK, Some (push_bit 32 (ucast handle_hi) OR ucast handle_lo), sc) } }"

definition sfc7120_mcdi_filter_insert :: "('e, 'a) mc_cmd" where
  "sfc7120_mcdi_filter_insert env sc =
     (if rx_filter_inserted sc then Some (OK, sc)
      else do {
        (rc, h, sc) \<leftarrow> sfc7120_mcdi_filter_insert_mac env (Some (mac_addr sc)) (push_bit 4 1) sc;
        case (rc, h) of
          (OK, Some h) \<Rightarrow>
            (let sc = sc\<lparr>rx_filter_handle := h, rx_filter_inserted := True\<rparr> in
             do { (rc, h, sc) \<leftarrow> sfc7120_mcdi_filter_insert_mac env None (push_bit 30 1) sc;
                  Some (OK, case (rc, h) of (OK, Some h) \<Rightarrow> sc\<lparr>rx_filter_bcast_handle := h\<rparr> | _ \<Rightarrow> sc) })
        | _ \<Rightarrow> Some (rc, sc) })"

definition sfc7120_mcdi_filter_remove :: "('e, 'a) mc_cmd" where
  "sfc7120_mcdi_filter_remove env sc =
     (if \<not> rx_filter_inserted sc then Some (OK, sc)
      else
        let handle_lo = ucast (rx_filter_handle sc AND 0xffffffff);
            handle_hi = ucast (drop_bit 32 (rx_filter_handle sc)) in
        do { buf \<leftarrow> st32 0 0x1 (replicate 108 0); buf \<leftarrow> st32 4 handle_lo buf; buf \<leftarrow> st32 8 handle_hi buf;
             (rc, _, _, sc) \<leftarrow> sfc7120_mcdi_exec env 0x8a buf [] sc;
             Some (rc, sc\<lparr>rx_filter_inserted := False\<rparr>) })"

definition sfc7120_mcdi_mac_stats :: "('e, 'a) mc_cmd" where
  "sfc7120_mcdi_mac_stats env sc =
     (if db_va (stats_dma sc) = 0 then Some (ENXIO, sc)
      else
        do { buf \<leftarrow> st64 0 (db_pa (stats_dma sc)) (replicate 20 0); buf \<leftarrow> st32 8 (push_bit 0 1) buf;
             buf \<leftarrow> st32 12 (0x61 * 8) buf; buf \<leftarrow> st32 16 EVB_PORT_ID_ASSIGNED buf;
             (rc, _, _, sc) \<leftarrow> sfc7120_mcdi_exec env 0x2e buf [] sc;
             if rc \<noteq> OK then Some (rc, sc) else Some (OK, sc) })"

section \<open>What the firmware holds for the driver\<close>

text \<open>
  The abstract state of the command layer: which resources the driver believes the MC holds for
  it.
\<close>

record hw_flags =
  hf_drv :: bool
  hf_vis :: bool
  hf_evq :: bool
  hf_data_evq :: bool
  hf_vadaptor :: bool
  hf_rxq :: bool
  hf_txq :: bool
  hf_filter :: bool

definition flags_of :: "'a hw_sc_scheme \<Rightarrow> hw_flags" where
  "flags_of sc = \<lparr>hf_drv = drv_attached sc, hf_vis = vis_allocated sc, hf_evq = evq_initialized sc,
     hf_data_evq = data_evq_initialized sc, hf_vadaptor = vadaptor_allocated sc,
     hf_rxq = rxq_initialized sc, hf_txq = txq_initialized sc, hf_filter = rx_filter_inserted sc\<rparr>"

text \<open>
  \<open>mc_ran reqs sc sc'\<close>: from \<open>sc\<close> to \<open>sc'\<close> the requests \<open>reqs\<close> were sent (if the
  channel is open), the mailbox stayed allocated, and the softc outside the command layer is
  unchanged.
\<close>

definition mc_ran :: "(u32 \<times> u8 list) list \<Rightarrow> 'a hw_sc_scheme \<Rightarrow> 'a hw_sc_scheme \<Rightarrow> bool" where
  "mc_ran reqs sc sc' \<longleftrightarrow>
     mcdi_initialized sc' = mcdi_initialized sc \<and> mcdi_buf_va sc' = mcdi_buf_va sc \<and>
     mcdi_buf_paddr sc' = mcdi_buf_paddr sc \<and> mcdi_dtag sc' = mcdi_dtag sc \<and>
     hw_sc.more sc' = hw_sc.more sc \<and>
     (\<exists>tr. trace sc' = trace sc @ tr \<and> (\<forall>e \<in> set tr. mc_event e) \<and>
        concat (map request_of tr) = (if mcdi_initialized sc then reqs else []))"

lemma mc_ran_refl: "mc_ran [] sc sc"
  by (simp add: mc_ran_def)

lemma mc_ran_trans:
  assumes "mc_ran r1 a b" "mc_ran r2 b c"
  shows "mc_ran (r1 @ r2) a c"
proof -
  from assms obtain t1 t2 where
    "trace b = trace a @ t1" "\<forall>e \<in> set t1. mc_event e"
    "concat (map request_of t1) = (if mcdi_initialized a then r1 else [])"
    "trace c = trace b @ t2" "\<forall>e \<in> set t2. mc_event e"
    "concat (map request_of t2) = (if mcdi_initialized b then r2 else [])"
    unfolding mc_ran_def by blast
  then have "trace c = trace a @ (t1 @ t2) \<and> (\<forall>e \<in> set (t1 @ t2). mc_event e) \<and>
      concat (map request_of (t1 @ t2)) = (if mcdi_initialized a then r1 @ r2 else [])"
    using assms unfolding mc_ran_def by auto
  then show ?thesis using assms unfolding mc_ran_def by metis
qed

lemma mc_ran_requests: "mc_ran reqs sc sc' \<Longrightarrow>
    mc_requests sc' = mc_requests sc @ (if mcdi_initialized sc then reqs else [])"
  by (auto simp: mc_ran_def mc_requests_def)

lemma mc_ran_after:
  assumes "\<forall>e \<in> set tr. mc_event e" "concat (map request_of tr) = reqs" "mcdi_initialized sc"
  shows "mc_ran reqs sc (mcdi_after m tr sc)"
  using assms by (auto simp: mc_ran_def mcdi_after_def)

text \<open>Executing a command at the level of the command layer.\<close>

lemma exec_hw:
  assumes "mcdi_fits cmd (length inp)" "mcdi_fits cmd (length out)"
  obtains rc out' used m q ep tr where
    "sfc7120_mcdi_exec env cmd inp out sc =
       Some (rc, out', used, sc\<lparr>trace := trace sc @ tr, mcdi_buf := m, mcdi_seq := q, mcdi_new_epoch := ep\<rparr>)"
    "length out' = length out" "\<forall>e \<in> set tr. mc_event e"
    "concat (map request_of tr) = (if mcdi_initialized sc then [(cmd, inp)] else [])"
    "\<not> mcdi_initialized sc \<Longrightarrow> rc = ENXIO"
  using assms
proof (cases rule: exec_cases [where sc = sc and env = env])
  case closed
  with that [where rc = ENXIO and out' = out and used = None and tr = "[]" and m = "mcdi_buf sc"
      and q = "mcdi_seq sc" and ep = "mcdi_new_epoch sc"]
  show thesis by simp
next
  case (sent rc out' used m tr)
  with that [where rc = rc and out' = out' and used = used and tr = tr and m = m
      and q = "(mcdi_seq sc + 1) AND 0x0f" and ep = False]
  show thesis by (simp add: mcdi_after_def)
qed

lemma mc_ran_ex:
  "\<lbrakk>\<forall>e \<in> set tr. mc_event e; concat (map request_of tr) = (if mcdi_initialized sc then reqs else []);
    mcdi_initialized sc' = mcdi_initialized sc; mcdi_buf_va sc' = mcdi_buf_va sc;
    mcdi_buf_paddr sc' = mcdi_buf_paddr sc; mcdi_dtag sc' = mcdi_dtag sc;
    hw_sc.more sc' = hw_sc.more sc; trace sc' = trace sc @ tr\<rbrakk> \<Longrightarrow> mc_ran reqs sc sc'"
  unfolding mc_ran_def by blast

lemma cmd_fits [simp]:
  "n \<le> 248 \<Longrightarrow> mcdi_fits cmd n"
proof -
  assume "n \<le> 248"
  then have "pad4 n \<le> 248" using pad4_mono [of n 248] by (simp add: pad4_def)
  then show ?thesis by (simp add: mcdi_fits_def mcdi_payload_off_def MCDI_BUF_LEN_def)
qed

section \<open>A calculus for the wrappers\<close>

text \<open>
  \<open>mc_ok r reqs sc Q\<close>: the computation \<open>r\<close>, started in \<open>sc\<close>, does not fault, sends
  exactly \<open>reqs\<close> (if the channel is open), and ends with a return code and state that satisfy
  \<open>Q\<close>.
\<close>

definition mc_ok :: "(errno \<times> 'a hw_sc_scheme) option \<Rightarrow> (u32 \<times> u8 list) list \<Rightarrow> 'a hw_sc_scheme \<Rightarrow>
    (errno \<Rightarrow> 'a hw_sc_scheme \<Rightarrow> bool) \<Rightarrow> bool" where
  "mc_ok r reqs sc Q \<longleftrightarrow> (\<exists>rc sc'. r = Some (rc, sc') \<and> mc_ran reqs sc sc' \<and> Q rc sc')"

definition mcdi_ran_sc :: "io list \<Rightarrow> bytes \<Rightarrow> u8 \<Rightarrow> bool \<Rightarrow> 'a hw_sc_scheme \<Rightarrow> 'a hw_sc_scheme" where
  "mcdi_ran_sc tr m q ep sc =
     sc\<lparr>trace := trace sc @ tr, mcdi_buf := m, mcdi_seq := q, mcdi_new_epoch := ep\<rparr>"

lemma mcdi_ran_sc_simps [simp]:
  "flags_of (mcdi_ran_sc tr m q ep sc) = flags_of sc"
  "vi_count (mcdi_ran_sc tr m q ep sc) = vi_count sc"
  "hw_sc.more (mcdi_ran_sc tr m q ep sc) = hw_sc.more sc"
  "mcdi_initialized (mcdi_ran_sc tr m q ep sc) = mcdi_initialized sc"
  "mac_addr (mcdi_ran_sc tr m q ep sc) = mac_addr sc"
  "link_up (mcdi_ran_sc tr m q ep sc) = link_up sc"
  "evq_read_ptr (mcdi_ran_sc tr m q ep sc) = evq_read_ptr sc"
  "rx_filter_handle (mcdi_ran_sc tr m q ep sc) = rx_filter_handle sc"
  by (simp_all add: mcdi_ran_sc_def flags_of_def)

lemma hf_flags_of [simp]:
  "hf_drv (flags_of sc) = drv_attached sc" "hf_vis (flags_of sc) = vis_allocated sc"
  "hf_evq (flags_of sc) = evq_initialized sc" "hf_data_evq (flags_of sc) = data_evq_initialized sc"
  "hf_vadaptor (flags_of sc) = vadaptor_allocated sc" "hf_rxq (flags_of sc) = rxq_initialized sc"
  "hf_txq (flags_of sc) = txq_initialized sc" "hf_filter (flags_of sc) = rx_filter_inserted sc"
  by (simp_all add: flags_of_def)

lemma flags_of_upd [simp]:
  "flags_of (sc\<lparr>drv_attached := b\<rparr>) = (flags_of sc)\<lparr>hf_drv := b\<rparr>"
  "flags_of (sc\<lparr>vis_allocated := b\<rparr>) = (flags_of sc)\<lparr>hf_vis := b\<rparr>"
  "flags_of (sc\<lparr>evq_initialized := b\<rparr>) = (flags_of sc)\<lparr>hf_evq := b\<rparr>"
  "flags_of (sc\<lparr>data_evq_initialized := b\<rparr>) = (flags_of sc)\<lparr>hf_data_evq := b\<rparr>"
  "flags_of (sc\<lparr>vadaptor_allocated := b\<rparr>) = (flags_of sc)\<lparr>hf_vadaptor := b\<rparr>"
  "flags_of (sc\<lparr>rxq_initialized := b\<rparr>) = (flags_of sc)\<lparr>hf_rxq := b\<rparr>"
  "flags_of (sc\<lparr>txq_initialized := b\<rparr>) = (flags_of sc)\<lparr>hf_txq := b\<rparr>"
  "flags_of (sc\<lparr>rx_filter_inserted := b\<rparr>) = (flags_of sc)\<lparr>hf_filter := b\<rparr>"
  "flags_of (sc\<lparr>mac_addr := a\<rparr>) = flags_of sc" "flags_of (sc\<lparr>evq_read_ptr := p\<rparr>) = flags_of sc"
  "flags_of (sc\<lparr>mcdi_func_flags := f\<rparr>) = flags_of sc" "flags_of (sc\<lparr>vi_count := f\<rparr>) = flags_of sc"
  "flags_of (sc\<lparr>vi_base := f\<rparr>) = flags_of sc" "flags_of (sc\<lparr>mcdi_cap_flags1 := f\<rparr>) = flags_of sc"
  "flags_of (sc\<lparr>mcdi_caps_valid := b\<rparr>) = flags_of sc" "flags_of (sc\<lparr>fw_version := v\<rparr>) = flags_of sc"
  "flags_of (sc\<lparr>phy_supported_cap_mask := f\<rparr>) = flags_of sc"
  "flags_of (sc\<lparr>phy_adv_cap_mask := f\<rparr>) = flags_of sc"
  "flags_of (sc\<lparr>phy_media_type := f\<rparr>) = flags_of sc" "flags_of (sc\<lparr>link_up := b\<rparr>) = flags_of sc"
  "flags_of (sc\<lparr>full_duplex := b\<rparr>) = flags_of sc" "flags_of (sc\<lparr>link_speed_mbps := f\<rparr>) = flags_of sc"
  "flags_of (sc\<lparr>link_fcntl := f\<rparr>) = flags_of sc" "flags_of (sc\<lparr>mac_configured := b\<rparr>) = flags_of sc"
  "flags_of (sc\<lparr>link_configured := b\<rparr>) = flags_of sc" "flags_of (sc\<lparr>rx_filter_handle := h\<rparr>) = flags_of sc"
  "flags_of (sc\<lparr>rx_filter_bcast_handle := h\<rparr>) = flags_of sc"
  by (simp_all add: flags_of_def)

lemma flags_id [simp]:
  "(\<not> drv_attached sc) \<Longrightarrow> (flags_of sc)\<lparr>hf_drv := False\<rparr> = flags_of sc"
  "(\<not> vis_allocated sc) \<Longrightarrow> (flags_of sc)\<lparr>hf_vis := False\<rparr> = flags_of sc"
  "(\<not> evq_initialized sc) \<Longrightarrow> (flags_of sc)\<lparr>hf_evq := False\<rparr> = flags_of sc"
  "(\<not> data_evq_initialized sc) \<Longrightarrow> (flags_of sc)\<lparr>hf_data_evq := False\<rparr> = flags_of sc"
  "(\<not> vadaptor_allocated sc) \<Longrightarrow> (flags_of sc)\<lparr>hf_vadaptor := False\<rparr> = flags_of sc"
  "(\<not> rxq_initialized sc) \<Longrightarrow> (flags_of sc)\<lparr>hf_rxq := False\<rparr> = flags_of sc"
  "(\<not> txq_initialized sc) \<Longrightarrow> (flags_of sc)\<lparr>hf_txq := False\<rparr> = flags_of sc"
  "(\<not> rx_filter_inserted sc) \<Longrightarrow> (flags_of sc)\<lparr>hf_filter := False\<rparr> = flags_of sc"
  by (simp_all add: flags_of_def)

lemma mc_ok_Some: "mc_ok (Some (rc, sc')) [] sc Q \<longleftrightarrow> mc_ran [] sc sc' \<and> Q rc sc'"
  by (simp add: mc_ok_def)

lemma mc_ok_bind:
  assumes "mc_ok r r1 sc P"
    and "\<And>rc sc1. P rc sc1 \<Longrightarrow> mcdi_initialized sc1 = mcdi_initialized sc \<Longrightarrow> mc_ok (k (rc, sc1)) r2 sc1 Q"
  shows "mc_ok (r \<bind> k) (r1 @ r2) sc Q"
proof -
  from assms(1) obtain rc sc1 where 1: "r = Some (rc, sc1)" "mc_ran r1 sc sc1" "P rc sc1"
    by (auto simp: mc_ok_def)
  from assms(2) [OF 1(3)] 1(2) obtain rc' sc' where
    "k (rc, sc1) = Some (rc', sc')" "mc_ran r2 sc1 sc'" "Q rc' sc'"
    by (auto simp: mc_ok_def mc_ran_def)
  with 1 mc_ran_trans [OF 1(2)] show ?thesis by (auto simp: mc_ok_def)
qed

lemma mc_ok_mono: "\<lbrakk>mc_ok r reqs sc P; \<And>rc sc'. P rc sc' \<Longrightarrow> Q rc sc'\<rbrakk> \<Longrightarrow> mc_ok r reqs sc Q"
  unfolding mc_ok_def by blast

lemma mc_ok_exec:
  assumes "length inp \<le> 248" "length out \<le> 248"
    and "\<And>rc out' used m q ep tr. \<lbrakk>length out' = length out; \<not> mcdi_initialized sc \<Longrightarrow> rc = ENXIO\<rbrakk> \<Longrightarrow>
      mc_ok (k (rc, out', used, mcdi_ran_sc tr m q ep sc)) r2 (mcdi_ran_sc tr m q ep sc) Q"
  shows "mc_ok (sfc7120_mcdi_exec env cmd inp out sc \<bind> k) ((cmd, inp) # r2) sc Q"
proof -
  have fits: "mcdi_fits cmd (length inp)" "mcdi_fits cmd (length out)"
    using assms(1,2) by simp_all
  obtain rc out' used m q ep tr where
    ex: "sfc7120_mcdi_exec env cmd inp out sc = Some (rc, out', used, mcdi_ran_sc tr m q ep sc)"
    and len: "length out' = length out" and ev: "\<forall>e \<in> set tr. mc_event e"
    and rq: "concat (map request_of tr) = (if mcdi_initialized sc then [(cmd, inp)] else [])"
    and cl: "\<not> mcdi_initialized sc \<Longrightarrow> rc = ENXIO"
    using exec_hw [OF fits, of env sc] unfolding mcdi_ran_sc_def by metis
  have "mc_ran [(cmd, inp)] sc (mcdi_ran_sc tr m q ep sc)"
    using ev rq by (intro mc_ran_ex [of tr]) (simp_all add: mcdi_ran_sc_def)
  with assms(3) [OF len cl, where tr = tr and m = m and q = q and ep = ep and used = used]
  show ?thesis
    unfolding ex mc_ok_def using mc_ran_trans by fastforce
qed

lemma mc_if [simp]:
  "mc_ran r sc (if b then s1 else s2) \<longleftrightarrow> (if b then mc_ran r sc s1 else mc_ran r sc s2)"
  "flags_of (if b then s1 else s2) = (if b then flags_of s1 else flags_of s2)"
  "mac_addr (if b then s1 else s2) = (if b then mac_addr s1 else mac_addr s2)"
  "mc_ok (if b then r1 else r2) rq sc Q \<longleftrightarrow> (if b then mc_ok r1 rq sc Q else mc_ok r2 rq sc Q)"
  by simp_all

lemma mc_ran_upd [simp]:
  "mc_ran [] sc (sc\<lparr>mac_addr := a\<rparr>)" "mc_ran [] sc (sc\<lparr>evq_read_ptr := p, evq_initialized := b\<rparr>)"
  "mc_ran [] sc (sc\<lparr>mcdi_func_flags := f\<rparr>)"
  "mc_ran [] sc (sc\<lparr>mcdi_func_flags := f, drv_attached := b\<rparr>)"
  "mc_ran [] sc (sc\<lparr>drv_attached := b\<rparr>)"
  "mc_ran [] sc (sc\<lparr>vi_count := vc, vi_base := vb, vis_allocated := b\<rparr>)"
  "mc_ran [] sc (sc\<lparr>vis_allocated := b, vi_count := vc, vi_base := vb\<rparr>)"
  "mc_ran [] sc (sc\<lparr>mcdi_cap_flags1 := f, mcdi_caps_valid := b\<rparr>)"
  "mc_ran [] sc (sc\<lparr>fw_version := v\<rparr>)" "mc_ran [] sc (sc\<lparr>evq_initialized := b\<rparr>)"
  "mc_ran [] sc (sc\<lparr>data_evq_initialized := b\<rparr>)" "mc_ran [] sc (sc\<lparr>vadaptor_allocated := b\<rparr>)"
  "mc_ran [] sc (sc\<lparr>rxq_initialized := b\<rparr>)" "mc_ran [] sc (sc\<lparr>txq_initialized := b\<rparr>)"
  "mc_ran [] sc (sc\<lparr>phy_supported_cap_mask := f, phy_media_type := t\<rparr>)"
  "mc_ran [] sc (sc\<lparr>phy_adv_cap_mask := f\<rparr>)"
  "mc_ran [] sc (sc\<lparr>link_up := b, full_duplex := c, link_speed_mbps := f, link_fcntl := t\<rparr>)"
  "mc_ran [] sc (sc\<lparr>mac_configured := b\<rparr>)" "mc_ran [] sc (sc\<lparr>link_configured := b\<rparr>)"
  "mc_ran [] sc (sc\<lparr>rx_filter_handle := h, rx_filter_inserted := b\<rparr>)"
  "mc_ran [] sc (sc\<lparr>rx_filter_bcast_handle := h\<rparr>)" "mc_ran [] sc (sc\<lparr>rx_filter_inserted := b\<rparr>)"
  "mc_ran [] sc sc"
  by (simp_all add: mc_ran_def)

section \<open>What each wrapper does to the firmware resources\<close>

lemma fini_txq_ok:
  "mc_ok (sfc7120_mcdi_fini_txq env inst sc)
     (if txq_initialized sc then [(0x85, wr32 0 inst (replicate 4 0))] else []) sc
     (\<lambda>rc sc'. flags_of sc' = (flags_of sc)\<lparr>hf_txq := False\<rparr>)"
  by (cases "txq_initialized sc")
    (auto simp: sfc7120_mcdi_fini_txq_def mc_ok_Some intro!: mc_ok_exec)

lemma fini_rxq_ok:
  "mc_ok (sfc7120_mcdi_fini_rxq env inst sc)
     (if rxq_initialized sc then [(0x84, wr32 0 inst (replicate 4 0))] else []) sc
     (\<lambda>rc sc'. flags_of sc' = (flags_of sc)\<lparr>hf_rxq := False\<rparr>)"
  by (cases "rxq_initialized sc")
    (auto simp: sfc7120_mcdi_fini_rxq_def mc_ok_Some intro!: mc_ok_exec)

lemma fini_evq_ok:
  "mc_ok (sfc7120_mcdi_fini_evq env inst sc)
     (if (if inst = 0 then evq_initialized sc else data_evq_initialized sc)
      then [(0x83, wr32 0 inst (replicate 4 0))] else []) sc
     (\<lambda>rc sc'. flags_of sc' = (if rc = EBUSY then flags_of sc
        else if inst = 0 then (flags_of sc)\<lparr>hf_evq := False\<rparr>
        else (flags_of sc)\<lparr>hf_data_evq := False\<rparr>))"
  by (cases "if inst = 0 then evq_initialized sc else data_evq_initialized sc")
    (auto simp: sfc7120_mcdi_fini_evq_def mc_ok_Some intro!: mc_ok_exec split: if_splits)

lemma vadaptor_free_ok:
  "mc_ok (sfc7120_mcdi_vadaptor_free env sc)
     (if vadaptor_allocated sc then [(0x99, wr32 0 EVB_PORT_ID_ASSIGNED (replicate 4 0))] else []) sc
     (\<lambda>rc sc'. flags_of sc' = (flags_of sc)\<lparr>hf_vadaptor := False\<rparr>)"
  by (cases "vadaptor_allocated sc")
    (auto simp: sfc7120_mcdi_vadaptor_free_def mc_ok_Some intro!: mc_ok_exec)

lemma free_vis_ok:
  "mc_ok (sfc7120_mcdi_free_vis env sc) (if vis_allocated sc then [(0x8c, [])] else []) sc
     (\<lambda>rc sc'. flags_of sc' = (if rc = OK then (flags_of sc)\<lparr>hf_vis := False\<rparr> else flags_of sc))"
  by (cases "vis_allocated sc")
    (auto simp: sfc7120_mcdi_free_vis_def mc_ok_Some intro!: mc_ok_exec split: if_splits)

definition drv_attach_msg :: "u32 \<Rightarrow> u32 \<Rightarrow> u8 list" where
  "drv_attach_msg new_state fw = wr32 8 fw (wr32 4 0x1 (wr32 0 new_state (replicate 12 0)))"

lemma drv_detach_ok:
  "mc_ok (sfc7120_mcdi_drv_detach env sc)
     (if drv_attached sc then [(0x1c, drv_attach_msg 0 0xffffffff)] else []) sc
     (\<lambda>rc sc'. flags_of sc' = (if rc = OK then (flags_of sc)\<lparr>hf_drv := False\<rparr> else flags_of sc))"
  by (cases "drv_attached sc")
    (auto simp: sfc7120_mcdi_drv_detach_def drv_attach_msg_def mc_ok_Some
        intro!: mc_ok_exec split: if_splits)

definition filter_remove_msg :: "u64 \<Rightarrow> u8 list" where
  "filter_remove_msg h =
     wr32 8 (ucast (drop_bit 32 h)) (wr32 4 (ucast (h AND 0xffffffff)) (wr32 0 0x1 (replicate 108 0)))"

lemma filter_remove_ok:
  "mc_ok (sfc7120_mcdi_filter_remove env sc)
     (if rx_filter_inserted sc then [(0x8a, filter_remove_msg (rx_filter_handle sc))] else []) sc
     (\<lambda>rc sc'. flags_of sc' = (flags_of sc)\<lparr>hf_filter := False\<rparr>)"
  by (cases "rx_filter_inserted sc")
    (auto simp: sfc7120_mcdi_filter_remove_def filter_remove_msg_def mc_ok_Some Let_def intro!: mc_ok_exec)

lemma flags_id2: "vadaptor_allocated sc \<Longrightarrow> (flags_of sc)\<lparr>hf_vadaptor := True\<rparr> = flags_of sc"
  by (simp add: flags_of_def)

text \<open>The same without fixing the requests, for the bring-up sequence.\<close>

definition mc_any :: "(errno \<times> 'a hw_sc_scheme) option \<Rightarrow> 'a hw_sc_scheme \<Rightarrow>
    (errno \<Rightarrow> 'a hw_sc_scheme \<Rightarrow> bool) \<Rightarrow> bool" where
  "mc_any r sc Q \<longleftrightarrow> (\<exists>reqs. mc_ok r reqs sc Q)"

lemma mc_anyI: "mc_ok r reqs sc Q \<Longrightarrow> mc_any r sc Q"
  by (auto simp: mc_any_def)

lemma mc_any_exec:
  assumes "length inp \<le> 248" "length out \<le> 248"
    and "\<And>rc out' used m q ep tr. length out' = length out \<Longrightarrow>
      mc_any (k (rc, out', used, mcdi_ran_sc tr m q ep sc)) (mcdi_ran_sc tr m q ep sc) Q"
  shows "mc_any (sfc7120_mcdi_exec env cmd inp out sc \<bind> k) sc Q"
proof -
  have fits: "mcdi_fits cmd (length inp)" "mcdi_fits cmd (length out)"
    using assms(1,2) by simp_all
  obtain rc out' used m q ep tr where
    ex: "sfc7120_mcdi_exec env cmd inp out sc = Some (rc, out', used, mcdi_ran_sc tr m q ep sc)"
    and len: "length out' = length out" and ev: "\<forall>e \<in> set tr. mc_event e"
    and rq: "concat (map request_of tr) = (if mcdi_initialized sc then [(cmd, inp)] else [])"
    using exec_hw [OF fits, of env sc] unfolding mcdi_ran_sc_def by metis
  have "mc_ran [(cmd, inp)] sc (mcdi_ran_sc tr m q ep sc)"
    using ev rq by (intro mc_ran_ex [of tr]) (simp_all add: mcdi_ran_sc_def)
  with assms(3) [OF len, where tr = tr and m = m and q = q and ep = ep and used = used]
  show ?thesis
    unfolding ex mc_any_def mc_ok_def using mc_ran_trans by fastforce
qed

lemma mc_any_Some: "mc_any (Some (rc, sc')) sc Q \<longleftrightarrow> (\<exists>reqs. mc_ran reqs sc sc') \<and> Q rc sc'"
  by (auto simp: mc_any_def mc_ok_def)

lemma mc_any_Some0: "mc_ran [] sc sc' \<Longrightarrow> Q rc sc' \<Longrightarrow> mc_any (Some (rc, sc')) sc Q"
  by (auto simp: mc_any_Some)

lemma mc_any_bind:
  assumes "mc_any r sc P"
    and "\<And>rc sc1. P rc sc1 \<Longrightarrow> mc_any (k (rc, sc1)) sc1 Q"
  shows "mc_any (r \<bind> k) sc Q"
proof -
  from assms(1) obtain reqs rc sc1 where "r = Some (rc, sc1)" "mc_ran reqs sc sc1" "P rc sc1"
    by (auto simp: mc_any_def mc_ok_def)
  with assms(2) mc_ran_trans show ?thesis by (fastforce simp: mc_any_def mc_ok_def)
qed

lemma mc_any_mono: "\<lbrakk>mc_any r sc P; \<And>rc sc'. P rc sc' \<Longrightarrow> Q rc sc'\<rbrakk> \<Longrightarrow> mc_any r sc Q"
  unfolding mc_any_def using mc_ok_mono by metis

text \<open>Bring-up queries leave the resources and the MAC address alone.\<close>

definition mc_same :: "'a hw_sc_scheme \<Rightarrow> errno \<Rightarrow> 'a hw_sc_scheme \<Rightarrow> bool" where
  "mc_same sc rc sc' \<longleftrightarrow> flags_of sc' = flags_of sc \<and> mac_addr sc' = mac_addr sc"

lemma mc_same_ran [simp]: "mc_same (mcdi_ran_sc tr m q ep sc) = mc_same sc"
  by (simp add: mc_same_def fun_eq_iff)

lemma get_version_any: "mc_any (sfc7120_mcdi_get_version env sc) sc (mc_same sc)"
  by (auto simp: sfc7120_mcdi_get_version_def Let_def mc_same_def intro!: mc_any_exec mc_any_Some0)

lemma drv_attach_any:
  "mc_any (sfc7120_mcdi_drv_attach env sc) sc
     (\<lambda>rc sc'. flags_of sc' = (if rc = OK then (flags_of sc)\<lparr>hf_drv := True\<rparr> else flags_of sc))"
  by (auto simp: sfc7120_mcdi_drv_attach_def Let_def mc_same_def intro!: mc_any_exec mc_any_Some0)

text \<open>One command, for wrappers with another result type.\<close>

lemma exec_ran:
  assumes "length inp \<le> 248" "length out \<le> 248"
  obtains rc out' used sc' where "sfc7120_mcdi_exec env cmd inp out sc = Some (rc, out', used, sc')"
    "length out' = length out" "mc_ran [(cmd, inp)] sc sc'" "flags_of sc' = flags_of sc" "mac_addr sc' = mac_addr sc"
proof -
  have fits: "mcdi_fits cmd (length inp)" "mcdi_fits cmd (length out)" using assms by simp_all
  obtain rc out' used m q ep tr where
    ex: "sfc7120_mcdi_exec env cmd inp out sc = Some (rc, out', used, mcdi_ran_sc tr m q ep sc)"
    and len: "length out' = length out" and ev: "\<forall>e \<in> set tr. mc_event e"
    and rq: "concat (map request_of tr) = (if mcdi_initialized sc then [(cmd, inp)] else [])"
    using exec_hw [OF fits, of env sc] unfolding mcdi_ran_sc_def by metis
  have "mc_ran [(cmd, inp)] sc (mcdi_ran_sc tr m q ep sc)"
    using ev rq by (intro mc_ran_ex [of tr]) (simp_all add: mcdi_ran_sc_def)
  then show thesis using that [OF ex len] by simp
qed

lemma asserts_retry_ran:
  assumes "length resp = 140"
  obtains rc resp' used sc' where "asserts_retry env n resp sc = Some (rc, resp', used, sc')" "length resp' = 140"
    "\<exists>reqs. mc_ran reqs sc sc'" "flags_of sc' = flags_of sc" "mac_addr sc' = mac_addr sc"
  using assms
proof (induction n arbitrary: resp sc thesis)
  case (0 resp sc)
  obtain rc out' used s where ex: "sfc7120_mcdi_exec env 0x06 (wr32 0 1 (replicate 4 0)) resp sc = Some (rc, out', used, s)"
    and l: "length out' = length resp"
    and s: "mc_ran [(0x06, wr32 0 1 (replicate 4 0))] sc s" "flags_of s = flags_of sc" "mac_addr s = mac_addr sc"
    by (rule exec_ran [of "wr32 0 1 (replicate 4 0)" resp env "0x06" sc]) (use 0(2) in simp_all)
  have l': "length out' = 140" using l 0(2) by simp
  have "asserts_retry env 0 resp sc = Some (rc, out', used, s)" by (subst asserts_retry.simps) (simp add: ex)
  with s l' show thesis by (intro 0(1)) blast+
next
  case (Suc n resp sc)
  obtain rc out' used s where ex: "sfc7120_mcdi_exec env 0x06 (wr32 0 1 (replicate 4 0)) resp sc = Some (rc, out', used, s)"
    and l: "length out' = length resp"
    and s: "mc_ran [(0x06, wr32 0 1 (replicate 4 0))] sc s" "flags_of s = flags_of sc" "mac_addr s = mac_addr sc"
    by (rule exec_ran [of "wr32 0 1 (replicate 4 0)" resp env "0x06" sc]) (use Suc.prems(2) in simp_all)
  have l': "length out' = 140" using l Suc.prems(2) by simp
  obtain rc2 out2 used2 s2 where ex2: "asserts_retry env n out' s = Some (rc2, out2, used2, s2)"
    and s2: "length out2 = 140" "\<exists>reqs. mc_ran reqs s s2" "flags_of s2 = flags_of s" "mac_addr s2 = mac_addr s"
    using Suc.IH [OF _ l'] by blast
  have eq: "asserts_retry env (Suc n) resp sc =
      (if rc \<noteq> EINTR \<and> rc \<noteq> EIO then Some (rc, out', used, s) else Some (rc2, out2, used2, s2))"
    by (subst asserts_retry.simps) (simp add: ex ex2)
  have "\<exists>reqs. mc_ran reqs sc s2" using s(1) s2(2) mc_ran_trans by blast
  then show thesis using eq s l' s2 Suc.prems(1) by (cases "rc \<noteq> EINTR \<and> rc \<noteq> EIO") (fastforce, fastforce)
qed

lemma clear_assertions_any: "mc_any (sfc7120_mcdi_clear_assertions env sc) sc (mc_same sc)"
proof -
  obtain rc resp used s where r: "asserts_retry env 2 (replicate 140 0) sc = Some (rc, resp, used, s)" "length resp = 140"
    "\<exists>reqs. mc_ran reqs sc s" "flags_of s = flags_of sc" "mac_addr s = mac_addr sc"
    by (rule asserts_retry_ran [of "replicate 140 0" env 2 sc]) simp
  then show ?thesis by (simp add: sfc7120_mcdi_clear_assertions_def mc_any_Some mc_same_def)
qed

lemma entity_reset_any: "mc_any (sfc7120_mcdi_entity_reset env sc) sc (mc_same sc)"
  by (auto simp: sfc7120_mcdi_entity_reset_def Let_def mc_same_def intro!: mc_any_exec mc_any_Some0)

lemma get_mac_any:
  "mc_any (sfc7120_mcdi_get_mac env sc) sc
     (\<lambda>rc sc'. flags_of sc' = flags_of sc \<and> (rc = OK \<longrightarrow> length (mac_addr sc') = 6))"
  by (auto simp: sfc7120_mcdi_get_mac_def Let_def mc_same_def intro!: mc_any_exec mc_any_Some0)

lemma dump_func_info_any:
  "mc_any (sfc7120_mcdi_dump_func_info env sc) sc (\<lambda>rc sc'. mc_same sc rc sc' \<and> rc = OK)"
  by (auto simp: sfc7120_mcdi_dump_func_info_def Let_def mc_same_def intro!: mc_any_exec mc_any_Some0)

lemma alloc_vis_any:
  "mc_any (sfc7120_mcdi_alloc_vis env mn mx sc) sc
     (\<lambda>rc sc'. mac_addr sc' = mac_addr sc \<and>
        flags_of sc' = (if rc = OK then (flags_of sc)\<lparr>hf_vis := True\<rparr> else flags_of sc))"
  by (auto simp: sfc7120_mcdi_alloc_vis_def Let_def mc_same_def intro!: mc_any_exec mc_any_Some0)

lemma vadaptor_alloc_any:
  "mc_any (sfc7120_mcdi_vadaptor_alloc env sc) sc
     (\<lambda>rc sc'. mac_addr sc' = mac_addr sc \<and>
        flags_of sc' = (if rc = OK then (flags_of sc)\<lparr>hf_vadaptor := True\<rparr> else flags_of sc))"
  by (cases "vadaptor_allocated sc")
    (auto simp: sfc7120_mcdi_vadaptor_alloc_def Let_def flags_id2 intro!: mc_any_exec mc_any_Some0)

lemma get_phy_cfg_any: "mc_any (sfc7120_mcdi_get_phy_cfg env sc) sc (mc_same sc)"
  by (auto simp: sfc7120_mcdi_get_phy_cfg_def Let_def mc_same_def intro!: mc_any_exec mc_any_Some0)

lemma set_mac_any:
  "length (mac_addr sc) = 6 \<Longrightarrow> mc_any (sfc7120_mcdi_set_mac env sc) sc (mc_same sc)"
  by (auto simp: sfc7120_mcdi_set_mac_def Let_def mc_same_def intro!: mc_any_exec mc_any_Some0)

lemma set_link_any: "mc_any (sfc7120_mcdi_set_link env sc) sc (mc_same sc)"
proof -
  let ?sc1 = "sc\<lparr>phy_adv_cap_mask := phy_supported_cap_mask sc OR push_bit 10 1\<rparr>"
  have "mc_any (Some (OK, ?sc1)) sc (\<lambda>rc sc'. sc' = ?sc1)" by (rule mc_any_Some0) simp_all
  moreover have "mc_any (sfc7120_mcdi_set_link env sc) ?sc1 (mc_same sc)"
    by (auto simp: sfc7120_mcdi_set_link_def Let_def mc_same_def intro!: mc_any_exec mc_any_Some0)
  ultimately have "mc_any (Some (OK, ?sc1) \<bind> (\<lambda>_. sfc7120_mcdi_set_link env sc)) sc (mc_same sc)"
    by (intro mc_any_bind [where P = "\<lambda>rc sc'. sc' = ?sc1"]) simp_all
  then show ?thesis by simp
qed

lemma get_link_any: "mc_any (sfc7120_mcdi_get_link env sc) sc (mc_same sc)"
  by (auto simp: sfc7120_mcdi_get_link_def Let_def mc_same_def intro!: mc_any_exec mc_any_Some0)

section \<open>Queue and filter requests\<close>

definition queue_msg :: "u32 \<Rightarrow> u32 \<Rightarrow> u32 \<Rightarrow> u64 \<Rightarrow> u32 \<Rightarrow> u8 list" where
  "queue_msg ndescs target_evq inst ring_paddr flags =
     wr64 28 ring_paddr (wr32 24 EVB_PORT_ID_ASSIGNED (wr32 16 flags (wr32 12 inst
       (wr32 4 target_evq (wr32 0 ndescs (replicate 36 0))))))"

definition evq_msg :: "u32 \<Rightarrow> u32 \<Rightarrow> u64 \<Rightarrow> u32 \<Rightarrow> u8 list" where
  "evq_msg nevs inst paddr flags =
     wr64 36 paddr (wr32 24 (if inst = 0 then inst else 0) (wr32 16 flags
       (wr32 4 inst (wr32 0 nevs (replicate 44 0)))))"

definition queue_allowed :: "u32 \<Rightarrow> u32 \<Rightarrow> 'a hw_sc_scheme \<Rightarrow> bool" where
  "queue_allowed inst target_evq sc \<longleftrightarrow>
     vadaptor_allocated sc \<and> inst < vi_count sc \<and> target_evq < vi_count sc"

lemma pow2_512 [simp]: "pow2 512"
  by (simp add: pow2_def)

lemma init_rxq_ok:
  "mc_ok (sfc7120_mcdi_init_rxq env inst tgt pa 512 sc)
     (if queue_allowed inst tgt sc then [(0x81, queue_msg 512 tgt inst pa 0x300)] else []) sc
     (\<lambda>rc sc'. flags_of sc' = (if rc = OK then (flags_of sc)\<lparr>hf_rxq := True\<rparr> else flags_of sc) \<and>
        mac_addr sc' = mac_addr sc \<and> vi_count sc' = vi_count sc \<and>
        (\<not> queue_allowed inst tgt sc \<longrightarrow> rc = EINVAL \<and> sc' = sc))"
  by (cases "queue_allowed inst tgt sc")
    (auto simp: sfc7120_mcdi_init_rxq_def queue_allowed_def queue_msg_def mc_ok_Some Let_def not_le
      intro!: mc_ok_exec split: if_splits)

lemma init_txq_ok:
  "mc_ok (sfc7120_mcdi_init_txq env inst tgt pa 512 sc)
     (if queue_allowed inst tgt sc
      then [(0x82, queue_msg 512 tgt inst pa (if tunable env ''hw.sfc7120pol.tx_csum'' 1 = 0 then 6 else 0))]
      else []) sc
     (\<lambda>rc sc'. flags_of sc' = (if rc = OK then (flags_of sc)\<lparr>hf_txq := True\<rparr> else flags_of sc) \<and>
        mac_addr sc' = mac_addr sc \<and> vi_count sc' = vi_count sc \<and>
        (\<not> queue_allowed inst tgt sc \<longrightarrow> rc = EINVAL \<and> sc' = sc))"
  by (cases "queue_allowed inst tgt sc")
    (auto simp: sfc7120_mcdi_init_txq_def queue_allowed_def queue_msg_def mc_ok_Some Let_def not_le
      intro!: mc_ok_exec split: if_splits)

lemma init_evq_ok:
  "mc_ok (sfc7120_mcdi_init_evq env inst pa 512 sc)
     (if inst < vi_count sc then [(0x80, evq_msg 512 inst pa (if inst = 0 then 0x39 else 0x38))] else []) sc
     (\<lambda>rc sc'. flags_of sc' = (if rc = OK then (flags_of sc)\<lparr>hf_evq := True\<rparr> else flags_of sc) \<and>
        evq_read_ptr sc' = (if rc = OK then 0 else evq_read_ptr sc) \<and>
        mac_addr sc' = mac_addr sc \<and> vi_count sc' = vi_count sc \<and>
        (\<not> inst < vi_count sc \<longrightarrow> rc = EINVAL \<and> sc' = sc))"
  by (cases "inst < vi_count sc")
    (auto simp: sfc7120_mcdi_init_evq_def evq_msg_def mc_ok_Some Let_def not_le
      intro!: mc_ok_exec split: if_splits)

lemma queue_msg_fields:
  "rd32 0 (queue_msg n tgt inst pa fl) = n" "rd32 4 (queue_msg n tgt inst pa fl) = tgt"
  "rd32 12 (queue_msg n tgt inst pa fl) = inst" "rd32 16 (queue_msg n tgt inst pa fl) = fl"
  "rd64 28 (queue_msg n tgt inst pa fl) = pa" "length (queue_msg n tgt inst pa fl) = 36"
  by (simp_all add: queue_msg_def buf_field_simps)

text \<open>
  The contract of queue creation: nothing is sent for a queue that is not allowed; otherwise one
  request of 36 bytes with the ring size, the event queue, the instance and the ring address, and
  the flag follows the answer.
\<close>

definition queue_contract :: "u32 \<Rightarrow> (hw_flags \<Rightarrow> hw_flags) \<Rightarrow> u32 \<Rightarrow> u32 \<Rightarrow> u64 \<Rightarrow>
    'a hw_sc_scheme \<Rightarrow> (errno \<times> 'a hw_sc_scheme) option \<Rightarrow> bool" where
  "queue_contract opcode set_flag inst tgt pa sc r \<longleftrightarrow>
     (\<exists>rc sc'. r = Some (rc, sc') \<and>
       (if queue_allowed inst tgt sc
        then flags_of sc' = (if rc = OK then set_flag (flags_of sc) else flags_of sc) \<and>
          (\<exists>msg. mc_requests sc' = mc_requests sc @ [(opcode, msg)] \<and> length msg = 36 \<and>
             rd32 0 msg = 512 \<and> rd32 4 msg = tgt \<and> rd32 12 msg = inst \<and> rd64 28 msg = pa)
        else rc = EINVAL \<and> sc' = sc))"

lemma queue_contractI:
  assumes "mcdi_initialized sc"
    and "mc_ok r (if queue_allowed inst tgt sc then [(opcode, queue_msg 512 tgt inst pa fl)] else []) sc
      (\<lambda>rc sc'. flags_of sc' = (if rc = OK then set_flag (flags_of sc) else flags_of sc) \<and>
        mac_addr sc' = mac_addr sc \<and> vi_count sc' = vi_count sc \<and>
        (\<not> queue_allowed inst tgt sc \<longrightarrow> rc = EINVAL \<and> sc' = sc))"
  shows "queue_contract opcode set_flag inst tgt pa sc r"
proof -
  obtain rc sc' where r: "r = Some (rc, sc')"
    "mc_ran (if queue_allowed inst tgt sc then [(opcode, queue_msg 512 tgt inst pa fl)] else []) sc sc'"
    "flags_of sc' = (if rc = OK then set_flag (flags_of sc) else flags_of sc)"
    "\<not> queue_allowed inst tgt sc \<longrightarrow> rc = EINVAL \<and> sc' = sc"
    using assms(2) unfolding mc_ok_def by blast
  show ?thesis
  proof (cases "queue_allowed inst tgt sc")
    case True
    then have "mc_requests sc' = mc_requests sc @ [(opcode, queue_msg 512 tgt inst pa fl)]"
      using mc_ran_requests [OF r(2)] assms(1) by simp
    with True r(1,3) show ?thesis
      unfolding queue_contract_def
      by (intro exI [of _ rc] exI [of _ sc']) (simp add: queue_msg_fields)
  next
    case False
    with r(1,4) show ?thesis unfolding queue_contract_def by simp
  qed
qed

text \<open>
  Queue creation is guarded and complete. With the channel open, \<open>sfc7120_mcdi_init_rxq\<close> and
  \<open>sfc7120_mcdi_init_txq\<close> for a 512-entry ring never fault. If the vAdaptor is missing or the queue
  or event-queue number is not one of the VIs the MC granted, they answer EINVAL and send nothing.
  Otherwise they send exactly one request, of 36 bytes, that carries the ring size, the event queue,
  the instance and the full 64-bit ring address, and the driver's flag for the queue is set exactly
  when the MC accepts.
\<close>

theorem queue_init_requests:
  assumes "mcdi_initialized sc"
  shows "queue_contract 0x81 (hf_rxq_update (\<lambda>_. True)) inst tgt pa sc
      (sfc7120_mcdi_init_rxq env inst tgt pa 512 sc) \<and>
    queue_contract 0x82 (hf_txq_update (\<lambda>_. True)) inst tgt pa sc
      (sfc7120_mcdi_init_txq env inst tgt pa 512 sc)"
  using queue_contractI [where set_flag = "hf_rxq_update (\<lambda>_. True)", OF assms init_rxq_ok]
    queue_contractI [where set_flag = "hf_txq_update (\<lambda>_. True)", OF assms init_txq_ok]
  by blast

definition example_hw :: hw_sc where
  "example_hw = mcdi_sc.extend example_mcdi
     (hw_sc.fields [0, 1, 2, 3, 4, 5] 7 0 0 2 0 False (0, 0) True True True False True False False
        0 0 0 True True 10000 0 True True 0x1122334455667788 0 True dmabuf_null)"

lemma example_hw_simps [simp]:
  "mcdi_initialized example_hw" "vadaptor_allocated example_hw" "vi_count example_hw = 2"
  "evq_read_ptr example_hw = 7" "evq_initialized example_hw" "rx_filter_inserted example_hw"
  "mac_addr example_hw = [0, 1, 2, 3, 4, 5]" "rx_filter_handle example_hw = 0x1122334455667788"
  "trace example_hw = []"
  by (simp_all add: example_hw_def example_mcdi_def mcdi_sc.defs hw_sc.defs)

theorem queue_init_requests_witness:
  "\<exists>rc sc' msg. sfc7120_mcdi_init_rxq echo_mc 0 1 0x80002000 512 example_hw = Some (rc, sc') \<and>
     mc_requests sc' = mc_requests example_hw @ [(0x81, msg)] \<and> rd64 28 msg = 0x80002000"
proof -
  have "queue_allowed 0 1 example_hw" by (simp add: queue_allowed_def)
  with queue_init_requests [of example_hw 0 1 "0x80002000" echo_mc] show ?thesis
    unfolding queue_contract_def by auto
qed

text \<open>
  Creating the data event queue disturbs the control queue's bookkeeping. When
  \<open>sfc7120_mcdi_init_evq\<close> succeeds for any instance, also for the data queue 1, it resets the
  control queue's read pointer \<open>evq_read_ptr\<close> and marks the control queue initialised.
\<close>

theorem init_evq_resets_control_queue:
  assumes "sfc7120_mcdi_init_evq env inst pa 512 sc = Some (OK, sc')"
  shows "evq_read_ptr sc' = 0 \<and> flags_of sc' = (flags_of sc)\<lparr>hf_evq := True\<rparr>"
  using init_evq_ok [of env inst pa sc] assms by (auto simp: mc_ok_def)

lemma exec_response:
  assumes "mcdi_initialized sc" "length inp \<le> 248" "length out \<le> 248"
    and "\<And>tr m. resp_bit (get32 0 (e_mc_poll env tr m)) \<and>
      (\<exists>u out'. mcdi_outcome cmd (mcdi_seq sc AND 0x0f) out (e_mc_poll env tr m) = (OK, out', u))"
  shows "\<exists>out' used sc'. sfc7120_mcdi_exec env cmd inp out sc = Some (OK, out', used, sc')"
proof -
  have fits: "mcdi_fits cmd (length inp)" "mcdi_fits cmd (length out)" using assms(2,3) by simp_all
  obtain m where send: "sfc7120_mcdi_send_locked cmd inp (mcdi_seq sc AND 0x0f) sc =
      Some (mcdi_payload_off cmd,
        sc\<lparr>mcdi_buf := m,
           trace := trace sc @ [RegWr EF10_REG_MC_DB_LWRD (ucast (drop_bit 32 (mcdi_buf_paddr sc))),
             RegWr EF10_REG_MC_DB_HWRD (ucast (mcdi_buf_paddr sc AND 0xffffffff)), McRequest cmd inp]\<rparr>)"
    (is "_ = Some (_, ?sc1)")
    using send_locked_ok [OF fits(1)] by metis
  let ?m = "e_mc_poll env (trace ?sc1) m"
  from assms(4) [of "trace ?sc1" m] obtain u out' where resp: "resp_bit (get32 0 ?m)"
      "mcdi_outcome cmd (mcdi_seq sc AND 0x0f) out ?m = (OK, out', u)"
    by blast
  have "mcdi_poll_loop env 10 0 ?sc1 =
      Some (True, 0, ?sc1\<lparr>mcdi_buf := ?m, trace := trace ?sc1 @ [McPoll]\<rparr>)"
    using resp(1) by (subst mcdi_poll_loop.simps) (simp add: poll_response_eq)
  with send resp fits assms(1-3) show ?thesis
    by (simp add: sfc7120_mcdi_exec_def Let_def read_response_outcome)
qed

text \<open>
  An MC that answers every request with a long all-zero payload and the sequence number 5 that
  \<open>example_mcdi\<close> sends next.
\<close>

definition answering_mc :: env where
  "answering_mc = silent_mc\<lparr>e_mc_poll := (\<lambda>_ m. put32 4 0x3ff0000 (put32 0 0x85007f (\<lambda>_. 0)))\<rparr>"

lemma answering_mc_exec:
  assumes "cmd \<ge> 0x7f" "length inp \<le> 248" "length out \<le> 248"
  shows "\<exists>out' used sc'. sfc7120_mcdi_exec answering_mc cmd inp out example_hw = Some (OK, out', used, sc')"
proof -
  have seq: "mcdi_seq example_hw AND 0x0f = 5"
    by (simp add: example_hw_def example_mcdi_def mcdi_sc.defs hw_sc.defs)
  have "get32 0 (put32 4 0x3ff0000 (put32 0 0x85007f (\<lambda>_. 0))) = 0x85007f"
    by (simp add: get32_put32_other)
  then show ?thesis
    using assms by (intro exec_response)
      (simp_all add: seq answering_mc_def resp_bit_def mcdi_outcome_def err_bit_def Let_def
        mcdi_payload_off_def)
qed

theorem init_evq_resets_control_queue_witness:
  "\<exists>sc'. sfc7120_mcdi_init_evq answering_mc 1 0x80001000 512 example_hw = Some (OK, sc') \<and>
     evq_read_ptr example_hw = 7 \<and> evq_read_ptr sc' = 0"
proof -
  have "\<exists>sc'. sfc7120_mcdi_init_evq answering_mc 1 0x80001000 512 example_hw = Some (OK, sc')"
  proof -
    let ?buf = "evq_msg 512 1 0x80001000 0x38"
    have "\<exists>out' used sc'. sfc7120_mcdi_exec answering_mc 0x80 ?buf (replicate 4 0) example_hw =
        Some (OK, out', used, sc')"
      by (rule answering_mc_exec) (simp_all add: evq_msg_def)
    then show ?thesis
      by (auto simp: sfc7120_mcdi_init_evq_def Let_def evq_msg_def word_le_nat_alt)
  qed
  then show ?thesis
    using init_evq_resets_control_queue [of answering_mc 1 "0x80001000" example_hw] by fastforce
qed

section \<open>Filters, statistics and reboot\<close>

lemma filter_insert_mac_any:
  assumes "\<And>m. dst = Some m \<Longrightarrow> length m = 6"
  shows "\<exists>rc h sc'. sfc7120_mcdi_filter_insert_mac env dst mt sc = Some (rc, h, sc') \<and>
    (\<exists>reqs. mc_ran reqs sc sc') \<and> mc_same sc rc sc' \<and> (rc = OK \<longleftrightarrow> h \<noteq> None)"
proof -
  let ?b = "wr32 40 0xffffffff (wr32 28 0x0 (wr32 24 0 (wr32 20 0x1 (wr32 16 mt
                  (wr32 12 EVB_PORT_ID_ASSIGNED (wr32 0 0x0 (replicate 108 0)))))))"
  let ?buf = "case dst of None \<Rightarrow> ?b | Some m \<Rightarrow> wr_bytes 52 m ?b"
  have "length ?buf = 108" using assms by (auto split: option.split)
  then have fits: "mcdi_fits 0x8a (length ?buf)" "mcdi_fits 0x8a (length (replicate 12 (0 :: u8)))"
    by simp_all
  obtain rc out' used m q ep tr where
    ex: "sfc7120_mcdi_exec env 0x8a ?buf (replicate 12 0) sc = Some (rc, out', used, mcdi_ran_sc tr m q ep sc)"
    and len: "length out' = length (replicate 12 (0 :: u8))" and ev: "\<forall>e \<in> set tr. mc_event e"
    and rq: "concat (map request_of tr) = (if mcdi_initialized sc then [(0x8a, ?buf)] else [])"
    using exec_hw [OF fits, of env sc] unfolding mcdi_ran_sc_def by metis
  have "mc_ran [(0x8a, ?buf)] sc (mcdi_ran_sc tr m q ep sc)"
    using ev rq by (intro mc_ran_ex [of tr]) (simp_all add: mcdi_ran_sc_def)
  moreover have "mc_same sc rc' (mcdi_ran_sc tr m q ep sc)" for rc' by (simp add: mc_same_def)
  moreover have "(case dst of None \<Rightarrow> Some ?b | Some m \<Rightarrow> st_bytes 52 6 m ?b) = Some ?buf"
    using assms by (auto split: option.split)
  ultimately show ?thesis
    using len by (auto simp: sfc7120_mcdi_filter_insert_mac_def ex)
qed

lemma filter_insert_any:
  assumes "length (mac_addr sc) = 6"
  shows "mc_any (sfc7120_mcdi_filter_insert env sc) sc
    (\<lambda>rc sc'. flags_of sc' = (if rc = OK then (flags_of sc)\<lparr>hf_filter := True\<rparr> else flags_of sc))"
proof (cases "rx_filter_inserted sc")
  case True
  then show ?thesis by (auto simp: sfc7120_mcdi_filter_insert_def flags_of_def intro!: mc_any_Some0)
next
  case False
  obtain rc h sc1 where 1: "sfc7120_mcdi_filter_insert_mac env (Some (mac_addr sc)) (push_bit 4 1) sc = Some (rc, h, sc1)"
    "\<exists>reqs. mc_ran reqs sc sc1" "mc_same sc rc sc1" "rc = OK \<longleftrightarrow> h \<noteq> None"
    using filter_insert_mac_any [of "Some (mac_addr sc)" env "push_bit 4 1" sc] assms by auto
  show ?thesis
  proof (cases h)
    case None
    with 1 have "rc \<noteq> OK" by simp
    with None 1 False show ?thesis
      by (cases rc) (auto simp: sfc7120_mcdi_filter_insert_def mc_any_Some mc_same_def)
  next
    case (Some hv)
    with 1 have ok: "rc = OK" by simp
    let ?sc2 = "sc1\<lparr>rx_filter_handle := hv, rx_filter_inserted := True\<rparr>"
    obtain rc2 h2 sc3 where 2: "sfc7120_mcdi_filter_insert_mac env None (push_bit 30 1) ?sc2 = Some (rc2, h2, sc3)"
      "\<exists>reqs. mc_ran reqs ?sc2 sc3" "mc_same ?sc2 rc2 sc3"
      using filter_insert_mac_any [of None env "push_bit 30 1" ?sc2] by auto
    let ?sc4 = "case (rc2, h2) of (OK, Some h) \<Rightarrow> sc3\<lparr>rx_filter_bcast_handle := h\<rparr> | _ \<Rightarrow> sc3"
    have 4: "mc_ran [] sc3 ?sc4 \<and> flags_of ?sc4 = flags_of sc3"
      by (auto split: errno.split option.split)
    have "mc_ran [] sc1 ?sc2" by simp
    with 1(2) 2(2) 4 have "\<exists>reqs. mc_ran reqs sc ?sc4" by (meson mc_ran_trans)
    moreover have "flags_of ?sc4 = (flags_of sc)\<lparr>hf_filter := True\<rparr>"
      using 1(3) 2(3) 4 by (simp add: mc_same_def)
    ultimately show ?thesis
      using False 1(1) 2(1) Some ok by (simp add: sfc7120_mcdi_filter_insert_def mc_any_Some)
  qed
qed

lemma mac_stats_any: "mc_any (sfc7120_mcdi_mac_stats env sc) sc (mc_same sc)"
  by (cases "db_va (stats_dma sc) = 0")
    (auto simp: sfc7120_mcdi_mac_stats_def Let_def mc_same_def intro!: mc_any_exec mc_any_Some0)

lemma reboot_wait_spec:
  "reboot_wait env n v sc = (hw, sc') \<Longrightarrow> (\<exists>tr. sc' = sc\<lparr>trace := trace sc @ tr\<rparr> \<and> length tr \<le> 2 * n)"
proof (induction n arbitrary: v sc)
  case 0
  then show ?case by (auto intro: exI [of _ "[]"])
next
  case (Suc n)
  let ?hw = "e_reg_rd env (trace sc) EF10_REG_BIU_HW_REV_ID"
  show ?case
  proof (cases "?hw = EF10_REG_BIU_HW_REV_ID_RESET")
    case True
    with Suc.prems show ?thesis
      by (auto simp: SFC7120_READ_REG_def io_def intro!: exI [of _ "[RegRd 0]"])
  next
    case False
    with Suc.prems have "reboot_wait env n ?hw (io [RegRd 0, Delay 1000] sc) = (hw, sc')"
      by (simp add: SFC7120_READ_REG_def io_def)
    from Suc.IH [OF this] obtain tr where
      "sc' = (io [RegRd 0, Delay 1000] sc)\<lparr>trace := trace (io [RegRd 0, Delay 1000] sc) @ tr\<rparr>"
      "length tr \<le> 2 * n" by blast
    then show ?thesis by (auto simp: io_def intro!: exI [of _ "RegRd 0 # Delay 1000 # tr"])
  qed
qed

lemma reboot_never_faults: "sfc7120_mcdi_reboot_after_assertion env sc \<noteq> None"
proof -
  have "\<exists>rc out' used sc'. sfc7120_mcdi_exec env 0x3d (wr32 0 0x1 (replicate 4 0)) [] sc = Some (rc, out', used, sc')"
    by (rule mc.ex_total) simp_all
  then show ?thesis
    by (auto simp: sfc7120_mcdi_reboot_after_assertion_def Let_def split: prod.split)
qed

lemma mc_any_not_None: "mc_any r sc Q \<Longrightarrow> r \<noteq> None"
  by (auto simp: mc_any_def mc_ok_def)

lemma mc_ok_not_None: "mc_ok r rq sc Q \<Longrightarrow> r \<noteq> None"
  by (auto simp: mc_ok_def)

text \<open>
  C36: No MC command of the driver can fault. Whatever the firmware answers and whether or not the
  channel is open, every wrapper (with 512-entry queues and a six-byte MAC address in the softc)
  returns: every field it writes lies in its request buffer, every field it reads lies in its response
  buffer, all requests and responses fit the mailbox, in both header formats, and no KASSERT fails.
\<close>

theorem mc_commands_never_fault:
  assumes "length (mac_addr sc) = 6"
  shows "sfc7120_mcdi_get_version env sc \<noteq> None \<and> sfc7120_mcdi_drv_attach env sc \<noteq> None \<and>
    sfc7120_mcdi_clear_assertions env sc \<noteq> None \<and> sfc7120_mcdi_entity_reset env sc \<noteq> None \<and>
    sfc7120_mcdi_get_mac env sc \<noteq> None \<and> sfc7120_mcdi_dump_func_info env sc \<noteq> None \<and>
    sfc7120_mcdi_alloc_vis env mn mx sc \<noteq> None \<and> sfc7120_mcdi_vadaptor_alloc env sc \<noteq> None \<and>
    sfc7120_mcdi_get_phy_cfg env sc \<noteq> None \<and> sfc7120_mcdi_set_mac env sc \<noteq> None \<and>
    sfc7120_mcdi_set_link env sc \<noteq> None \<and> sfc7120_mcdi_get_link env sc \<noteq> None \<and>
    sfc7120_mcdi_init_evq env inst pa 512 sc \<noteq> None \<and>
    sfc7120_mcdi_init_rxq env inst tgt pa 512 sc \<noteq> None \<and>
    sfc7120_mcdi_init_txq env inst tgt pa 512 sc \<noteq> None \<and>
    sfc7120_mcdi_filter_insert env sc \<noteq> None \<and> sfc7120_mcdi_filter_remove env sc \<noteq> None \<and>
    sfc7120_mcdi_fini_txq env inst sc \<noteq> None \<and> sfc7120_mcdi_fini_rxq env inst sc \<noteq> None \<and>
    sfc7120_mcdi_fini_evq env inst sc \<noteq> None \<and> sfc7120_mcdi_vadaptor_free env sc \<noteq> None \<and>
    sfc7120_mcdi_free_vis env sc \<noteq> None \<and> sfc7120_mcdi_drv_detach env sc \<noteq> None \<and>
    sfc7120_mcdi_mac_stats env sc \<noteq> None \<and> sfc7120_mcdi_reboot_after_assertion env sc \<noteq> None"
  by (intro conjI get_version_any [THEN mc_any_not_None] drv_attach_any [THEN mc_any_not_None]
      clear_assertions_any [THEN mc_any_not_None] entity_reset_any [THEN mc_any_not_None]
      get_mac_any [THEN mc_any_not_None] dump_func_info_any [THEN mc_any_not_None]
      alloc_vis_any [THEN mc_any_not_None] vadaptor_alloc_any [THEN mc_any_not_None]
      get_phy_cfg_any [THEN mc_any_not_None] set_mac_any [OF assms, THEN mc_any_not_None]
      set_link_any [THEN mc_any_not_None] get_link_any [THEN mc_any_not_None]
      init_evq_ok [THEN mc_ok_not_None] init_rxq_ok [THEN mc_ok_not_None]
      init_txq_ok [THEN mc_ok_not_None] filter_insert_any [OF assms, THEN mc_any_not_None]
      filter_remove_ok [THEN mc_ok_not_None] fini_txq_ok [THEN mc_ok_not_None]
      fini_rxq_ok [THEN mc_ok_not_None] fini_evq_ok [THEN mc_ok_not_None]
      vadaptor_free_ok [THEN mc_ok_not_None] free_vis_ok [THEN mc_ok_not_None]
      drv_detach_ok [THEN mc_ok_not_None] mac_stats_any [THEN mc_any_not_None] reboot_never_faults)

theorem mc_commands_never_fault_witness:
  "sfc7120_mcdi_set_mac silent_mc example_hw \<noteq> None \<and>
   sfc7120_mcdi_filter_insert silent_mc example_hw \<noteq> None"
  using mc_commands_never_fault [of example_hw silent_mc] by simp

text \<open>
  The unicast filter is removed by the handle the firmware gave out. With a filter installed and
  the channel open, \<open>sfc7120_mcdi_filter_remove\<close> sends one FILTER_OP request with operation REMOVE
  whose 64-bit handle field is the stored handle; the filter then counts as removed whatever the MC
  answers, and a second call sends nothing.
\<close>

theorem filter_remove_uses_handle:
  assumes "mcdi_initialized sc" "rx_filter_inserted sc"
  shows "\<exists>rc sc' msg. sfc7120_mcdi_filter_remove env sc = Some (rc, sc') \<and>
    mc_requests sc' = mc_requests sc @ [(0x8a, msg)] \<and> rd32 0 msg = 1 \<and>
    rd64 4 msg = rx_filter_handle sc \<and> flags_of sc' = (flags_of sc)\<lparr>hf_filter := False\<rparr> \<and>
    sfc7120_mcdi_filter_remove env sc' = Some (OK, sc')"
proof -
  let ?msg = "filter_remove_msg (rx_filter_handle sc)"
  from filter_remove_ok [of env sc] assms obtain rc sc' where
    r: "sfc7120_mcdi_filter_remove env sc = Some (rc, sc')" "mc_ran [(0x8a, ?msg)] sc sc'"
    "flags_of sc' = (flags_of sc)\<lparr>hf_filter := False\<rparr>"
    by (auto simp: mc_ok_def)
  have "rd32 0 ?msg = 1" by (simp add: filter_remove_msg_def buf_field_simps)
  moreover have "rd64 4 ?msg = rx_filter_handle sc"
    by (simp add: filter_remove_msg_def rd64_def rd32_wr32_same rd32_wr32_other word_hi_lo)
  moreover have "\<not> rx_filter_inserted sc'"
    using r(3) hf_flags_of(8) [of sc'] by simp
  ultimately show ?thesis
    using r mc_ran_requests [OF r(2)] assms(1) by (auto simp: sfc7120_mcdi_filter_remove_def)
qed

theorem filter_remove_uses_handle_witness:
  "\<exists>rc sc' msg. sfc7120_mcdi_filter_remove silent_mc example_hw = Some (rc, sc') \<and>
     mc_requests sc' = [(0x8a, msg)] \<and> rd64 4 msg = 0x1122334455667788"
proof -
  have "mc_requests example_hw = []" by (simp add: mc_requests_def)
  then show ?thesis
    using filter_remove_uses_handle [of example_hw silent_mc] by auto
qed

end
