(* ===== verification/Capio.thy ===== *)
theory Capio
  imports Regs
begin

text \<open>
  The CAPIO framework (\<^verbatim>\<open>capio.c\<close>, \<^verbatim>\<open>capio.h\<close>): the sealed access token, the
  table of shared memory regions, the pager callbacks, the \<open>mmap\<close> and \<open>ioctl\<close> entry
  points. Each definition below is one function of the source. What the kernel's VM system
  answers (\<open>vm_map_lookup\<close>, \<open>vm_map_remove\<close>, \<open>cdev_pager_allocate\<close>,
  \<open>pmap_kextract\<close>) and what the driver's \<open>capio_ops\<close> return are arguments.
  The lock \<open>cap_mtx\<close> has no value of its own in the model: a region of the source between
  CAP_LOCK and CAP_UNLOCK is one atomic update, and \<open>capio_mmap_single_extra\<close> is split at the
  point where it drops the lock.
\<close>

section \<open>CHERI capabilities\<close>

text \<open>
  A capability as the C language sees it: validity tag, address, bounds, the three permissions the
  code looks at, and the object type it is sealed with. \<open>==\<close> on capabilities compares
  addresses, so the test against NULL is a test of the address.
\<close>

record capability =
  c_tag :: bool
  c_addr :: nat
  c_base :: nat
  c_len :: nat
  c_perm_load :: bool
  c_perm_seal :: bool
  c_perm_unseal :: bool
  c_otype :: "nat option"

definition null_cap :: capability where
  "null_cap = \<lparr>c_tag = False, c_addr = 0, c_base = 0, c_len = 0, c_perm_load = False,
     c_perm_seal = False, c_perm_unseal = False, c_otype = None\<rparr>"

definition cap_is_null :: "capability \<Rightarrow> bool" where
  "cap_is_null c \<longleftrightarrow> c_addr c = 0"

definition cap_in_bounds :: "capability \<Rightarrow> bool" where
  "cap_in_bounds c \<longleftrightarrow> c_base c \<le> c_addr c \<and> c_addr c < c_base c + c_len c"

definition cheri_setaddress :: "capability \<Rightarrow> nat \<Rightarrow> capability" where
  "cheri_setaddress c a = c\<lparr>c_addr := a, c_tag := c_tag c \<and> c_otype c = None\<rparr>"

definition cheri_setbounds :: "capability \<Rightarrow> nat \<Rightarrow> capability" where
  "cheri_setbounds c l =
     c\<lparr>c_base := c_addr c, c_len := l,
       c_tag := c_tag c \<and> c_otype c = None \<and> c_base c \<le> c_addr c \<and>
                c_addr c + l \<le> c_base c + c_len c\<rparr>"

definition cheri_seal :: "capability \<Rightarrow> capability \<Rightarrow> capability" where
  "cheri_seal c k =
     c\<lparr>c_otype := Some (c_addr k),
       c_tag := c_tag c \<and> c_tag k \<and> c_otype c = None \<and> c_otype k = None \<and>
                c_perm_seal k \<and> cap_in_bounds k\<rparr>"

definition cheri_unseal :: "capability \<Rightarrow> capability \<Rightarrow> capability" where
  "cheri_unseal c k =
     c\<lparr>c_otype := None,
       c_tag := c_tag c \<and> c_tag k \<and> c_otype c = Some (c_addr k) \<and> c_otype k = None \<and>
                c_perm_unseal k \<and> cap_in_bounds k\<rparr>"

definition cheri_ptr_equal_exact :: "capability \<Rightarrow> capability \<Rightarrow> bool" where
  "cheri_ptr_equal_exact a b \<longleftrightarrow> a = b"

section \<open>State\<close>

record shared_mem_region_t =
  smr_type :: int
  smr_is_physical :: bool
  smr_addr :: nat
  smr_paddr :: nat
  smr_offset :: nat
  smr_len :: nat
  smr_mapped :: bool
  smr_is_sliced :: bool
  smr_slice_definitions :: "slice_def_t list option"
  smr_slice_def_len :: nat

record cap_req_t =
  cr_user_cap :: capability
  cr_sealed_cap :: capability

record map_req_t = cap_req_t +
  mr_map_type :: int
  mr_is_sliced :: bool
  mr_slice_definitions :: "slice_def_t list option"
  mr_slice_def_length :: nat

record capio_softc_t =
  sealing_key :: capability
  original_cap :: capability
  sealed_cap :: capability
  cs_mapped :: bool
  shared_mem_regs :: "shared_mem_region_t list"

record region_sizes_t =
  region_length :: nat
  slice_def_length :: nat

definition capio_softc_zero :: capio_softc_t where
  "capio_softc_zero = \<lparr>sealing_key = null_cap, original_cap = null_cap, sealed_cap = null_cap,
     cs_mapped = False, shared_mem_regs = []\<rparr>"

section \<open>modmap callbacks\<close>

fun vaddr_loop ::
  "int \<Rightarrow> nat \<Rightarrow> nat \<Rightarrow> shared_mem_region_t list \<Rightarrow> bool \<times> shared_mem_region_t list" where
  "vaddr_loop t vaddr len [] = (False, [])"
| "vaddr_loop t vaddr len (smem # rest) =
     (if smr_type smem = t then (True, smem\<lparr>smr_offset := vaddr, smr_len := len\<rparr> # rest)
      else (case vaddr_loop t vaddr len rest of (found, rest') \<Rightarrow> (found, smem # rest')))"

definition capio_vaddr_callback ::
  "nat \<Rightarrow> nat \<Rightarrow> int \<Rightarrow> capio_softc_t \<Rightarrow> errno \<times> capio_softc_t" where
  "capio_vaddr_callback vaddr len map_type sc =
     (case vaddr_loop map_type vaddr len (shared_mem_regs sc) of
        (region_found, regs) \<Rightarrow>
          (if region_found then OK else EINVAL, sc\<lparr>shared_mem_regs := regs\<rparr>))"

fun find_region :: "int \<Rightarrow> shared_mem_region_t list \<Rightarrow> shared_mem_region_t option" where
  "find_region t [] = None"
| "find_region t (smem # rest) = (if smr_type smem = t then Some smem else find_region t rest)"

definition capio_slice_length_callback :: "int \<Rightarrow> capio_softc_t \<Rightarrow> region_sizes_t" where
  "capio_slice_length_callback map_type sc =
     (case find_region map_type (shared_mem_regs sc) of
        None \<Rightarrow> \<lparr>region_length = 0, slice_def_length = 0\<rparr>
      | Some smem \<Rightarrow> \<lparr>region_length = smr_len smem, slice_def_length = smr_slice_def_len smem\<rparr>)"

section \<open>Initialisation\<close>

text \<open>\<open>root\<close> is the kernel's \<open>kernel_root_sealcap\<close>.\<close>

definition create_sealing_key :: "capability \<Rightarrow> nat \<Rightarrow> capability" where
  "create_sealing_key root ident =
     (if c_base root \<le> ident then null_cap
      else cheri_setbounds (cheri_setaddress root (c_base root + ident)) 1)"

definition init_capio_sc ::
  "capability \<Rightarrow> shared_mem_region_t list \<Rightarrow> capio_softc_t \<Rightarrow> capio_softc_t" where
  "init_capio_sc root smem sc =
     sc\<lparr>sealing_key := create_sealing_key root 0x1234, shared_mem_regs := smem\<rparr>"

section \<open>The access token\<close>

definition check_cap_token :: "capio_softc_t \<Rightarrow> capability \<Rightarrow> errno" where
  "check_cap_token sc cap_token =
     (if cap_is_null (sealed_cap sc) then EINVAL
      else if cap_is_null cap_token then EINVAL
      else if \<not> cheri_ptr_equal_exact (cheri_unseal cap_token (sealing_key sc)) (original_cap sc)
      then EPERM
      else OK)"

definition set_cap_token :: "capio_softc_t \<Rightarrow> 'a cap_req_t_scheme \<Rightarrow>
    errno \<times> capio_softc_t \<times> 'a cap_req_t_scheme" where
  "set_cap_token sc req =
     (if cap_is_null (cr_user_cap req) \<or> \<not> cap_is_null (sealed_cap sc) then (EINVAL, sc, req)
      else let sealed = cheri_seal (cr_user_cap req) (sealing_key sc)
           in (OK, sc\<lparr>original_cap := cr_user_cap req, sealed_cap := sealed\<rparr>,
               req\<lparr>cr_sealed_cap := sealed\<rparr>))"

text \<open>Answers of the VM system to one call of \<open>delete_mapping_from_user\<close>.\<close>

datatype kern_return = KERN_SUCCESS | KERN_INVALID_ADDRESS | KERN_OTHER nat

record vm_answers =
  va_vmspace_null :: bool
  va_lookup :: kern_return
  va_remove :: kern_return

definition delete_mapping_from_user :: "vm_answers \<Rightarrow> errno" where
  "delete_mapping_from_user vm =
     (if va_vmspace_null vm then OK
      else if va_lookup vm \<noteq> KERN_SUCCESS then OK
      else (case va_remove vm of
              KERN_SUCCESS \<Rightarrow> OK
            | KERN_INVALID_ADDRESS \<Rightarrow> OK
            | KERN_OTHER e \<Rightarrow> EIO))"

text \<open>
  The region loop of \<open>revoke_cap_token\<close>; \<open>vm i\<close> are the VM answers for region \<open>i\<close>,
  and the accumulator is the local variable \<open>error\<close>.
\<close>

fun revoke_loop :: "(nat \<Rightarrow> vm_answers) \<Rightarrow> nat \<Rightarrow> errno \<Rightarrow> shared_mem_region_t list \<Rightarrow>
    errno \<times> shared_mem_region_t list" where
  "revoke_loop vm i error [] = (error, [])"
| "revoke_loop vm i error (smem # rest) =
     (let (error', smem') =
            (if smr_offset smem \<noteq> 0 then
               (let e = delete_mapping_from_user (vm i)
                in (e, if e = OK then smem\<lparr>smr_offset := 0\<rparr> else smem))
             else (error, smem))
      in case revoke_loop vm (Suc i) error' rest of (e, rest') \<Rightarrow> (e, smem' # rest'))"

definition revoke_cap_token ::
  "(nat \<Rightarrow> vm_answers) \<Rightarrow> capio_softc_t \<Rightarrow> errno \<times> capio_softc_t" where
  "revoke_cap_token vm sc =
     (case revoke_loop vm 0 OK (shared_mem_regs sc) of
        (error, regs) \<Rightarrow>
          (error, sc\<lparr>original_cap := null_cap, sealed_cap := null_cap, shared_mem_regs := regs\<rparr>))"

definition grant_access :: "capio_softc_t option \<Rightarrow> 'a cap_req_t_scheme \<Rightarrow>
    errno \<times> capio_softc_t option \<times> 'a cap_req_t_scheme" where
  "grant_access header req =
     (case header of
        None \<Rightarrow> (EINVAL, None, req)
      | Some sc \<Rightarrow> (case set_cap_token sc req of (_, sc', req') \<Rightarrow> (OK, Some sc', req')))"

definition revoke_access ::
  "(nat \<Rightarrow> vm_answers) \<Rightarrow> capio_softc_t option \<Rightarrow> errno \<times> capio_softc_t option" where
  "revoke_access vm header =
     (case header of
        None \<Rightarrow> (EINVAL, None)
      | Some sc \<Rightarrow> (case revoke_cap_token vm sc of (e, sc') \<Rightarrow> (e, Some sc')))"

section \<open>Pager callbacks\<close>

definition capio_pager_ctor :: "int \<Rightarrow> capio_softc_t \<Rightarrow> errno \<times> capio_softc_t" where
  "capio_pager_ctor t sc =
     (OK, sc\<lparr>cs_mapped := True,
            shared_mem_regs :=
              map (\<lambda>smem. if smr_type smem = t then smem\<lparr>smr_mapped := True\<rparr> else smem)
                (shared_mem_regs sc)\<rparr>)"

fun dtor_loop :: "int \<Rightarrow> bool \<Rightarrow> shared_mem_region_t list \<Rightarrow> bool \<times> shared_mem_region_t list" where
  "dtor_loop t no_mapped [] = (no_mapped, [])"
| "dtor_loop t no_mapped (smem # rest) =
     (let smem' = (if smr_type smem = t then smem\<lparr>smr_mapped := False\<rparr> else smem);
          no_mapped' = (if smr_mapped smem' then False else no_mapped)
      in case dtor_loop t no_mapped' rest of (nm, rest') \<Rightarrow> (nm, smem' # rest'))"

definition capio_pager_dtor :: "int \<Rightarrow> capio_softc_t \<Rightarrow> capio_softc_t" where
  "capio_pager_dtor t sc =
     (case dtor_loop t True (shared_mem_regs sc) of
        (no_mapped, regs) \<Rightarrow>
          sc\<lparr>shared_mem_regs := regs, cs_mapped := (if no_mapped then False else cs_mapped sc)\<rparr>)"

datatype vm_memattr = VM_MEMATTR_DEFAULT | VM_MEMATTR_DEVICE

text \<open>
  The device VM object behind a mapping: the region type its handle (\<open>vm_object_handle_t\<close>)
  names, the size in bytes it was allocated with, and its memory attribute.
\<close>

record vm_object =
  vo_type :: int
  vo_size :: nat
  vo_memattr :: vm_memattr

text \<open>
  The page a fault at \<open>off\<close> installs, as its physical address and attribute; \<open>None\<close> is
  VM_PAGER_BAD. The existing page is updated in place when it is fictitious and replaced
  otherwise (the Boolean of the result); the installed page is the same.
\<close>

definition capio_pager_fault :: "(nat \<Rightarrow> nat) \<Rightarrow> bool \<Rightarrow> vm_object \<Rightarrow> nat \<Rightarrow> capio_softc_t \<Rightarrow>
    (nat \<times> vm_memattr \<times> bool) option" where
  "capio_pager_fault pmap_kextract fictitious obj off sc =
     (case find_region (vo_type obj) (shared_mem_regs sc) of
        None \<Rightarrow> None
      | Some smem \<Rightarrow>
          (if smr_is_physical smem
           then Some (smr_paddr smem + off, VM_MEMATTR_DEVICE, \<not> fictitious)
           else Some (pmap_kextract (smr_addr smem + off), VM_MEMATTR_DEFAULT, \<not> fictitious)))"

section \<open>mmap\<close>

text \<open>
  The request (\<open>extra\<close>), the byte offset (the value the non-NULL \<open>offset\<close> points to), the
  length and whether the protection asks for capability load or store. \<open>extra\<close> and the softc
  may be NULL.
\<close>

record mmap_args =
  ma_extra :: "map_req_t option"
  ma_offset :: nat
  ma_size :: nat
  ma_cap_prot :: bool

text \<open>What \<open>capio_ops\<close> answer, and whether \<open>malloc\<close> and \<open>cdev_pager_allocate\<close> succeed.\<close>

record mmap_env =
  me_buffer_size :: "int \<Rightarrow> nat"
  me_dying_before :: bool
  me_malloc_ok :: bool
  me_pager_ok :: bool
  me_dying_after :: bool

record mmap_prep =
  mp_buffer_size :: nat
  mp_is_sliced :: bool
  mp_slice_def :: "slice_def_t list option"
  mp_slice_def_len :: nat
  mp_memattr :: vm_memattr

text \<open>Everything up to the second CAP_UNLOCK: validation, and the lookup of the region.\<close>

definition mmap_check ::
  "mmap_env \<Rightarrow> mmap_args \<Rightarrow> capio_softc_t \<Rightarrow> map_req_t \<Rightarrow> errno + mmap_prep" where
  "mmap_check env args sc req =
     (let error = check_cap_token sc (cr_sealed_cap req) in
      if error \<noteq> OK then Inl error
      else if ma_cap_prot args then Inl EINVAL
      else if ma_offset args \<noteq> 0 then Inl EINVAL
      else if me_dying_before env then Inl ENXIO
      else if \<not> c_tag (cr_user_cap req) then Inl EINVAL
      else let buffer_size = me_buffer_size env (mr_map_type req) in
      if ma_size args \<noteq> buffer_size then Inl EINVAL
      else (case find_region (mr_map_type req) (shared_mem_regs sc) of
              None \<Rightarrow> Inr \<lparr>mp_buffer_size = buffer_size, mp_is_sliced = False, mp_slice_def = None,
                          mp_slice_def_len = 0, mp_memattr = VM_MEMATTR_DEFAULT\<rparr>
            | Some smem \<Rightarrow>
                if smr_mapped smem then Inl EINVAL
                else Inr \<lparr>mp_buffer_size = buffer_size, mp_is_sliced = smr_is_sliced smem,
                          mp_slice_def = smr_slice_definitions smem,
                          mp_slice_def_len = smr_slice_def_len smem,
                          mp_memattr = (if smr_is_physical smem then VM_MEMATTR_DEVICE
                                        else VM_MEMATTR_DEFAULT)\<rparr>))"

text \<open>
  The rest: allocate the handle and the VM object (\<open>cdev_pager_allocate\<close> runs the pager
  constructor on the new object), set its memory attribute, re-check for a concurrent detach, fill
  in the reply. The third and fourth component of the result are the VM object that now exists, if
  any, and whether it was returned to the caller in \<open>*object\<close>.
\<close>

definition mmap_commit :: "mmap_env \<Rightarrow> mmap_prep \<Rightarrow> capio_softc_t \<Rightarrow> map_req_t \<Rightarrow>
    errno \<times> capio_softc_t \<times> map_req_t \<times> vm_object option \<times> bool" where
  "mmap_commit env prep sc req =
     (if \<not> me_malloc_ok env then (ENOMEM, sc, req, None, False)
      else if \<not> me_pager_ok env then (ENXIO, sc, req, None, False)
      else let sc' = snd (capio_pager_ctor (mr_map_type req) sc);
               obj = \<lparr>vo_type = mr_map_type req, vo_size = mp_buffer_size prep,
                      vo_memattr = mp_memattr prep\<rparr> in
      if me_dying_after env then (ENXIO, sc', req, Some obj, False)
      else (OK, sc',
            req\<lparr>mr_is_sliced := mp_is_sliced prep, mr_slice_definitions := mp_slice_def prep,
                mr_slice_def_length := mp_slice_def_len prep\<rparr>,
            Some obj, True))"

definition capio_mmap_single_extra :: "mmap_env \<Rightarrow> mmap_args \<Rightarrow> capio_softc_t option \<Rightarrow>
    errno \<times> capio_softc_t option \<times> map_req_t option \<times> vm_object option \<times> bool" where
  "capio_mmap_single_extra env args header =
     (case (ma_extra args, header) of
        (Some req, Some sc) \<Rightarrow>
          (case mmap_check env args sc req of
             Inl error \<Rightarrow> (error, Some sc, Some req, None, False)
           | Inr prep \<Rightarrow>
               (case mmap_commit env prep sc req of
                  (e, sc', req', obj, returned) \<Rightarrow> (e, Some sc', Some req', obj, returned)))
      | _ \<Rightarrow> (EINVAL, header, ma_extra args, None, False))"

section \<open>ioctl\<close>

datatype 'c capio_cmd = CAPIO_ATTACH | CAPIO_GOODBYE | DriverCmd 'c

text \<open>
  \<open>drv\<close> is the driver's own \<open>ioctl\<close> (\<open>capio_ops->ioctl\<close>), acting on the driver
  state \<open>'d\<close> that the softc holds beside the CAPIO header.
\<close>

definition capio_ioctl_handler ::
  "('c \<Rightarrow> 'd \<Rightarrow> errno \<times> 'd) \<Rightarrow> (nat \<Rightarrow> vm_answers) \<Rightarrow> 'c capio_cmd \<Rightarrow> 'a cap_req_t_scheme \<Rightarrow>
    (capio_softc_t \<times> 'd) option \<Rightarrow>
    errno \<times> 'a cap_req_t_scheme \<times> (capio_softc_t \<times> 'd) option" where
  "capio_ioctl_handler drv vm cmd req header =
     (case header of
        None \<Rightarrow> (EINVAL, req, None)
      | Some (sc, d) \<Rightarrow>
          (if cmd \<noteq> CAPIO_ATTACH \<and> check_cap_token sc (cr_sealed_cap req) \<noteq> OK
           then (EPERM, req, Some (sc, d))
           else (case cmd of
                   CAPIO_ATTACH \<Rightarrow>
                     (case set_cap_token sc req of (e, sc', req') \<Rightarrow> (e, req', Some (sc', d)))
                 | CAPIO_GOODBYE \<Rightarrow>
                     (case revoke_cap_token vm sc of (e, sc') \<Rightarrow> (e, req, Some (sc', d)))
                 | DriverCmd c \<Rightarrow> (case drv c d of (e, d') \<Rightarrow> (e, req, Some (sc, d'))))))"

section \<open>The sealing contract\<close>

text \<open>
  What the token protocol needs of the sealing instructions: unsealing undoes sealing under a valid
  key, and a tagged result of unsealing can only come from the capability sealed under that key.
\<close>

locale token_sealing =
  fixes seal unseal :: "'c \<Rightarrow> 'k \<Rightarrow> 'c"
    and genuine :: "'c \<Rightarrow> bool"
    and valid_key :: "'k \<Rightarrow> bool"
  assumes unseal_seal: "\<lbrakk>valid_key k; genuine c\<rbrakk> \<Longrightarrow> unseal (seal c k) k = c"
    and unseal_genuine: "\<lbrakk>valid_key k; genuine (unseal t k)\<rbrakk> \<Longrightarrow> t = seal (unseal t k) k"
begin

lemma token_unique:
  assumes "valid_key k" "genuine c"
  shows "unseal t k = c \<longleftrightarrow> t = seal c k"
  using assms unseal_seal unseal_genuine by metis

lemma seal_inj:
  assumes "valid_key k" "genuine c" "genuine c'" "seal c k = seal c' k"
  shows "c = c'"
  using assms unseal_seal by metis

end

definition genuine_cap :: "capability \<Rightarrow> bool" where
  "genuine_cap c \<longleftrightarrow> c_tag c \<and> c_otype c = None"

definition valid_sealing_key :: "capability \<Rightarrow> bool" where
  "valid_sealing_key k \<longleftrightarrow> c_tag k \<and> c_otype k = None \<and> c_perm_seal k \<and> c_perm_unseal k \<and>
     cap_in_bounds k"

interpretation cheri: token_sealing cheri_seal cheri_unseal genuine_cap valid_sealing_key
  by unfold_locales
    (auto simp: cheri_seal_def cheri_unseal_def genuine_cap_def valid_sealing_key_def)

lemma c_addr_seal [simp]: "c_addr (cheri_seal c k) = c_addr c"
  by (simp add: cheri_seal_def)

lemma cap_is_null_seal [simp]: "cap_is_null (cheri_seal c k) = cap_is_null c"
  by (simp add: cap_is_null_def)

lemma cap_is_null_null_cap [simp]: "cap_is_null null_cap"
  by (simp add: cap_is_null_def null_cap_def)

lemma create_sealing_key_valid:
  assumes "c_tag root" "c_otype root = None" "c_perm_seal root" "c_perm_unseal root"
    and "ident < c_base root" "ident < c_len root"
  shows "valid_sealing_key (create_sealing_key root ident)"
  using assms
  by (simp add: create_sealing_key_def valid_sealing_key_def cheri_setbounds_def
      cheri_setaddress_def cap_in_bounds_def)

text \<open>
  The token state is either empty or holds a capability and its sealed form; every operation keeps
  this.
\<close>

definition token_wf :: "capio_softc_t \<Rightarrow> bool" where
  "token_wf sc \<longleftrightarrow>
     (original_cap sc = null_cap \<and> sealed_cap sc = null_cap) \<or>
     (\<not> cap_is_null (original_cap sc) \<and>
      sealed_cap sc = cheri_seal (original_cap sc) (sealing_key sc))"

definition attached :: "capio_softc_t \<Rightarrow> bool" where
  "attached sc \<longleftrightarrow> \<not> cap_is_null (sealed_cap sc)"

lemma check_cap_token_OK_iff:
  assumes "token_wf sc" "valid_sealing_key (sealing_key sc)" "genuine_cap (original_cap sc)"
  shows "check_cap_token sc t = OK \<longleftrightarrow> t = sealed_cap sc"
proof -
  from assms have wf: "\<not> cap_is_null (original_cap sc)"
      "sealed_cap sc = cheri_seal (original_cap sc) (sealing_key sc)"
    by (auto simp: token_wf_def genuine_cap_def null_cap_def)
  with cheri.token_unique [OF assms(2,3), of t] show ?thesis
    by (auto simp: check_cap_token_def cheri_ptr_equal_exact_def)
qed

lemma set_cap_token_fields:
  assumes "set_cap_token sc req = (e, sc', req')"
  shows "sealing_key sc' = sealing_key sc" "cs_mapped sc' = cs_mapped sc"
    "shared_mem_regs sc' = shared_mem_regs sc"
  using assms by (auto simp: set_cap_token_def Let_def split: if_splits)

lemma token_wf_set_cap_token:
  assumes "token_wf sc" "set_cap_token sc req = (e, sc', req')"
  shows "token_wf sc'"
  using assms by (auto simp: set_cap_token_def token_wf_def Let_def split: if_splits)

lemma revoke_cap_token_fields:
  assumes "revoke_cap_token vm sc = (e, sc')"
  shows "original_cap sc' = null_cap" "sealed_cap sc' = null_cap"
    "sealing_key sc' = sealing_key sc" "cs_mapped sc' = cs_mapped sc"
  using assms by (auto simp: revoke_cap_token_def split: prod.splits)

lemma token_wf_revoke:
  "revoke_cap_token vm sc = (e, sc') \<Longrightarrow> token_wf sc'"
  by (simp add: token_wf_def revoke_cap_token_fields)

text \<open>
  C1: After a successful CAPIO_ATTACH with a valid (tagged, unsealed) capability, on a device whose
  sealing key was derived from a usable root sealing capability, exactly one value passes the
  token check: the sealed capability that the ioctl handed back to the caller.
\<close>

theorem attach_token_exact:
  assumes key: "valid_sealing_key (sealing_key sc)"
    and user: "genuine_cap (cr_user_cap req)"
    and attach: "capio_ioctl_handler drv vm CAPIO_ATTACH req (Some (sc, d)) =
      (OK, req', Some (sc', d'))"
  shows "check_cap_token sc' t = OK \<longleftrightarrow> t = cr_sealed_cap req'"
proof -
  have set: "set_cap_token sc req = (OK, sc', req')"
    using attach by (auto simp: capio_ioctl_handler_def split: prod.splits)
  then have eq: "\<not> cap_is_null (cr_user_cap req)"
      "original_cap sc' = cr_user_cap req"
      "sealed_cap sc' = cheri_seal (cr_user_cap req) (sealing_key sc)"
      "cr_sealed_cap req' = sealed_cap sc'"
    by (auto simp: set_cap_token_def Let_def split: if_splits)
  have "token_wf sc'"
    using eq set_cap_token_fields [OF set] by (simp add: token_wf_def)
  with key user set_cap_token_fields [OF set] eq show ?thesis
    by (simp add: check_cap_token_OK_iff)
qed

definition example_root :: capability where
  "example_root = \<lparr>c_tag = True, c_addr = 0x20000, c_base = 0x20000, c_len = 0x40000,
     c_perm_load = False, c_perm_seal = True, c_perm_unseal = True, c_otype = None\<rparr>"

definition example_user_cap :: capability where
  "example_user_cap = \<lparr>c_tag = True, c_addr = 0x4000, c_base = 0x4000, c_len = 0x1000,
     c_perm_load = True, c_perm_seal = False, c_perm_unseal = False, c_otype = None\<rparr>"

definition example_req :: cap_req_t where
  "example_req = \<lparr>cr_user_cap = example_user_cap, cr_sealed_cap = null_cap\<rparr>"

definition example_drv :: "nat \<Rightarrow> nat \<Rightarrow> errno \<times> nat" where
  "example_drv c d = (OK, d + c)"

definition example_vm :: vm_answers where
  "example_vm = \<lparr>va_vmspace_null = False, va_lookup = KERN_SUCCESS, va_remove = KERN_SUCCESS\<rparr>"

lemmas example_defs =
  example_root_def example_user_cap_def example_req_def example_drv_def example_vm_def

lemmas token_defs =
  null_cap_def cap_is_null_def cheri_seal_def cheri_unseal_def cheri_setaddress_def
  cheri_setbounds_def cap_in_bounds_def set_cap_token_def check_cap_token_def
  cheri_ptr_equal_exact_def create_sealing_key_def genuine_cap_def valid_sealing_key_def
  init_capio_sc_def capio_softc_zero_def capio_ioctl_handler_def Let_def

theorem attach_token_exact_witness:
  "\<exists>req' sc'.
     capio_ioctl_handler example_drv (\<lambda>_. example_vm) CAPIO_ATTACH example_req
       (Some (init_capio_sc example_root [] capio_softc_zero, 0)) = (OK, req', Some (sc', 0)) \<and>
     check_cap_token sc' (cr_sealed_cap req') = OK \<and>
     check_cap_token sc' example_user_cap \<noteq> OK"
proof -
  define sc where "sc = init_capio_sc example_root [] capio_softc_zero"
  obtain req' sc' where at: "capio_ioctl_handler example_drv (\<lambda>_. example_vm) CAPIO_ATTACH example_req
       (Some (sc, 0)) = (OK, req', Some (sc', 0))" and ne: "cr_sealed_cap req' \<noteq> example_user_cap"
    by (auto simp: sc_def token_defs example_defs)
  have "valid_sealing_key (sealing_key sc)" "genuine_cap (cr_user_cap example_req)"
    by (simp_all add: sc_def token_defs example_defs)
  with attach_token_exact [OF _ _ at] at ne show ?thesis
    unfolding sc_def by auto
qed

text \<open>A sequence of ioctls issued by any processes, one after the other.\<close>

fun run_ioctls :: "('c \<Rightarrow> 'd \<Rightarrow> errno \<times> 'd) \<Rightarrow> (nat \<Rightarrow> vm_answers) \<Rightarrow>
    ('c capio_cmd \<times> cap_req_t) list \<Rightarrow> capio_softc_t \<times> 'd \<Rightarrow> errno list \<times> (capio_softc_t \<times> 'd)" where
  "run_ioctls drv vm [] s = ([], s)"
| "run_ioctls drv vm ((cmd, req) # rest) s =
     (case capio_ioctl_handler drv vm cmd req (Some s) of
        (e, _, None) \<Rightarrow> ([e], s)
      | (e, _, Some s') \<Rightarrow> (case run_ioctls drv vm rest s' of (es, s'') \<Rightarrow> (e # es, s'')))"

lemma ioctl_refused:
  assumes "attached sc" "check_cap_token sc (cr_sealed_cap req) \<noteq> OK"
  shows "capio_ioctl_handler drv vm cmd req (Some (sc, d)) =
    (if cmd = CAPIO_ATTACH then EINVAL else EPERM, req, Some (sc, d))"
  using assms by (simp add: capio_ioctl_handler_def set_cap_token_def attached_def)

text \<open>
  C3: The attached process is isolated from every other process. While a tagged, unsealed capability
  is attached, sealed with a valid sealing key (tagged, with the sealing permission), no sequence of ioctls (attach, goodbye or driver commands, of any length) that does not
  present the sealed token changes the CAPIO state or the driver state, and every one of them
  answers EINVAL or EPERM, whatever the driver's handler would do.
\<close>

theorem ioctls_without_token_have_no_effect:
  assumes "token_wf sc" "valid_sealing_key (sealing_key sc)" "genuine_cap (original_cap sc)"
    and "\<forall>(cmd, req) \<in> set ios. cr_sealed_cap req \<noteq> sealed_cap sc"
  shows "\<exists>es. run_ioctls drv vm ios (sc, d) = (es, (sc, d)) \<and> set es \<subseteq> {EINVAL, EPERM} \<and>
    length es = length ios"
  using assms(4)
proof (induction ios)
  case (Cons io ios)
  obtain cmd req where io: "io = (cmd, req)" by fastforce
  have "attached sc"
    using assms(1,3) by (auto simp: token_wf_def genuine_cap_def null_cap_def attached_def)
  moreover have "check_cap_token sc (cr_sealed_cap req) \<noteq> OK"
    using check_cap_token_OK_iff [OF assms(1-3)] Cons.prems io by auto
  ultimately show ?case
    using Cons io by (auto simp: ioctl_refused)
qed simp

definition example_attached :: capio_softc_t where
  "example_attached =
     fst (snd (set_cap_token (init_capio_sc example_root [] capio_softc_zero) example_req))"

theorem ioctls_without_token_have_no_effect_witness:
  "\<exists>es. run_ioctls example_drv (\<lambda>_. example_vm)
      [(CAPIO_ATTACH, example_req), (DriverCmd 7, example_req), (CAPIO_GOODBYE, example_req)]
      (example_attached, 5) = (es, (example_attached, 5)) \<and> length es = 3"
proof -
  have "token_wf example_attached" "valid_sealing_key (sealing_key example_attached)"
      "genuine_cap (original_cap example_attached)"
      "cr_sealed_cap example_req \<noteq> sealed_cap example_attached"
    by (simp_all add: example_attached_def token_wf_def token_defs example_defs)
  with ioctls_without_token_have_no_effect [of example_attached
      "[(CAPIO_ATTACH, example_req), (DriverCmd 7, example_req), (CAPIO_GOODBYE, example_req)]"
      example_drv "\<lambda>_. example_vm" 5]
  show ?thesis by fastforce
qed

text \<open>
  C7: Attachment is exclusive. While a token is outstanding, CAPIO_ATTACH (directly or through
  \<open>grant_access\<close>) changes nothing, and the ioctl answers EINVAL; after CAPIO_GOODBYE no value at
  all passes the token check, so the old token is dead even if the same user re-presents it.
\<close>

theorem attach_exclusive_goodbye_revokes:
  assumes "attached sc"
  shows "capio_ioctl_handler drv vm CAPIO_ATTACH req (Some (sc, d)) = (EINVAL, req, Some (sc, d)) \<and>
    grant_access (Some sc) req = (OK, Some sc, req) \<and>
    (\<forall>t. check_cap_token sc t = OK \<longrightarrow>
      (\<exists>e sc'. capio_ioctl_handler drv vm CAPIO_GOODBYE (req\<lparr>cr_sealed_cap := t\<rparr>) (Some (sc, d)) =
          (e, req\<lparr>cr_sealed_cap := t\<rparr>, Some (sc', d)) \<and>
        (\<forall>t'. check_cap_token sc' t' = EINVAL)))"
proof (intro conjI allI impI)
  show "capio_ioctl_handler drv vm CAPIO_ATTACH req (Some (sc, d)) = (EINVAL, req, Some (sc, d))"
      "grant_access (Some sc) req = (OK, Some sc, req)"
    using assms
    by (simp_all add: capio_ioctl_handler_def set_cap_token_def attached_def grant_access_def)
next
  fix t assume ok: "check_cap_token sc t = OK"
  obtain e sc' where r: "revoke_cap_token vm sc = (e, sc')" by fastforce
  then have "\<forall>t'. check_cap_token sc' t' = EINVAL"
    by (simp add: revoke_cap_token_fields check_cap_token_def)
  with ok r show "\<exists>e sc'. capio_ioctl_handler drv vm CAPIO_GOODBYE (req\<lparr>cr_sealed_cap := t\<rparr>)
      (Some (sc, d)) = (e, req\<lparr>cr_sealed_cap := t\<rparr>, Some (sc', d)) \<and>
      (\<forall>t'. check_cap_token sc' t' = EINVAL)"
    by (simp add: capio_ioctl_handler_def)
qed

theorem attach_exclusive_goodbye_revokes_witness:
  "attached example_attached \<and>
   check_cap_token example_attached (sealed_cap example_attached) = OK \<and>
   capio_ioctl_handler example_drv (\<lambda>_. example_vm) CAPIO_ATTACH example_req
     (Some (example_attached, 0)) = (EINVAL, example_req, Some (example_attached, 0))"
proof -
  have at: "attached example_attached"
    by (simp add: example_attached_def attached_def token_defs example_defs)
  have "check_cap_token example_attached (sealed_cap example_attached) = OK"
    by (simp add: example_attached_def token_defs example_defs)
  with attach_exclusive_goodbye_revokes [OF at, of example_drv "\<lambda>_. example_vm" example_req 0] at
  show ?thesis by blast
qed

text \<open>
  C9: \<open>set_cap_token\<close> never looks at the tag of the user's capability. If a process attaches with
  an untagged one, the sealed token protects nothing: the plain untagged capability itself, which
  anybody can build from integers, passes the token check.
\<close>

theorem untagged_attach_is_forgeable:
  assumes "\<not> c_tag (cr_user_cap req)" "c_otype (cr_user_cap req) = None"
    and "\<not> cap_is_null (cr_user_cap req)" "\<not> attached sc"
  shows "\<exists>sc' req'. set_cap_token sc req = (OK, sc', req') \<and>
    check_cap_token sc' (cr_user_cap req) = OK"
  using assms
  by (auto simp: set_cap_token_def check_cap_token_def attached_def Let_def cheri_unseal_def
      cheri_ptr_equal_exact_def intro!: capability.equality)

theorem untagged_attach_is_forgeable_witness:
  "\<exists>sc' req'. set_cap_token (init_capio_sc example_root [] capio_softc_zero)
      (example_req\<lparr>cr_user_cap := example_user_cap\<lparr>c_tag := False\<rparr>\<rparr>) = (OK, sc', req') \<and>
    check_cap_token sc' (example_user_cap\<lparr>c_tag := False\<rparr>) = OK"
  using untagged_attach_is_forgeable
      [of "example_req\<lparr>cr_user_cap := example_user_cap\<lparr>c_tag := False\<rparr>\<rparr>"
          "init_capio_sc example_root [] capio_softc_zero"]
  by (simp add: token_defs example_defs attached_def)

end
