(* ===== verification/CapioMachine.thy ===== *)
theory CapioMachine
  imports Capio
begin

text \<open>
  The life of a CAPIO device: its softc together with the VM objects that \<open>mmap\<close> created and the
  pager has not destroyed yet, and the \<open>mmap\<close> calls in flight. \<open>capio_step\<close> interleaves ioctl,
  close, modmap's address callback, the pager destructor and the two halves of
  \<open>capio_mmap_single_extra\<close>, which drops the lock between its check and its commit. The invariant
  \<open>capio_inv\<close> holds on every run. \<open>capio_serial\<close> restricts the runs to those on which no two
  \<open>mmap\<close> calls of the same region are in flight at once; only there the \<open>mapped\<close> flags of the
  region table agree with the live objects.
\<close>

section \<open>The machine\<close>

record 'd capio_world =
  w_sc :: capio_softc_t
  w_drv :: 'd
  w_objs :: "vm_object list"
  w_pending :: "(map_req_t \<times> mmap_prep) list"
  w_table :: "shared_mem_region_t list"

text \<open>
  \<open>w_table\<close> is the region table the driver passed to \<open>init_capio_sc\<close>; no step changes it.
\<close>

definition capio_init :: "'d capio_world \<Rightarrow> bool" where
  "capio_init w \<longleftrightarrow>
     shared_mem_regs (w_sc w) = w_table w \<and> distinct (map smr_type (w_table w)) \<and>
     sealed_cap (w_sc w) = null_cap \<and> original_cap (w_sc w) = null_cap \<and>
     w_objs w = [] \<and> w_pending w = []"

definition live_types :: "'d capio_world \<Rightarrow> int list" where
  "live_types w = map vo_type (w_objs w)"

definition in_flight :: "'d capio_world \<Rightarrow> int list" where
  "in_flight w = map (\<lambda>p. mr_map_type (fst p)) (w_pending w)"

inductive capio_step :: "('c \<Rightarrow> 'd \<Rightarrow> errno \<times> 'd) \<Rightarrow> 'd capio_world \<Rightarrow> 'd capio_world \<Rightarrow> bool"
  for drv :: "'c \<Rightarrow> 'd \<Rightarrow> errno \<times> 'd"
where
  ioctl: "capio_ioctl_handler drv vm cmd (req :: cap_req_t) (Some (w_sc w, w_drv w)) =
      (e, req', Some (sc', d')) \<Longrightarrow>
    capio_step drv w (w\<lparr>w_sc := sc', w_drv := d'\<rparr>)"
| close: "revoke_access vm (Some (w_sc w)) = (e, Some sc') \<Longrightarrow>
    capio_step drv w (w\<lparr>w_sc := sc'\<rparr>)"
| vaddr: "capio_vaddr_callback va len t (w_sc w) = (e, sc') \<Longrightarrow>
    capio_step drv w (w\<lparr>w_sc := sc'\<rparr>)"
| dtor: "ob \<in> set (w_objs w) \<Longrightarrow>
    capio_step drv w
      (w\<lparr>w_sc := capio_pager_dtor (vo_type ob) (w_sc w), w_objs := remove1 ob (w_objs w)\<rparr>)"
| check: "\<lbrakk>ma_extra args = Some req; mmap_check env args (w_sc w) req = Inr prep\<rbrakk> \<Longrightarrow>
    capio_step drv w (w\<lparr>w_pending := (req, prep) # w_pending w\<rparr>)"
| commit: "\<lbrakk>(req, prep) \<in> set (w_pending w);
      mmap_commit env prep (w_sc w) req = (e, sc', req', obj, returned)\<rbrakk> \<Longrightarrow>
    capio_step drv w
      (w\<lparr>w_sc := sc', w_pending := remove1 (req, prep) (w_pending w),
         w_objs := (case obj of None \<Rightarrow> w_objs w | Some ob \<Rightarrow> ob # w_objs w)\<rparr>)"

inductive_cases capio_stepE: "capio_step drv w w'"

text \<open>A step after which no two \<open>mmap\<close> calls of one region are between check and commit.\<close>

definition capio_serial :: "('c \<Rightarrow> 'd \<Rightarrow> errno \<times> 'd) \<Rightarrow> 'd capio_world \<Rightarrow> 'd capio_world \<Rightarrow> bool" where
  "capio_serial drv w w' \<longleftrightarrow> capio_step drv w w' \<and> distinct (in_flight w')"

text \<open>A call of \<open>mmap\<close> that nothing interrupts is a check followed by its commit.\<close>

lemma mmap_call_steps:
  assumes m: "capio_mmap_single_extra env args (Some (w_sc w)) = (e, Some sc', req', obj, returned)"
  shows "(capio_step drv)\<^sup>*\<^sup>* w
    (w\<lparr>w_sc := sc', w_objs := (case obj of None \<Rightarrow> w_objs w | Some ob \<Rightarrow> ob # w_objs w)\<rparr>)"
proof (cases "\<exists>req prep. ma_extra args = Some req \<and> mmap_check env args (w_sc w) req = Inr prep")
  case False
  then have "sc' = w_sc w" "obj = None"
    using m by (auto simp: capio_mmap_single_extra_def split: option.splits sum.splits)
  then show ?thesis by simp
next
  case True
  then obtain req prep where c: "ma_extra args = Some req" "mmap_check env args (w_sc w) req = Inr prep"
    by blast
  let ?w = "w\<lparr>w_pending := (req, prep) # w_pending w\<rparr>"
  obtain req'' where "mmap_commit env prep (w_sc w) req = (e, sc', req'', obj, returned)"
    using m c by (auto simp: capio_mmap_single_extra_def split: prod.splits)
  with capio_step.commit [of req prep ?w env e sc' req'' obj returned drv] have
    "capio_step drv ?w (w\<lparr>w_sc := sc', w_objs := (case obj of None \<Rightarrow> w_objs w | Some ob \<Rightarrow> ob # w_objs w)\<rparr>)"
    by (cases obj) simp_all
  with capio_step.check [OF c] show ?thesis
    by (rule converse_rtranclp_into_rtranclp [OF _ r_into_rtranclp])
qed

section \<open>Region table lemmas\<close>

text \<open>
  The part of a region that the framework never changes except for \<open>mapped\<close>: all but the user
  address and the length.
\<close>

definition smr_core :: "shared_mem_region_t \<Rightarrow> shared_mem_region_t" where
  "smr_core r = r\<lparr>smr_offset := 0, smr_len := 0\<rparr>"

definition smr_static :: "shared_mem_region_t \<Rightarrow> shared_mem_region_t" where
  "smr_static r = r\<lparr>smr_offset := 0, smr_len := 0, smr_mapped := False\<rparr>"

definition set_mapped :: "int \<Rightarrow> bool \<Rightarrow> shared_mem_region_t \<Rightarrow> shared_mem_region_t" where
  "set_mapped t b r = (if smr_type r = t then r\<lparr>smr_mapped := b\<rparr> else r)"

lemma smr_core_simps [simp]:
  "smr_type (smr_core r) = smr_type r" "smr_mapped (smr_core r) = smr_mapped r"
  "smr_is_physical (smr_core r) = smr_is_physical r" "smr_paddr (smr_core r) = smr_paddr r"
  "smr_addr (smr_core r) = smr_addr r" "smr_core (r\<lparr>smr_offset := x\<rparr>) = smr_core r"
  "smr_core (r\<lparr>smr_len := l\<rparr>) = smr_core r" "smr_core (smr_core r) = smr_core r"
  "smr_is_sliced (smr_core r) = smr_is_sliced r"
  "smr_slice_definitions (smr_core r) = smr_slice_definitions r"
  "smr_slice_def_len (smr_core r) = smr_slice_def_len r"
  by (simp_all add: smr_core_def)

lemma smr_core_set_mapped [simp]: "smr_core (set_mapped t b r) = set_mapped t b (smr_core r)"
  by (simp add: smr_core_def set_mapped_def)

lemma smr_static_simps [simp]:
  "smr_type (smr_static r) = smr_type r" "smr_static (smr_core r) = smr_static r"
  "smr_static (set_mapped t b r) = smr_static r" "smr_type (set_mapped t b r) = smr_type r"
  by (simp_all add: smr_static_def smr_core_def set_mapped_def)

lemma static_eqD:
  assumes "smr_static r = smr_static r0"
  shows "smr_is_sliced r = smr_is_sliced r0" "smr_slice_definitions r = smr_slice_definitions r0"
    "smr_slice_def_len r = smr_slice_def_len r0" "smr_is_physical r = smr_is_physical r0"
    "smr_paddr r = smr_paddr r0" "smr_addr r = smr_addr r0" "smr_type r = smr_type r0"
  using arg_cong [OF assms, of smr_is_sliced] arg_cong [OF assms, of smr_slice_definitions]
    arg_cong [OF assms, of smr_slice_def_len] arg_cong [OF assms, of smr_is_physical]
    arg_cong [OF assms, of smr_paddr] arg_cong [OF assms, of smr_addr] arg_cong [OF assms, of smr_type]
  by (simp_all add: smr_static_def)

lemma core_static: "map smr_core regs' = map smr_core regs \<Longrightarrow> map smr_static regs' = map smr_static regs"
  by (drule arg_cong [where f = "map smr_static"]) (simp add: o_def)

lemma core_all:
  assumes "map smr_core regs' = map smr_core regs"
  shows "(\<forall>r \<in> set regs'. P (smr_type r) (smr_mapped r)) \<longleftrightarrow> (\<forall>r \<in> set regs. P (smr_type r) (smr_mapped r))"
proof -
  have "(\<forall>r \<in> set xs. P (smr_type r) (smr_mapped r)) \<longleftrightarrow>
      (\<forall>c \<in> set (map smr_core xs). P (smr_type c) (smr_mapped c))" for xs
    by simp
  from this [of regs] this [of regs'] show ?thesis unfolding assms by simp
qed

lemma count_map_remove1:
  "a \<in> set xs \<Longrightarrow> count_list (map f xs) x = count_list (map f (remove1 a xs)) x + (if f a = x then 1 else 0)"
  by (induction xs) auto

lemma vaddr_loop_core:
  "vaddr_loop t va len regs = (b, regs') \<Longrightarrow> map smr_core regs' = map smr_core regs"
  by (induction regs arbitrary: b regs') (auto split: if_splits prod.splits)

lemma vaddr_loop_found:
  "fst (vaddr_loop t va len regs) \<longleftrightarrow> t \<in> smr_type ` set regs"
  by (induction regs) (auto split: prod.splits)

lemma revoke_loop_core:
  "revoke_loop vm i e regs = (e', regs') \<Longrightarrow> map smr_core regs' = map smr_core regs"
  by (induction regs arbitrary: i e e' regs') (auto simp: Let_def split: if_splits prod.splits)

lemma revoke_loop_len:
  "revoke_loop vm i e regs = (e', regs') \<Longrightarrow> map smr_len regs' = map smr_len regs"
  by (induction regs arbitrary: i e e' regs') (auto simp: Let_def split: if_splits prod.splits)

lemma revoke_loop_clears:
  assumes "revoke_loop vm i e regs = (e', regs')" "e = OK"
    and "\<And>j. delete_mapping_from_user (vm j) = OK"
  shows "e' = OK \<and> (\<forall>r \<in> set regs'. smr_offset r = 0)"
  using assms
  by (induction regs arbitrary: i e e' regs') (auto simp: Let_def split: if_splits prod.splits)

lemma dtor_loop_eq:
  "dtor_loop t nm regs =
     (nm \<and> (\<forall>r \<in> set regs. \<not> smr_mapped (set_mapped t False r)), map (set_mapped t False) regs)"
  by (induction regs arbitrary: nm) (auto simp: set_mapped_def Let_def)

lemma pager_dtor_regs:
  "shared_mem_regs (capio_pager_dtor t sc) = map (set_mapped t False) (shared_mem_regs sc)"
  by (simp add: capio_pager_dtor_def dtor_loop_eq)

lemma pager_ctor_regs:
  "shared_mem_regs (snd (capio_pager_ctor t sc)) = map (set_mapped t True) (shared_mem_regs sc)"
  by (simp add: capio_pager_ctor_def set_mapped_def cong: if_cong)

lemma find_region_Some:
  "find_region t regs = Some r \<Longrightarrow> r \<in> set regs \<and> smr_type r = t"
  by (induction regs) (auto split: if_splits)

lemma find_region_None: "find_region t regs = None \<longleftrightarrow> t \<notin> smr_type ` set regs"
  by (induction regs) auto

lemma find_region_map:
  assumes "\<And>r. smr_type (f r) = smr_type r"
  shows "find_region t (map f regs) = map_option f (find_region t regs)"
  using assms by (induction regs) auto

lemma find_region_distinct:
  "\<lbrakk>distinct (map smr_type regs); r \<in> set regs\<rbrakk> \<Longrightarrow> find_region (smr_type r) regs = Some r"
  by (induction regs) force+

lemma find_region_static:
  assumes "map smr_static regs = map smr_static table"
  shows "rel_option (\<lambda>r r0. smr_static r = smr_static r0) (find_region t regs) (find_region t table)"
  using assms
proof (induction regs arbitrary: table)
  case (Cons r regs)
  then obtain r0 table' where t: "table = r0 # table'" "smr_static r = smr_static r0" "map smr_static regs = map smr_static table'"
    by (auto simp: Cons_eq_map_conv)
  then show ?case using Cons.IH static_eqD(7) [OF t(2)] by simp
qed simp

section \<open>The invariants\<close>

definition region_attr :: "shared_mem_region_t \<Rightarrow> vm_memattr" where
  "region_attr r = (if smr_is_physical r then VM_MEMATTR_DEVICE else VM_MEMATTR_DEFAULT)"

definition attr_of :: "shared_mem_region_t list \<Rightarrow> int \<Rightarrow> vm_memattr" where
  "attr_of table t = (case find_region t table of None \<Rightarrow> VM_MEMATTR_DEFAULT | Some r \<Rightarrow> region_attr r)"

text \<open>The regions that the driver marked mapped before it published the table.\<close>

definition premarked :: "'d capio_world \<Rightarrow> int set" where
  "premarked w = {smr_type r |r. r \<in> set (w_table w) \<and> smr_mapped r}"

definition capio_inv :: "'d capio_world \<Rightarrow> bool" where
  "capio_inv w \<longleftrightarrow>
     token_wf (w_sc w) \<and> distinct (map smr_type (w_table w)) \<and>
     map smr_static (shared_mem_regs (w_sc w)) = map smr_static (w_table w) \<and>
     premarked w \<inter> (set (live_types w) \<union> set (in_flight w)) = {} \<and>
     (\<forall>r \<in> set (shared_mem_regs (w_sc w)). smr_type r \<in> premarked w \<longrightarrow> smr_mapped r) \<and>
     (\<forall>ob \<in> set (w_objs w). vo_memattr ob = attr_of (w_table w) (vo_type ob)) \<and>
     (\<forall>p \<in> set (w_pending w). mp_memattr (snd p) = attr_of (w_table w) (mr_map_type (fst p)))"

text \<open>What holds in addition when the \<open>mmap\<close> calls of a region do not overlap.\<close>

definition serial_inv :: "'d capio_world \<Rightarrow> bool" where
  "serial_inv w \<longleftrightarrow> capio_inv w \<and>
     (\<forall>r \<in> set (w_table w). count_list (live_types w @ in_flight w) (smr_type r) \<le> 1) \<and>
     (\<forall>r \<in> set (shared_mem_regs (w_sc w)). smr_mapped r \<longleftrightarrow> smr_type r \<in> premarked w \<union> set (live_types w))"

lemma premarked_upd [simp]:
  "premarked (w\<lparr>w_sc := sc\<rparr>) = premarked w" "premarked (w\<lparr>w_objs := os\<rparr>) = premarked w"
  "premarked (w\<lparr>w_drv := d\<rparr>) = premarked w" "premarked (w\<lparr>w_pending := ps\<rparr>) = premarked w"
  by (simp_all add: premarked_def)

lemma types_upd [simp]:
  "live_types (w\<lparr>w_sc := sc\<rparr>) = live_types w" "live_types (w\<lparr>w_drv := d\<rparr>) = live_types w"
  "live_types (w\<lparr>w_pending := ps\<rparr>) = live_types w" "live_types (w\<lparr>w_objs := os\<rparr>) = map vo_type os"
  "in_flight (w\<lparr>w_sc := sc\<rparr>) = in_flight w" "in_flight (w\<lparr>w_drv := d\<rparr>) = in_flight w"
  "in_flight (w\<lparr>w_objs := os\<rparr>) = in_flight w" "in_flight (w\<lparr>w_pending := ps\<rparr>) = map (\<lambda>p. mr_map_type (fst p)) ps"
  by (simp_all add: live_types_def in_flight_def)

lemma static_types: "map smr_static regs = map smr_static table \<Longrightarrow> map smr_type regs = map smr_type table"
  by (drule arg_cong [where f = "map smr_type"]) (simp add: o_def)

lemma inv_region:
  assumes "capio_inv w" "find_region t (w_table w) = Some r0"
  obtains r where "find_region t (shared_mem_regs (w_sc w)) = Some r" "smr_static r = smr_static r0"
    "r \<in> set (shared_mem_regs (w_sc w))" "smr_type r = t"
proof -
  have "map smr_static (shared_mem_regs (w_sc w)) = map smr_static (w_table w)" using assms(1) by (simp add: capio_inv_def)
  from find_region_static [OF this, of t] obtain r where
    "find_region t (shared_mem_regs (w_sc w)) = Some r" "smr_static r = smr_static r0"
    using assms(2) by (cases "find_region t (shared_mem_regs (w_sc w))") auto
  then show thesis using that find_region_Some by blast
qed

lemma inv_attr:
  assumes "capio_inv w"
  shows "attr_of (shared_mem_regs (w_sc w)) t = attr_of (w_table w) t"
proof -
  have "map smr_static (shared_mem_regs (w_sc w)) = map smr_static (w_table w)" using assms by (simp add: capio_inv_def)
  from find_region_static [OF this, of t] show ?thesis
    by (cases "find_region t (shared_mem_regs (w_sc w))"; cases "find_region t (w_table w)")
      (auto simp: attr_of_def region_attr_def dest: static_eqD(4))
qed

text \<open>Steps that touch only the token or the user addresses.\<close>

lemma inv_frame:
  assumes "capio_inv w" "token_wf sc'"
    and c: "map smr_core (shared_mem_regs sc') = map smr_core (shared_mem_regs (w_sc w))"
  shows "capio_inv (w\<lparr>w_sc := sc'\<rparr>)" "capio_inv (w\<lparr>w_sc := sc', w_drv := d'\<rparr>)"
    "serial_inv w \<Longrightarrow> serial_inv (w\<lparr>w_sc := sc'\<rparr>)" "serial_inv w \<Longrightarrow> serial_inv (w\<lparr>w_sc := sc', w_drv := d'\<rparr>)"
  using assms(1,2) core_static [OF c] core_all [OF c, of "\<lambda>t m. t \<in> premarked w \<longrightarrow> m"]
    core_all [OF c, of "\<lambda>t m. m \<longleftrightarrow> t \<in> premarked w \<union> set (live_types w)"]
  by (simp_all add: capio_inv_def serial_inv_def)

lemma ioctl_core:
  assumes "token_wf (w_sc w)"
    and io: "capio_ioctl_handler drv vm cmd req (Some (w_sc w, w_drv w)) = (e, req', Some (sc', d'))"
  shows "token_wf sc'" "map smr_core (shared_mem_regs sc') = map smr_core (shared_mem_regs (w_sc w))"
proof -
  have "sc' = w_sc w \<or> (\<exists>e req'. set_cap_token (w_sc w) req = (e, sc', req')) \<or>
      (\<exists>e. revoke_cap_token vm (w_sc w) = (e, sc'))"
    using io by (auto simp: capio_ioctl_handler_def split: if_splits capio_cmd.splits prod.splits)
  then show "token_wf sc'"
      "map smr_core (shared_mem_regs sc') = map smr_core (shared_mem_regs (w_sc w))"
    using assms(1) token_wf_set_cap_token token_wf_revoke set_cap_token_fields(3)
    by (fastforce simp: revoke_cap_token_def dest: revoke_loop_core split: prod.splits)+
qed

lemma close_core:
  assumes "revoke_access vm (Some (w_sc w)) = (e, Some sc')"
  shows "token_wf sc'" "map smr_core (shared_mem_regs sc') = map smr_core (shared_mem_regs (w_sc w))"
proof -
  have r: "revoke_cap_token vm (w_sc w) = (e, sc')"
    using assms by (auto simp: revoke_access_def split: prod.splits)
  then show "map smr_core (shared_mem_regs sc') = map smr_core (shared_mem_regs (w_sc w))"
    by (auto simp: revoke_cap_token_def dest: revoke_loop_core split: prod.splits)
  show "token_wf sc'" using r by (rule token_wf_revoke)
qed

lemma vaddr_core:
  assumes "token_wf (w_sc w)" "capio_vaddr_callback va len t (w_sc w) = (e, sc')"
  shows "token_wf sc'" "map smr_core (shared_mem_regs sc') = map smr_core (shared_mem_regs (w_sc w))"
  using assms by (auto simp: capio_vaddr_callback_def token_wf_def dest: vaddr_loop_core split: prod.splits)

text \<open>Steps on the objects and the calls in flight.\<close>

lemma check_attr:
  assumes "mmap_check env args sc req = Inr prep"
  shows "mp_memattr prep = attr_of (shared_mem_regs sc) (mr_map_type req)"
    "find_region (mr_map_type req) (shared_mem_regs sc) = Some r \<Longrightarrow> \<not> smr_mapped r"
  using assms by (auto simp: mmap_check_def Let_def attr_of_def region_attr_def split: if_splits option.splits)

lemma check_free:
  assumes "capio_inv w" "mmap_check env args (w_sc w) req = Inr prep"
  shows "mr_map_type req \<notin> premarked w"
    "serial_inv w \<Longrightarrow> r \<in> set (w_table w) \<Longrightarrow> smr_type r = mr_map_type req \<Longrightarrow> mr_map_type req \<notin> set (live_types w)"
proof -
  have *: "\<not> smr_mapped r'" if "r' \<in> set (shared_mem_regs (w_sc w))" "smr_type r' = mr_map_type req" for r'
  proof -
    have "distinct (map smr_type (shared_mem_regs (w_sc w)))"
      using assms(1) static_types by (metis capio_inv_def)
    then show ?thesis using check_attr(2) [OF assms(2)] find_region_distinct that by metis
  qed
  have "smr_type ` set (shared_mem_regs (w_sc w)) = smr_type ` set (w_table w)"
    using assms(1) static_types by (metis capio_inv_def list.set_map)
  then have ex: "\<exists>r' \<in> set (shared_mem_regs (w_sc w)). smr_type r' = smr_type r" if "r \<in> set (w_table w)" for r
    using that by (metis imageE imageI)
  show "mr_map_type req \<notin> premarked w"
    using * ex assms(1) unfolding capio_inv_def premarked_def by (smt (verit) mem_Collect_eq)
  show "mr_map_type req \<notin> set (live_types w)" if "serial_inv w" "r \<in> set (w_table w)" "smr_type r = mr_map_type req"
    using * ex that unfolding serial_inv_def by (metis UnCI)
qed

lemma commit_cases:
  assumes "mmap_commit env prep sc req = (e, sc', req', obj, returned)"
  obtains "obj = None" "sc' = sc"
  | ob where "obj = Some ob" "vo_type ob = mr_map_type req" "vo_memattr ob = mp_memattr prep"
      "sc' = snd (capio_pager_ctor (mr_map_type req) sc)"
  using assms by (auto simp: mmap_commit_def Let_def split: if_splits)

lemma token_wf_pager [simp]:
  "token_wf (snd (capio_pager_ctor t sc)) = token_wf sc" "token_wf (capio_pager_dtor t sc) = token_wf sc"
  by (simp_all add: token_wf_def capio_pager_ctor_def capio_pager_dtor_def dtor_loop_eq)

lemma set_mapped_flag:
  "smr_mapped (set_mapped t b r) = (if smr_type r = t then b else smr_mapped r)"
  by (simp add: set_mapped_def)

lemma inv_dtor:
  assumes inv: "capio_inv w" and ob: "ob \<in> set (w_objs w)"
  shows "capio_inv (w\<lparr>w_sc := capio_pager_dtor (vo_type ob) (w_sc w), w_objs := remove1 ob (w_objs w)\<rparr>)"
    "serial_inv w \<Longrightarrow> serial_inv (w\<lparr>w_sc := capio_pager_dtor (vo_type ob) (w_sc w), w_objs := remove1 ob (w_objs w)\<rparr>)"
proof -
  let ?w = "w\<lparr>w_sc := capio_pager_dtor (vo_type ob) (w_sc w), w_objs := remove1 ob (w_objs w)\<rparr>"
  let ?L = "set (live_types w)" and ?L' = "vo_type ` set (remove1 ob (w_objs w))"
  have live: "vo_type ob \<in> ?L" "?L' \<subseteq> ?L" using ob notin_set_remove1 by (fastforce simp: live_types_def)+
  have np: "vo_type ob \<notin> premarked w" using inv live(1) by (auto simp: capio_inv_def)
  have st: "map smr_static (map (set_mapped t b) xs) = map smr_static xs" for t b xs by simp
  show i: "capio_inv ?w"
    using inv live(2) np notin_set_remove1
    unfolding capio_inv_def by (auto simp: pager_dtor_regs st set_mapped_flag simp del: map_map)
  assume s: "serial_inv w"
  have cnt: "count_list (live_types w) x = count_list (map vo_type (remove1 ob (w_objs w))) x + (if vo_type ob = x then 1 else 0)" for x
    unfolding live_types_def by (rule count_map_remove1 [OF ob])
  have one: "vo_type ob \<notin> ?L'" if "r \<in> set (w_table w)" "smr_type r = vo_type ob" for r
  proof -
    have "count_list (live_types w @ in_flight w) (vo_type ob) \<le> 1" using s that by (auto simp: serial_inv_def)
    then have "count_list (map vo_type (remove1 ob (w_objs w))) (vo_type ob) = 0" using cnt [of "vo_type ob"] by simp
    then show ?thesis by (simp add: count_list_0_iff)
  qed
  have types: "smr_type ` set (shared_mem_regs (w_sc w)) = smr_type ` set (w_table w)"
    using inv static_types by (metis capio_inv_def list.set_map)
  have oth: "t \<in> ?L \<longleftrightarrow> t \<in> ?L'" if "t \<noteq> vo_type ob" for t
    using cnt [of t] that count_list_0_iff [of "live_types w" t] count_list_0_iff [of "map vo_type (remove1 ob (w_objs w))" t] by simp
  have "smr_mapped r \<longleftrightarrow> smr_type r \<in> premarked ?w \<union> set (live_types ?w)" if r: "r \<in> set (shared_mem_regs (w_sc ?w))" for r
  proof -
    obtain q where q: "q \<in> set (shared_mem_regs (w_sc w))" "r = set_mapped (vo_type ob) False q" using r by (auto simp: pager_dtor_regs)
    have f: "smr_mapped q \<longleftrightarrow> smr_type q \<in> premarked w \<union> ?L" using s q(1) by (simp add: serial_inv_def)
    show ?thesis
    proof (cases "smr_type q = vo_type ob")
      case True
      then have "vo_type ob \<notin> ?L'" using one types q(1) by (metis imageE imageI)
      then show ?thesis using True np by (simp add: q(2) set_mapped_flag)
    next
      case False
      then show ?thesis using f oth [OF False] by (simp add: q(2) set_mapped_flag)
    qed
  qed
  moreover have "\<forall>r \<in> set (w_table ?w). count_list (live_types ?w @ in_flight ?w) (smr_type r) \<le> 1"
  proof
    fix r assume "r \<in> set (w_table ?w)"
    then have "count_list (live_types w @ in_flight w) (smr_type r) \<le> 1" using s by (simp add: serial_inv_def)
    then show "count_list (live_types ?w @ in_flight ?w) (smr_type r) \<le> 1" using cnt [of "smr_type r"] by simp
  qed
  ultimately show "serial_inv ?w" using i unfolding serial_inv_def by blast
qed

lemma inv_check:
  assumes inv: "capio_inv w" and c: "mmap_check env args (w_sc w) req = Inr prep"
  shows "capio_inv (w\<lparr>w_pending := (req, prep) # w_pending w\<rparr>)"
    "serial_inv w \<Longrightarrow> distinct (mr_map_type req # in_flight w) \<Longrightarrow> serial_inv (w\<lparr>w_pending := (req, prep) # w_pending w\<rparr>)"
proof -
  let ?w = "w\<lparr>w_pending := (req, prep) # w_pending w\<rparr>"
  have fl: "in_flight ?w = mr_map_type req # in_flight w" by (simp add: in_flight_def)
  show i: "capio_inv ?w"
    using inv check_free(1) [OF inv c] check_attr(1) [OF c] inv_attr [OF inv] by (auto simp: capio_inv_def in_flight_def)
  assume s: "serial_inv w" and d: "distinct (mr_map_type req # in_flight w)"
  have "count_list (live_types w @ mr_map_type req # in_flight w) (smr_type r) \<le> 1" if "r \<in> set (w_table w)" for r
  proof (cases "smr_type r = mr_map_type req")
    case True
    then have "mr_map_type req \<notin> set (live_types w)" using check_free(2) [OF inv c s that] by blast
    then have "count_list (live_types w) (mr_map_type req) = 0" "count_list (in_flight w) (mr_map_type req) = 0"
      using d by (simp_all add: count_list_0_iff)
    then show ?thesis using True by simp
  next
    case False
    then show ?thesis using s that by (auto simp: serial_inv_def)
  qed
  then show "serial_inv ?w" using s i fl unfolding serial_inv_def by simp
qed

lemma inv_commit:
  assumes inv: "capio_inv w" and p: "(req, prep) \<in> set (w_pending w)"
    and m: "mmap_commit env prep (w_sc w) req = (e, sc', req', obj, returned)"
    and w': "w' = w\<lparr>w_sc := sc', w_pending := remove1 (req, prep) (w_pending w),
      w_objs := (case obj of None \<Rightarrow> w_objs w | Some ob \<Rightarrow> ob # w_objs w)\<rparr>"
  shows "capio_inv w'" "serial_inv w \<Longrightarrow> serial_inv w'"
proof -
  let ?t = "mr_map_type req" and ?ps = "remove1 (req, prep) (w_pending w)"
  have sub: "set ?ps \<subseteq> set (w_pending w)" by (rule set_remove1_subset)
  have infl: "?t \<in> set (in_flight w)" using p by (force simp: in_flight_def)
  then have np: "?t \<notin> premarked w" using inv by (auto simp: capio_inv_def)
  have at: "mp_memattr prep = attr_of (w_table w) ?t" using inv p by (auto simp: capio_inv_def)
  have fl: "set (map (\<lambda>p. mr_map_type (fst p)) ?ps) \<subseteq> set (in_flight w)" using sub by (auto simp: in_flight_def)
  have cnt: "count_list (in_flight w) x = count_list (map (\<lambda>p. mr_map_type (fst p)) ?ps) x + (if ?t = x then 1 else 0)" for x
    using count_map_remove1 [OF p, of "\<lambda>p. mr_map_type (fst p)" x] by (simp add: in_flight_def)
  have st: "map smr_static (map (set_mapped t b) xs) = map smr_static xs" for t b xs by simp
  have "capio_inv w' \<and> (serial_inv w \<longrightarrow> serial_inv w')"
  proof (rule commit_cases [OF m])
    assume n: "obj = None" "sc' = w_sc w"
    then have i: "capio_inv w'" using inv fl sub by (auto simp: w' capio_inv_def)
    have le: "count_list (live_types w' @ in_flight w') x \<le> count_list (live_types w @ in_flight w) x" for x
      using cnt [of x] n by (simp add: w' live_types_def)
    have "w_sc w' = w_sc w" "w_table w' = w_table w" "premarked w' = premarked w" "live_types w' = live_types w"
      using n by (simp_all add: w' live_types_def)
    with i le show ?thesis unfolding serial_inv_def by (metis order_trans)
  next
    fix ob assume o: "obj = Some ob" "vo_type ob = ?t" "vo_memattr ob = mp_memattr prep" "sc' = snd (capio_pager_ctor ?t (w_sc w))"
    have L: "live_types w' = ?t # live_types w" using o by (simp add: w' live_types_def)
    have i: "capio_inv w'"
      using inv fl sub np at o by (auto simp: w' capio_inv_def pager_ctor_regs st set_mapped_flag live_types_def simp del: map_map)
    have "serial_inv w'" if s: "serial_inv w"
    proof -
      have "count_list (live_types w' @ in_flight w') x = count_list (live_types w @ in_flight w) x" for x
        using cnt [of x] by (simp add: L) (simp add: w')
      moreover have "premarked w' = premarked w" "w_table w' = w_table w" by (simp_all add: w')
      moreover have "smr_mapped r \<longleftrightarrow> smr_type r \<in> premarked w \<union> set (live_types w')" if "r \<in> set (shared_mem_regs (w_sc w'))" for r
        using that s by (auto simp: w' o L pager_ctor_regs set_mapped_flag serial_inv_def) (auto simp: o live_types_def)
      ultimately show ?thesis using s i unfolding serial_inv_def by simp
    qed
    with i show ?thesis by blast
  qed
  then show "capio_inv w'" "serial_inv w \<Longrightarrow> serial_inv w'" by blast+
qed

lemma capio_step_inv:
  assumes "capio_inv w" "capio_step drv w w'"
  shows "capio_inv w'" "serial_inv w \<Longrightarrow> distinct (in_flight w') \<Longrightarrow> serial_inv w'"
proof -
  have wf: "token_wf (w_sc w)" using assms(1) by (simp add: capio_inv_def)
  from assms(2) have "capio_inv w' \<and> (serial_inv w \<longrightarrow> distinct (in_flight w') \<longrightarrow> serial_inv w')"
  proof cases
    case (ioctl vm cmd req e req' sc' d')
    then show ?thesis using inv_frame [OF assms(1) ioctl_core [OF wf ioctl(2)]] by simp
  next
    case (close vm e sc')
    then show ?thesis using inv_frame [OF assms(1) close_core [OF close(2)]] by simp
  next
    case (vaddr va len t e sc')
    then show ?thesis using inv_frame [OF assms(1) vaddr_core [OF wf vaddr(2)]] by simp
  next
    case dtor
    then show ?thesis using inv_dtor [OF assms(1)] by blast
  next
    case (check args req env prep)
    then show ?thesis using inv_check [OF assms(1) check(3)] by (simp add: in_flight_def)
  next
    case (commit req prep env e sc' req' obj returned)
    then show ?thesis using inv_commit [OF assms(1) commit(2,3,1)] by blast
  qed
  then show "capio_inv w'" "serial_inv w \<Longrightarrow> distinct (in_flight w') \<Longrightarrow> serial_inv w'" by blast+
qed

lemma distinct_type:
  "\<lbrakk>distinct (map smr_type regs); r \<in> set regs; r' \<in> set regs; smr_type r = smr_type r'\<rbrakk> \<Longrightarrow> r = r'"
  by (auto simp: distinct_map dest: inj_onD)

lemma capio_init_inv:
  assumes "capio_init w"
  shows "capio_inv w" "serial_inv w"
proof -
  have w: "shared_mem_regs (w_sc w) = w_table w" "distinct (map smr_type (w_table w))" "token_wf (w_sc w)"
      "live_types w = []" "in_flight w = []" "w_objs w = []" "w_pending w = []"
    using assms by (simp_all add: capio_init_def token_wf_def live_types_def in_flight_def)
  have "smr_mapped r \<longleftrightarrow> smr_type r \<in> premarked w" if "r \<in> set (w_table w)" for r
    using that distinct_type [OF w(2)] by (fastforce simp: premarked_def)
  then show "capio_inv w" "serial_inv w" using w by (simp_all add: capio_inv_def serial_inv_def)
qed

lemma serial_step_inv: "serial_inv w \<Longrightarrow> capio_serial drv w w' \<Longrightarrow> serial_inv w'"
  using capio_step_inv(2) [of w drv w'] by (auto simp: capio_serial_def serial_inv_def [of w])

interpretation capio_machine: invariant_machine capio_init "capio_step drv" capio_inv for drv
  by unfold_locales (auto intro: capio_init_inv(1) capio_step_inv(1))

interpretation serial_machine: invariant_machine capio_init "capio_serial drv" serial_inv for drv
  by unfold_locales (auto intro: capio_init_inv(2) serial_step_inv)

lemma capio_step_table: "(capio_step drv)\<^sup>*\<^sup>* w w' \<Longrightarrow> w_table w' = w_table w"
  by (induction rule: rtranclp_induct) (auto elim!: capio_stepE)

lemma serial_steps: "(capio_serial drv)\<^sup>*\<^sup>* w w' \<Longrightarrow> (capio_step drv)\<^sup>*\<^sup>* w w'"
  by (erule rtranclp_mono [THEN predicate2D, rotated]) (auto simp: capio_serial_def)

section \<open>Properties of the machine\<close>

lemma premarked_iff:
  assumes "capio_inv w" "find_region t (w_table w) = Some r0"
  shows "t \<in> premarked w \<longleftrightarrow> smr_mapped r0"
proof -
  have r0: "r0 \<in> set (w_table w)" "smr_type r0 = t" using find_region_Some [OF assms(2)] by auto
  have "distinct (map smr_type (w_table w))" using assms(1) by (simp add: capio_inv_def)
  then have "r = r0" if "r \<in> set (w_table w)" "smr_type r = t" for r using distinct_type that r0 by metis
  then show ?thesis using r0 unfolding premarked_def by blast
qed

lemma serial_flag:
  assumes "serial_inv w" "find_region t (w_table w) = Some r0"
  obtains r where "find_region t (shared_mem_regs (w_sc w)) = Some r" "smr_static r = smr_static r0"
    "smr_mapped r \<longleftrightarrow> smr_mapped r0 \<or> t \<in> set (live_types w)"
proof -
  have inv: "capio_inv w" using assms(1) by (simp add: serial_inv_def)
  obtain r where r: "find_region t (shared_mem_regs (w_sc w)) = Some r" "smr_static r = smr_static r0"
      "r \<in> set (shared_mem_regs (w_sc w))" "smr_type r = t"
    using inv_region [OF inv assms(2)] by blast
  then have "smr_mapped r \<longleftrightarrow> smr_mapped r0 \<or> t \<in> set (live_types w)"
    using assms(1) premarked_iff [OF inv assms(2)] by (auto simp: serial_inv_def)
  with r(1,2) show thesis by (rule that)
qed

text \<open>
  C2: Exclusive mapping. Take any run of ioctls, closes, mmap calls (each of them a check and a later commit),
  address callbacks and object destructions on which no two mmap calls of the same region are between
  check and commit at the same time. Then every region of the driver's table is backed by at most one
  live VM object, a region that the driver marked mapped beforehand never gets one, and the region's
  \<open>mapped\<close> flag says exactly whether it is in one of these two situations. Without the restriction on the
  mmap calls the statement is false, see \<open>concurrent_mmap_breaks_exclusivity\<close> below.
\<close>

theorem mapping_is_exclusive:
  assumes "capio_init w" "(capio_serial drv)\<^sup>*\<^sup>* w w'" "find_region t (w_table w) = Some r0"
  shows "count_list (live_types w') t \<le> (if smr_mapped r0 then 0 else 1) \<and>
    (\<exists>r. find_region t (shared_mem_regs (w_sc w')) = Some r \<and>
       (smr_mapped r \<longleftrightarrow> smr_mapped r0 \<or> t \<in> set (live_types w')))"
proof -
  have s: "serial_inv w'" using serial_machine.reachable_inv assms(1,2) by blast
  then have inv: "capio_inv w'" by (simp add: serial_inv_def)
  have t: "find_region t (w_table w') = Some r0" using assms(3) capio_step_table [OF serial_steps [OF assms(2)]] by simp
  have "count_list (live_types w' @ in_flight w') t \<le> 1"
    using s find_region_Some [OF t] by (auto simp: serial_inv_def)
  moreover have "count_list (live_types w') t = 0" if "smr_mapped r0"
    using that premarked_iff [OF inv t] inv by (auto simp: capio_inv_def count_list_0_iff)
  ultimately show ?thesis using serial_flag [OF s t] by (auto intro: order_trans [rotated])
qed

definition example_region :: shared_mem_region_t where
  "example_region = \<lparr>smr_type = 0, smr_is_physical = False, smr_addr = 0x10000, smr_paddr = 0,
     smr_offset = 0, smr_len = 4096, smr_mapped = False, smr_is_sliced = False,
     smr_slice_definitions = None, smr_slice_def_len = 0\<rparr>"

definition example_sc :: capio_softc_t where
  "example_sc = init_capio_sc example_root [example_region] capio_softc_zero"

definition example_sc_attached :: capio_softc_t where
  "example_sc_attached = fst (snd (set_cap_token example_sc example_req))"

definition example_world :: "nat capio_world" where
  "example_world = \<lparr>w_sc = example_sc, w_drv = 0, w_objs = [], w_pending = [],
     w_table = [example_region]\<rparr>"

definition example_map_req :: map_req_t where
  "example_map_req = \<lparr>cr_user_cap = example_user_cap, cr_sealed_cap = sealed_cap example_sc_attached,
     mr_map_type = 0, mr_is_sliced = False, mr_slice_definitions = None, mr_slice_def_length = 0\<rparr>"

definition example_args :: mmap_args where
  "example_args = \<lparr>ma_extra = Some example_map_req, ma_offset = 0, ma_size = 4096, ma_cap_prot = False\<rparr>"

definition example_env :: mmap_env where
  "example_env = \<lparr>me_buffer_size = (\<lambda>_. 4096), me_dying_before = False, me_malloc_ok = True,
     me_pager_ok = True, me_dying_after = False\<rparr>"

definition example_obj :: vm_object where
  "example_obj = \<lparr>vo_type = 0, vo_size = 4096, vo_memattr = VM_MEMATTR_DEFAULT\<rparr>"

definition example_prep :: mmap_prep where
  "example_prep = \<lparr>mp_buffer_size = 4096, mp_is_sliced = False, mp_slice_def = None,
     mp_slice_def_len = 0, mp_memattr = VM_MEMATTR_DEFAULT\<rparr>"

definition example_sc_mapped :: capio_softc_t where
  "example_sc_mapped = snd (capio_pager_ctor 0 example_sc_attached)"

lemmas example_machine_defs = example_defs example_region_def example_sc_def
  example_sc_attached_def example_world_def example_map_req_def example_args_def example_env_def
  example_obj_def example_prep_def example_sc_mapped_def

lemma example_init: "capio_init example_world"
  by (simp add: capio_init_def example_machine_defs init_capio_sc_def capio_softc_zero_def)

lemma example_ioctl_attach:
  "\<exists>req'. capio_ioctl_handler example_drv (\<lambda>_. example_vm) CAPIO_ATTACH example_req
      (Some (example_sc, 0)) = (OK, req', Some (example_sc_attached, 0))"
  by (simp add: token_defs example_machine_defs)

lemma example_check:
  "mmap_check example_env example_args example_sc_attached example_map_req = Inr example_prep"
  by (simp add: mmap_check_def token_defs example_machine_defs)

lemma example_commit:
  "mmap_commit example_env example_prep example_sc_attached example_map_req =
     (OK, example_sc_mapped, example_map_req, Some example_obj, True)"
  by (simp add: mmap_commit_def Let_def)
    (simp add: example_env_def example_prep_def example_map_req_def example_obj_def
      example_sc_mapped_def)

lemma example_mmap:
  "capio_mmap_single_extra example_env example_args (Some example_sc_attached) =
     (OK, Some example_sc_mapped, Some example_map_req, Some example_obj, True)"
  using example_check example_commit
  by (simp add: capio_mmap_single_extra_def) (simp add: example_args_def)

definition example_world_mapped :: "nat capio_world" where
  "example_world_mapped =
     example_world\<lparr>w_sc := example_sc_mapped, w_objs := [example_obj]\<rparr>"

lemma example_attach_step:
  "capio_step example_drv example_world (example_world\<lparr>w_sc := example_sc_attached\<rparr>)"
proof -
  have w: "w_sc example_world = example_sc" "w_drv example_world = 0"
    "example_world\<lparr>w_sc := example_sc_attached, w_drv := 0\<rparr> =
      example_world\<lparr>w_sc := example_sc_attached\<rparr>"
    by (simp_all add: example_world_def)
  obtain req' where "capio_ioctl_handler example_drv (\<lambda>_. example_vm) CAPIO_ATTACH example_req
      (Some (example_sc, 0)) = (OK, req', Some (example_sc_attached, 0))"
    using example_ioctl_attach by blast
  from capio_step.ioctl [where w = example_world, unfolded w(1,2), OF this] show ?thesis
    unfolding w(3) .
qed

lemma example_upd:
  "example_world\<lparr>w_sc := sc, w_pending := []\<rparr> = example_world\<lparr>w_sc := sc\<rparr>"
  "w_objs example_world = []" "w_pending example_world = []"
  by (simp_all add: example_world_def)

lemma example_check_step:
  "capio_step example_drv (example_world\<lparr>w_sc := example_sc_attached, w_pending := ps\<rparr>)
     (example_world\<lparr>w_sc := example_sc_attached, w_pending := (example_map_req, example_prep) # ps\<rparr>)"
  using capio_step.check [of example_args example_map_req example_env "example_world\<lparr>w_sc := example_sc_attached, w_pending := ps\<rparr>" example_prep example_drv]
    example_check by simp (simp add: example_args_def)

lemma example_run: "(capio_serial example_drv)\<^sup>*\<^sup>* example_world example_world_mapped"
proof -
  let ?w1 = "example_world\<lparr>w_sc := example_sc_attached\<rparr>" and ?p = "(example_map_req, example_prep)"
  let ?w2 = "?w1\<lparr>w_pending := [?p]\<rparr>"
  have 1: "capio_serial example_drv example_world ?w1"
    using example_attach_step by (simp add: capio_serial_def in_flight_def example_upd)
  have 2: "capio_serial example_drv ?w1 ?w2"
    using example_check_step [of "[]"] by (simp add: capio_serial_def in_flight_def example_upd)
  have "capio_step example_drv ?w2 example_world_mapped"
    using capio_step.commit [of example_map_req example_prep ?w2 example_env] example_commit
    by (simp add: example_world_mapped_def) (simp add: example_world_def)
  then have 3: "capio_serial example_drv ?w2 example_world_mapped"
    by (simp add: capio_serial_def in_flight_def example_world_mapped_def example_world_def)
  show ?thesis
    by (rule rtranclp.rtrancl_into_rtrancl [OF rtranclp.rtrancl_into_rtrancl [OF
          r_into_rtranclp [of "capio_serial example_drv", OF 1] 2] 3])
qed

theorem mapping_is_exclusive_witness:
  "(capio_serial example_drv)\<^sup>*\<^sup>* example_world example_world_mapped \<and>
   live_types example_world_mapped = [0] \<and>
   (\<exists>r. find_region 0 (shared_mem_regs (w_sc example_world_mapped)) = Some r \<and> smr_mapped r)"
proof -
  have "find_region 0 (w_table example_world) = Some example_region"
    by (simp add: example_world_def example_region_def)
  moreover have "live_types example_world_mapped = [0]"
    by (simp add: live_types_def example_world_mapped_def example_obj_def)
  ultimately show ?thesis
    using mapping_is_exclusive [OF example_init example_run] example_run by fastforce
qed

text \<open>
  C8: The lock does not make the mapping exclusive by itself. Because the check of \<open>mapped\<close>
  and the setting of it in the pager constructor are two critical sections, two concurrent
  \<open>mmap\<close> calls with the same token can both pass the check; there is a run from an initial
  device to a state with two live VM objects for one region.
\<close>

theorem concurrent_mmap_breaks_exclusivity:
  "\<exists>(w :: nat capio_world) w'. capio_init w \<and> (capio_step example_drv)\<^sup>*\<^sup>* w w' \<and>
     0 \<in> smr_type ` set (w_table w) \<and> count_list (live_types w') 0 = 2"
proof -
  let ?s = "capio_step example_drv"
  let ?p = "(example_map_req, example_prep)"
  let ?w1 = "example_world\<lparr>w_sc := example_sc_attached\<rparr>"
  let ?w2 = "?w1\<lparr>w_pending := [?p]\<rparr>" and ?w3 = "?w1\<lparr>w_pending := [?p, ?p]\<rparr>"
  let ?w4 = "?w1\<lparr>w_sc := example_sc_mapped, w_pending := [?p], w_objs := [example_obj]\<rparr>"
  let ?sc5 = "snd (capio_pager_ctor 0 example_sc_mapped)"
  let ?w5 = "?w1\<lparr>w_sc := ?sc5, w_pending := [], w_objs := [example_obj, example_obj]\<rparr>"
  have s2: "?s ?w1 ?w2" and s3: "?s ?w2 ?w3"
    using example_check_step [of "[]"] example_check_step [of "[?p]"] by (simp_all add: example_upd)
  have s4: "?s ?w3 ?w4"
    using capio_step.commit [of example_map_req example_prep ?w3 example_env] example_commit by (simp add: example_upd)
  have "mmap_commit example_env example_prep example_sc_mapped example_map_req =
      (OK, ?sc5, example_map_req, Some example_obj, True)"
    by (simp add: mmap_commit_def Let_def)
      (simp add: example_env_def example_prep_def example_map_req_def example_obj_def)
  then have s5: "?s ?w4 ?w5"
    using capio_step.commit [of example_map_req example_prep ?w4 example_env] by simp
  have "?s\<^sup>*\<^sup>* example_world ?w5"
    by (rule rtranclp.rtrancl_into_rtrancl [OF rtranclp.rtrancl_into_rtrancl [OF
          rtranclp.rtrancl_into_rtrancl [OF rtranclp.rtrancl_into_rtrancl [OF
          r_into_rtranclp [of ?s, OF example_attach_step] s2] s3] s4] s5])
  moreover have "0 \<in> smr_type ` set (w_table example_world)" "count_list (live_types ?w5) 0 = 2"
    by (simp_all add: example_machine_defs live_types_def)
  ultimately show ?thesis using example_init by blast
qed

text \<open>A request that passes every test of \<open>mmap_check\<close> but the one of the region itself.\<close>

definition mmap_wellformed :: "mmap_env \<Rightarrow> mmap_args \<Rightarrow> capio_softc_t \<Rightarrow> map_req_t \<Rightarrow> bool" where
  "mmap_wellformed env args sc req \<longleftrightarrow>
     ma_extra args = Some req \<and> check_cap_token sc (cr_sealed_cap req) = OK \<and>
     \<not> ma_cap_prot args \<and> ma_offset args = 0 \<and> c_tag (cr_user_cap req) \<and>
     ma_size args = me_buffer_size env (mr_map_type req) \<and>
     \<not> me_dying_before env \<and> me_malloc_ok env \<and> me_pager_ok env \<and> \<not> me_dying_after env"

text \<open>
  C4: A region can be mapped exactly when it is free. In every state reached by a run on which the
  mmap calls of one region do not overlap (as in the theorem on exclusive mapping), a well-formed mmap
  request for a region of the table succeeds if and only if the region was not marked mapped by the
  driver and no VM object of it is alive. On success the new object has the requested size and the
  reply carries the driver's slice table; on refusal the answer is EINVAL and nothing changes. In
  particular a region can be mapped again as soon as its object is destroyed.
\<close>

theorem mmap_iff_free:
  assumes "capio_init w" "(capio_serial drv)\<^sup>*\<^sup>* w w'" "find_region (mr_map_type req) (w_table w) = Some r0"
    and "mmap_wellformed env args (w_sc w') req"
  shows "if smr_mapped r0 \<or> mr_map_type req \<in> set (live_types w')
    then capio_mmap_single_extra env args (Some (w_sc w')) = (EINVAL, Some (w_sc w'), Some req, None, False)
    else capio_mmap_single_extra env args (Some (w_sc w')) =
      (OK, Some (snd (capio_pager_ctor (mr_map_type req) (w_sc w'))),
       Some (req\<lparr>mr_is_sliced := smr_is_sliced r0, mr_slice_definitions := smr_slice_definitions r0,
                 mr_slice_def_length := smr_slice_def_len r0\<rparr>),
       Some \<lparr>vo_type = mr_map_type req, vo_size = ma_size args, vo_memattr = region_attr r0\<rparr>, True)"
proof -
  have inv: "serial_inv w'" using serial_machine.reachable_inv assms(1,2) by blast
  have tab: "w_table w' = w_table w" using serial_steps [OF assms(2)] by (rule capio_step_table)
  obtain r where r: "find_region (mr_map_type req) (shared_mem_regs (w_sc w')) = Some r"
      "smr_static r = smr_static r0"
      "smr_mapped r \<longleftrightarrow> smr_mapped r0 \<or> mr_map_type req \<in> set (live_types w')"
    using serial_flag [OF inv] assms(3) tab by metis
  note static = static_eqD [OF r(2)]
  have chk: "mmap_check env args (w_sc w') req =
      (if smr_mapped r then Inl EINVAL
       else Inr \<lparr>mp_buffer_size = ma_size args, mp_is_sliced = smr_is_sliced r0,
          mp_slice_def = smr_slice_definitions r0, mp_slice_def_len = smr_slice_def_len r0,
          mp_memattr = region_attr r0\<rparr>)"
    using assms(4) r(1) static(1-4)
    by (simp add: mmap_wellformed_def mmap_check_def region_attr_def)
  then show ?thesis
    using assms(4) r(3)
    by (simp add: capio_mmap_single_extra_def mmap_wellformed_def mmap_commit_def)
qed

theorem mmap_iff_free_witness:
  "mmap_wellformed example_env example_args (w_sc example_world_mapped) example_map_req \<and>
   capio_mmap_single_extra example_env example_args (Some (w_sc example_world_mapped)) =
     (EINVAL, Some (w_sc example_world_mapped), Some example_map_req, None, False)"
proof -
  have wf: "mmap_wellformed example_env example_args (w_sc example_world_mapped) example_map_req"
    by (simp add: mmap_wellformed_def example_world_mapped_def example_machine_defs token_defs
        capio_pager_ctor_def)
  have "find_region (mr_map_type example_map_req) (w_table example_world) = Some example_region"
      "mr_map_type example_map_req \<in> set (live_types example_world_mapped)"
    by (simp_all add: example_machine_defs live_types_def example_world_mapped_def)
  with mmap_iff_free [OF example_init example_run _ wf] wf show ?thesis by auto
qed

lemma revoke_regs:
  assumes "revoke_cap_token vm sc = (e, sc')"
  shows "revoke_loop vm 0 OK (shared_mem_regs sc) = (e, shared_mem_regs sc')"
  using assms by (auto simp: revoke_cap_token_def split: prod.splits)

lemma find_region_len:
  assumes "map smr_core regs' = map smr_core regs" "map smr_len regs' = map smr_len regs"
  shows "map_option (\<lambda>r. (smr_len r, smr_slice_def_len r)) (find_region t regs') =
    map_option (\<lambda>r. (smr_len r, smr_slice_def_len r)) (find_region t regs)"
  using assms
proof (induction regs' arbitrary: regs)
  case (Cons r' regs')
  then obtain r rs where r: "regs = r # rs" "smr_core r' = smr_core r" "smr_len r' = smr_len r"
      "map smr_core regs' = map smr_core rs" "map smr_len regs' = map smr_len rs"
    by (auto simp: Cons_eq_map_conv)
  have "smr_type r' = smr_type r" "smr_slice_def_len r' = smr_slice_def_len r"
    using arg_cong [OF r(2), of smr_type] arg_cong [OF r(2), of smr_slice_def_len] by simp_all
  with r show ?case using Cons.IH by simp
qed simp

text \<open>
  CAPIO_GOODBYE keeps what the next process needs. Revoking the token never changes the sizes
  that \<open>capio_slice_length_callback\<close> reports for any region, so a later attach maps with the same
  lengths; and when the VM system removes every mapping, it returns no error and no region keeps a
  user address.
\<close>

theorem goodbye_keeps_region_sizes:
  assumes "revoke_cap_token vm sc = (e, sc')"
  shows "capio_slice_length_callback t sc' = capio_slice_length_callback t sc \<and>
    ((\<forall>i. delete_mapping_from_user (vm i) = OK) \<longrightarrow>
      e = OK \<and> (\<forall>r \<in> set (shared_mem_regs sc'). smr_offset r = 0))"
proof -
  note l = revoke_regs [OF assms]
  have "map_option (\<lambda>r. (smr_len r, smr_slice_def_len r)) (find_region t (shared_mem_regs sc')) =
      map_option (\<lambda>r. (smr_len r, smr_slice_def_len r)) (find_region t (shared_mem_regs sc))"
    using find_region_len revoke_loop_core [OF l] revoke_loop_len [OF l] by blast
  then have "capio_slice_length_callback t sc' = capio_slice_length_callback t sc"
    by (auto simp: capio_slice_length_callback_def split: option.splits)
  with revoke_loop_clears [OF l] show ?thesis by blast
qed

theorem goodbye_keeps_region_sizes_witness:
  "\<exists>e sc'. revoke_cap_token (\<lambda>_. example_vm) example_sc_mapped = (e, sc') \<and> e = OK \<and>
     region_length (capio_slice_length_callback 0 sc') = 4096"
proof -
  obtain e sc' where r: "revoke_cap_token (\<lambda>_. example_vm) example_sc_mapped = (e, sc')" by fastforce
  have "delete_mapping_from_user example_vm = OK"
    by (simp add: delete_mapping_from_user_def example_vm_def)
  moreover have "region_length (capio_slice_length_callback 0 example_sc_mapped) = 4096"
    by (simp add: capio_slice_length_callback_def example_machine_defs token_defs capio_pager_ctor_def)
  ultimately show ?thesis using goodbye_keeps_region_sizes [OF r] r by metis
qed

lemma revoke_loop_set_mapped:
  "revoke_loop vm i e (map (set_mapped t b) regs) =
     map_prod id (map (set_mapped t b)) (revoke_loop vm i e regs)"
  by (induction regs arbitrary: i e) (auto simp: Let_def set_mapped_def split: prod.splits)

lemma revoke_loop_mapped:
  assumes "revoke_loop vm i e regs = (e', regs')"
  shows "(\<forall>r \<in> set regs'. \<not> smr_mapped (set_mapped t False r)) \<longleftrightarrow>
    (\<forall>r \<in> set regs. \<not> smr_mapped (set_mapped t False r))"
proof -
  have "(\<forall>r \<in> set xs. \<not> smr_mapped (set_mapped t False r)) \<longleftrightarrow>
      (\<forall>c \<in> set (map smr_core xs). \<not> smr_mapped (set_mapped t False c))" for xs
    by (simp add: set_mapped_def)
  from this [of regs] this [of regs'] show ?thesis unfolding revoke_loop_core [OF assms] by simp
qed

text \<open>
  Removing the mappings inside CAPIO_GOODBYE may run the pager destructor at any point of the
  loop. Destroying an object and revoking the token commute: both orders give the same error, the
  same region table and the same \<open>mapped\<close> flags.
\<close>

lemma goodbye_commutes_with_dtor:
  "revoke_cap_token vm (capio_pager_dtor t sc) =
     map_prod id (capio_pager_dtor t) (revoke_cap_token vm sc)"
proof -
  obtain e regs' where l: "revoke_loop vm 0 OK (shared_mem_regs sc) = (e, regs')" by fastforce
  then show ?thesis
    by (simp add: revoke_cap_token_def capio_pager_dtor_def dtor_loop_eq revoke_loop_set_mapped
        revoke_loop_mapped [OF l])
qed

text \<open>
  C6: On every interleaving of the entry points, a page fault on any live object of a table region is served (never VM_PAGER_BAD), with the
  page at that offset of the region the object was created for: the BAR address plus the offset
  with device attributes for a physical region, the kernel buffer's page with default attributes
  otherwise, and the attribute agrees with the one of the VM object.
\<close>

theorem fault_serves_region_page:
  assumes "capio_init w" "(capio_step drv)\<^sup>*\<^sup>* w w'" "ob \<in> set (w_objs w')"
    and "find_region (vo_type ob) (w_table w) = Some r0"
  shows "capio_pager_fault kextract fict ob off (w_sc w') =
    Some (if smr_is_physical r0 then smr_paddr r0 + off else kextract (smr_addr r0 + off),
          vo_memattr ob, \<not> fict)"
proof -
  have inv: "capio_inv w'" using capio_machine.reachable_inv assms(1,2) by blast
  have tab: "w_table w' = w_table w" using assms(2) by (rule capio_step_table)
  obtain r where r: "find_region (vo_type ob) (shared_mem_regs (w_sc w')) = Some r" "smr_static r = smr_static r0"
    using inv_region [OF inv] assms(4) tab by metis
  have "smr_is_physical r = smr_is_physical r0" "smr_paddr r = smr_paddr r0" "smr_addr r = smr_addr r0"
    using static_eqD [OF r(2)] by simp_all
  moreover have "vo_memattr ob = region_attr r0"
    using inv assms(3,4) tab by (auto simp: capio_inv_def attr_of_def)
  ultimately show ?thesis
    using r(1) by (simp add: capio_pager_fault_def region_attr_def)
qed

theorem fault_serves_region_page_witness:
  "capio_pager_fault (\<lambda>va. va + 0x80000000) False example_obj 0x800 (w_sc example_world_mapped) =
     Some (0x80010800, VM_MEMATTR_DEFAULT, True)"
proof -
  have "example_obj \<in> set (w_objs example_world_mapped)"
      "find_region (vo_type example_obj) (w_table example_world) = Some example_region"
    by (simp_all add: example_world_mapped_def example_machine_defs)
  from fault_serves_region_page [OF example_init serial_steps [OF example_run] this] show ?thesis
    by (simp add: example_region_def example_obj_def)
qed

end
