(* ===== verification/Driver.thy ===== *)
theory Driver
  imports McdiCmds CapioMachine
begin

text \<open>
  The life cycle of the kernel driver (\<^verbatim>\<open>sfc7120.c\<close>): DMA buffers, hardware bring-up and
  teardown, interrupt resources, the CAPIO region table, attach and detach. \<open>goto fail\<close> chains
  of the source are \<open>attempt\<close> with the label as continuation. The answers of newbus and of
  \<open>make_dev_capio\<close> are functions of the trace, like the rest of the environment.
\<close>

section \<open>State\<close>

record softc = hw_sc +
  capio :: capio_softc_t
  mem_resource :: "(nat \<times> nat) option"   \<comment> \<open>start and size of BAR2\<close>
  msix_bar :: bool
  msix_nvec :: int
  irq_resource :: bool
  irq_handle :: bool
  intr_initialized :: bool
  evq_dma :: dmabuf
  data_evq_dma :: dmabuf
  tx_desc_dma :: dmabuf
  rx_desc_dma :: dmabuf
  tx_buf_dma :: dmabuf
  rx_buf_dma :: dmabuf
  evq_ring :: "nat \<Rightarrow> u64"
  data_evq_ring :: "nat \<Rightarrow> u64"
  tx_desc_ring :: "nat \<Rightarrow> u64"
  rx_desc_ring :: "nat \<Rightarrow> u64"
  tx_buffer :: bytes
  rx_buffer :: bytes
  data_evq_read_ptr :: u32
  tx_head :: u32
  rx_head :: u32
  rx_received :: bool
  device_attached :: bool
  cdev :: bool
  dying :: bool

record drv_env = env +
  e_bar2 :: "io list \<Rightarrow> (nat \<times> nat) option"
  e_bar4 :: "io list \<Rightarrow> bool"
  e_msix_count :: "io list \<Rightarrow> int"
  e_msix_alloc :: "io list \<Rightarrow> errno \<times> int"
  e_irq :: "io list \<Rightarrow> bool"
  e_setup_intr :: "io list \<Rightarrow> errno"
  e_make_dev :: "io list \<Rightarrow> bool"
  e_root_sealcap :: capability

text \<open>\<open>error = r; if (error != 0) goto fail;\<close>\<close>

definition attempt :: "(errno \<times> 's) option \<Rightarrow> (errno \<Rightarrow> 's \<Rightarrow> 'r option) \<Rightarrow> ('s \<Rightarrow> 'r option) \<Rightarrow>
    'r option" where
  "attempt r fail k = do { (error, sc) \<leftarrow> r; if error \<noteq> OK then fail error sc else k sc }"

section \<open>CAPIO operations of the driver\<close>

definition sfc7120_get_buffer_size :: "softc \<Rightarrow> int \<Rightarrow> nat" where
  "sfc7120_get_buffer_size sc map_type =
     (if map_type = SFC7120_TX_BUFFER then SFC7120_NUM_TX_DESC * SFC7120_TX_BUFFER_SIZE
      else if map_type = SFC7120_RX_BUFFER then SFC7120_NUM_RX_DESC * SFC7120_RX_BUFFER_SIZE
      else if map_type = SFC7120_MMIO_REGION
      then (case mem_resource sc of None \<Rightarrow> 0 | Some (start, sz) \<Rightarrow> sz)
      else if map_type = SFC7120_MMIO_REGION_UNSLICED then smr_len (shared_mem_regs (capio sc) ! 6)
      else if map_type = SFC7120_TX_DESC_RING then SFC7120_NUM_TX_DESC * SFC7120_TX_DESC_SIZE
      else if map_type = SFC7120_RX_DESC_RING then SFC7120_NUM_RX_DESC * SFC7120_RX_DESC_SIZE
      else if map_type = SFC7120_EVQ_RING then SFC7120_NUM_EVQ_ENTRY * SFC7120_EVQ_ENTRY_SIZE
      else 0)"

definition sfc7120_is_dying :: "softc \<Rightarrow> bool" where
  "sfc7120_is_dying sc = dying sc"

definition sfc7120_close :: "(nat \<Rightarrow> vm_answers) \<Rightarrow> softc option \<Rightarrow> errno \<times> softc option" where
  "sfc7120_close vm header =
     (case header of
        None \<Rightarrow> (OK, None)
      | Some sc \<Rightarrow> (case revoke_access vm (Some (capio sc)) of
                      (_, Some c) \<Rightarrow> (OK, Some (sc\<lparr>capio := c\<rparr>))
                    | (_, None) \<Rightarrow> (OK, Some sc)))"

section \<open>DMA buffers\<close>

definition sfc7120_alloc_dmabuf :: "'e env_scheme \<Rightarrow> nat \<Rightarrow> dmabuf \<Rightarrow> softc \<Rightarrow> errno \<times> dmabuf \<times> softc" where
  "sfc7120_alloc_dmabuf env len d sc =
     (let e1 = e_dma_tag env (trace sc); sc = io [DmaTagCreate len] sc in
      if e1 \<noteq> OK then (e1, d, sc)
      else let d = d\<lparr>db_tag := True\<rparr>; mem = e_dma_mem env (trace sc); sc = io [DmaMemAlloc len] sc in
      case mem of
        Inl e2 \<Rightarrow> (e2, d\<lparr>db_tag := False\<rparr>, io [DmaTagDestroy] sc)
      | Inr va \<Rightarrow>
          let (e3, pa) = e_dma_load env (trace sc); sc = io [DmaMapLoad len] sc;
              d = d\<lparr>db_va := va, db_pa := pa\<rparr> in
          if e3 \<noteq> OK \<or> pa = 0
          then (if e3 \<noteq> OK then e3 else ENOMEM, d\<lparr>db_va := 0, db_tag := False\<rparr>,
                io [DmaMemFree, DmaTagDestroy] sc)
          else (OK, d, sc))"

definition sfc7120_free_dmabuf :: "dmabuf \<Rightarrow> softc \<Rightarrow> dmabuf \<times> softc" where
  "sfc7120_free_dmabuf d sc =
     (let (d, sc) = (if db_pa d \<noteq> 0 then (d\<lparr>db_pa := 0\<rparr>, io [DmaMapUnload] sc) else (d, sc));
          (d, sc) = (if db_va d \<noteq> 0 then (d\<lparr>db_va := 0\<rparr>, io [DmaMemFree] sc) else (d, sc))
      in if db_tag d then (d\<lparr>db_tag := False\<rparr>, io [DmaTagDestroy] sc) else (d, sc))"

definition free_evq :: "softc \<Rightarrow> softc" where
  "free_evq sc = (let (d, sc) = sfc7120_free_dmabuf (evq_dma sc) sc in sc\<lparr>evq_dma := d\<rparr>)"
definition free_data_evq :: "softc \<Rightarrow> softc" where
  "free_data_evq sc = (let (d, sc) = sfc7120_free_dmabuf (data_evq_dma sc) sc in sc\<lparr>data_evq_dma := d\<rparr>)"
definition free_txd :: "softc \<Rightarrow> softc" where
  "free_txd sc = (let (d, sc) = sfc7120_free_dmabuf (tx_desc_dma sc) sc in sc\<lparr>tx_desc_dma := d\<rparr>)"
definition free_rxd :: "softc \<Rightarrow> softc" where
  "free_rxd sc = (let (d, sc) = sfc7120_free_dmabuf (rx_desc_dma sc) sc in sc\<lparr>rx_desc_dma := d\<rparr>)"
definition free_txb :: "softc \<Rightarrow> softc" where
  "free_txb sc = (let (d, sc) = sfc7120_free_dmabuf (tx_buf_dma sc) sc in sc\<lparr>tx_buf_dma := d\<rparr>)"
definition free_rxb :: "softc \<Rightarrow> softc" where
  "free_rxb sc = (let (d, sc) = sfc7120_free_dmabuf (rx_buf_dma sc) sc in sc\<lparr>rx_buf_dma := d\<rparr>)"

definition all_ones :: "nat \<Rightarrow> u64" where
  "all_ones = (\<lambda>_. 0xffffffffffffffff)"

definition sfc7120_alloc_dma_resources :: "'e env_scheme \<Rightarrow> softc \<Rightarrow> errno \<times> softc" where
  "sfc7120_alloc_dma_resources env sc =
     (let (e, d, sc) = sfc7120_alloc_dmabuf env (512 * 8) (evq_dma sc) sc; sc = sc\<lparr>evq_dma := d\<rparr> in
      if e \<noteq> OK then (e, sc) else
      let sc = sc\<lparr>evq_ring := all_ones\<rparr>;
          (e, d, sc) = sfc7120_alloc_dmabuf env (512 * 8) (data_evq_dma sc) sc; sc = sc\<lparr>data_evq_dma := d\<rparr> in
      if e \<noteq> OK then (e, free_evq sc) else
      let sc = sc\<lparr>data_evq_ring := all_ones\<rparr>;
          (e, d, sc) = sfc7120_alloc_dmabuf env (512 * 8) (tx_desc_dma sc) sc; sc = sc\<lparr>tx_desc_dma := d\<rparr> in
      if e \<noteq> OK then (e, free_evq (free_data_evq sc)) else
      let sc = sc\<lparr>tx_desc_ring := (\<lambda>_. 0)\<rparr>;
          (e, d, sc) = sfc7120_alloc_dmabuf env (512 * 8) (rx_desc_dma sc) sc; sc = sc\<lparr>rx_desc_dma := d\<rparr> in
      if e \<noteq> OK then (e, free_evq (free_data_evq (free_txd sc))) else
      let sc = sc\<lparr>rx_desc_ring := (\<lambda>_. 0)\<rparr>;
          (e, d, sc) = sfc7120_alloc_dmabuf env (512 * 2048) (tx_buf_dma sc) sc; sc = sc\<lparr>tx_buf_dma := d\<rparr> in
      if e \<noteq> OK then (e, free_evq (free_data_evq (free_txd (free_rxd sc)))) else
      let sc = sc\<lparr>tx_buffer := (\<lambda>_. 0)\<rparr>;
          (e, d, sc) = sfc7120_alloc_dmabuf env (512 * 2048) (rx_buf_dma sc) sc; sc = sc\<lparr>rx_buf_dma := d\<rparr> in
      if e \<noteq> OK then (e, free_evq (free_data_evq (free_txd (free_rxd (free_txb sc))))) else
      let sc = sc\<lparr>rx_buffer := (\<lambda>_. 0)\<rparr>;
          (e, d, sc) = sfc7120_alloc_dmabuf env 4096 (stats_dma sc) sc; sc = sc\<lparr>stats_dma := d\<rparr> in
      (OK, if e \<noteq> OK then sc\<lparr>stats_dma := d\<lparr>db_va := 0\<rparr>\<rparr> else sc))"

definition sfc7120_free_dma_resources :: "softc \<Rightarrow> softc" where
  "sfc7120_free_dma_resources sc =
     free_evq (free_data_evq (free_txd (free_rxd (free_txb (free_rxb sc)))))"

section \<open>RX ring\<close>

primrec post_rx_loop :: "u64 \<Rightarrow> nat \<Rightarrow> (nat \<Rightarrow> u64) \<Rightarrow> (nat \<Rightarrow> u64)" where
  "post_rx_loop base 0 ring = ring"
| "post_rx_loop base (Suc i) ring =
     (post_rx_loop base i ring)(i := ef10_desc 2048 (base + of_nat (i * SFC7120_RX_BUFFER_SIZE)))"

definition sfc7120_post_rx_buffers :: "softc \<Rightarrow> softc" where
  "sfc7120_post_rx_buffers sc =
     (let npost = SFC7120_NUM_RX_DESC - 1;
          sc = sc\<lparr>rx_desc_ring := post_rx_loop (db_pa (rx_buf_dma sc)) SFC7120_NUM_RX_DESC (rx_desc_ring sc)\<rparr>;
          sc = SFC7120_WRITE_REG SFC7120_REG_DATA_RX_DESC_DBL npost sc
      in sc\<lparr>rx_head := 0\<rparr>)"

section \<open>Hardware bring-up\<close>

text \<open>The 30 rounds of waiting for the link; \<open>n\<close> rounds are left.\<close>

primrec link_poll :: "'e env_scheme \<Rightarrow> nat \<Rightarrow> (errno \<Rightarrow> softc \<Rightarrow> (errno \<times> softc) option) \<Rightarrow> softc \<Rightarrow>
    (errno \<times> softc) option" where
  "link_poll env 0 fail sc = Some (OK, sc)"
| "link_poll env (Suc n) fail sc =
     attempt (sfc7120_mcdi_get_link env sc) fail
       (\<lambda>sc. if link_up sc then Some (OK, sc) else link_poll env n fail (io [Delay 100000] sc))"

definition fail_mcdi :: "errno \<Rightarrow> softc \<Rightarrow> (errno \<times> softc) option" where
  "fail_mcdi error sc = Some (error, sfc7120_mcdi_fini sc)"

definition fail_attach :: "'e env_scheme \<Rightarrow> errno \<Rightarrow> softc \<Rightarrow> (errno \<times> softc) option" where
  "fail_attach env error sc = do { (_, sc) \<leftarrow> sfc7120_mcdi_drv_detach env sc; fail_mcdi error sc }"

definition sfc7120_hw_init :: "'e env_scheme \<Rightarrow> softc \<Rightarrow> (errno \<times> softc) option" where
  "sfc7120_hw_init env sc =
     attempt (sfc7120_mcdi_init env sc) (\<lambda>error sc. Some (error, sc)) (\<lambda>sc.
     attempt (sfc7120_mcdi_get_version env sc) fail_mcdi (\<lambda>sc.
     attempt (sfc7120_mcdi_drv_attach env sc) fail_mcdi (\<lambda>sc.
     attempt (sfc7120_mcdi_clear_assertions env sc) fail_mcdi (\<lambda>sc.
     attempt (sfc7120_mcdi_entity_reset env sc) (fail_attach env) (\<lambda>sc.
     attempt (sfc7120_mcdi_get_mac env sc) (fail_attach env) (\<lambda>sc.
     do { (_, sc) \<leftarrow> sfc7120_mcdi_dump_func_info env sc;
     attempt (sfc7120_mcdi_alloc_vis env 1 32 sc)
       (\<lambda>error sc. fail_attach env error (sfc7120_mcdi_log_mc_state env sc)) (\<lambda>sc.
     attempt (sfc7120_mcdi_vadaptor_alloc env sc)
       (\<lambda>error sc. fail_attach env error (sfc7120_mcdi_log_mc_state env sc)) (\<lambda>sc.
     attempt (sfc7120_mcdi_get_phy_cfg env sc) (fail_attach env) (\<lambda>sc.
     attempt (sfc7120_mcdi_set_mac env sc) (fail_attach env) (\<lambda>sc.
     attempt (sfc7120_mcdi_set_link env sc) (fail_attach env) (\<lambda>sc.
     link_poll env 30 (fail_attach env) sc))))) }))))))"

definition sfc7120_hw_teardown :: "'e env_scheme \<Rightarrow> softc \<Rightarrow> softc option" where
  "sfc7120_hw_teardown env sc =
     do { (_, sc) \<leftarrow> sfc7120_mcdi_filter_remove env sc;
          (_, sc) \<leftarrow> sfc7120_mcdi_fini_txq env 0 sc;
          (_, sc) \<leftarrow> sfc7120_mcdi_fini_rxq env 0 sc;
          (_, sc) \<leftarrow> sfc7120_mcdi_fini_evq env 1 sc;
          (_, sc) \<leftarrow> sfc7120_mcdi_fini_evq env 0 sc;
          (_, sc) \<leftarrow> sfc7120_mcdi_vadaptor_free env sc;
          (_, sc) \<leftarrow> sfc7120_mcdi_free_vis env sc;
          (_, sc) \<leftarrow> sfc7120_mcdi_drv_detach env sc;
          Some (sfc7120_mcdi_fini sc) }"

section \<open>Interrupt resources\<close>

definition sfc7120_intr_setup :: "'e drv_env_scheme \<Rightarrow> softc \<Rightarrow> errno \<times> softc" where
  "sfc7120_intr_setup env sc =
     (if e_msix_count env (trace sc) \<le> 0 then (ENXIO, sc)
      else let bar = e_bar4 env (trace sc); sc = (io [BusAlloc 4] sc)\<lparr>msix_bar := bar\<rparr> in
      if \<not> bar then (ENOMEM, sc)
      else
        let fail_bar = (\<lambda>sc :: softc. (io [BusRelease 4] sc)\<lparr>msix_bar := False\<rparr>);
            fail_msi = (\<lambda>sc. fail_bar ((io [MsixRelease] sc)\<lparr>msix_nvec := 0\<rparr>));
            fail_irq = (\<lambda>sc. fail_msi ((io [BusRelease 1] sc)\<lparr>irq_resource := False\<rparr>));
            (error, count) = e_msix_alloc env (trace sc); sc = io [MsixAlloc] sc in
        if error \<noteq> OK then (error, fail_bar sc)
        else if count \<noteq> 1 then (ENXIO, fail_msi sc)
        else
          let sc = sc\<lparr>msix_nvec := count\<rparr>; irq = e_irq env (trace sc);
              sc = (io [BusAlloc 1] sc)\<lparr>irq_resource := irq\<rparr> in
          if \<not> irq then (ENOMEM, fail_msi sc)
          else
            let error = e_setup_intr env (trace sc); sc = io [IrqSetup] sc in
            if error \<noteq> OK then (error, fail_irq sc)
            else (OK, sc\<lparr>irq_handle := True, intr_initialized := True\<rparr>))"

definition sfc7120_intr_teardown :: "softc \<Rightarrow> softc" where
  "sfc7120_intr_teardown sc =
     (let sc = (if intr_initialized sc \<and> irq_resource sc \<and> irq_handle sc
                then (io [IrqTeardown] sc)\<lparr>irq_handle := False\<rparr> else sc);
          sc = sc\<lparr>intr_initialized := False\<rparr>;
          sc = (if irq_resource sc then (io [BusRelease 1] sc)\<lparr>irq_resource := False\<rparr> else sc);
          sc = (if msix_nvec sc > 0 then (io [MsixRelease] sc)\<lparr>msix_nvec := 0\<rparr> else sc)
      in if msix_bar sc then (io [BusRelease 4] sc)\<lparr>msix_bar := False\<rparr> else sc)"

section \<open>The region table\<close>

definition smem_entry :: "int \<Rightarrow> nat \<Rightarrow> nat \<Rightarrow> shared_mem_region_t" where
  "smem_entry t addr len = \<lparr>smr_type = t, smr_is_physical = False, smr_addr = addr, smr_paddr = 0,
     smr_offset = 0, smr_len = len, smr_mapped = False, smr_is_sliced = False,
     smr_slice_definitions = None, smr_slice_def_len = 0\<rparr>"

text \<open>
  The \<open>smem\<close> array as attach fills it in the zeroed softc; \<open>ablation\<close> is the tunable
  \<^verbatim>\<open>hw.sfc7120pol.ablation\<close>.
\<close>

definition sfc7120_smem :: "int \<Rightarrow> nat \<Rightarrow> nat \<Rightarrow> softc \<Rightarrow> shared_mem_region_t list" where
  "sfc7120_smem ablation bar_start bar_size sc =
     [smem_entry SFC7120_TX_BUFFER (db_va (tx_buf_dma sc)) (SFC7120_NUM_TX_DESC * SFC7120_TX_BUFFER_SIZE),
      smem_entry SFC7120_RX_BUFFER (db_va (rx_buf_dma sc)) (SFC7120_NUM_RX_DESC * SFC7120_RX_BUFFER_SIZE),
      (smem_entry SFC7120_MMIO_REGION 0 bar_size)
        \<lparr>smr_is_physical := True, smr_paddr := bar_start, smr_is_sliced := True,
         smr_slice_definitions := Some sfc7120_reg_slices, smr_slice_def_len := SFC7120_MMIO_SLICE_COUNT\<rparr>,
      smem_entry SFC7120_TX_DESC_RING (db_va (tx_desc_dma sc)) (SFC7120_NUM_TX_DESC * SFC7120_TX_DESC_SIZE),
      smem_entry SFC7120_RX_DESC_RING (db_va (rx_desc_dma sc)) (SFC7120_NUM_RX_DESC * SFC7120_RX_DESC_SIZE),
      smem_entry SFC7120_EVQ_RING (db_va (data_evq_dma sc)) (SFC7120_NUM_EVQ_ENTRY * SFC7120_EVQ_ENTRY_SIZE),
      (smem_entry SFC7120_MMIO_REGION_UNSLICED 0 (if ablation \<noteq> 0 then bar_size else 0))
        \<lparr>smr_is_physical := True, smr_paddr := bar_start, smr_mapped := (ablation = 0)\<rparr>]"

section \<open>Attach and detach\<close>

definition fail_bar :: "errno \<Rightarrow> softc \<Rightarrow> (errno \<times> softc) option" where
  "fail_bar error sc = Some (error, io [BusRelease 2] sc)"

definition fail_hw :: "'e env_scheme \<Rightarrow> errno \<Rightarrow> softc \<Rightarrow> (errno \<times> softc) option" where
  "fail_hw env error sc = do { sc \<leftarrow> sfc7120_hw_teardown env sc; fail_bar error sc }"

definition fail_dma :: "'e env_scheme \<Rightarrow> errno \<Rightarrow> softc \<Rightarrow> (errno \<times> softc) option" where
  "fail_dma env error sc =
     do { sc \<leftarrow> sfc7120_hw_teardown env (sfc7120_intr_teardown sc);
          fail_bar error (sfc7120_free_dma_resources sc) }"

text \<open>Steps 4 to 7 of attach: the cdev, the region table, CAPIO.\<close>

definition attach_cdev :: "'e drv_env_scheme \<Rightarrow> nat \<Rightarrow> nat \<Rightarrow> softc \<Rightarrow> (errno \<times> softc) option" where
  "attach_cdev env bar_start bar_size sc =
     (let ok = e_make_dev env (trace sc); sc = (io [DevMake] sc)\<lparr>cdev := ok\<rparr> in
      if \<not> ok then fail_dma env ENOMEM sc
      else
        let smem = sfc7120_smem (tunable env ''hw.sfc7120pol.ablation'' 0) bar_start bar_size sc;
            sc = sc\<lparr>capio := init_capio_sc (e_root_sealcap env) smem (capio sc)\<rparr>;
            sc = sc\<lparr>device_attached := True\<rparr>;
            (_, sc) = SFC7120_READ_REG env SFC7120_REG_BIU_HW_REV_ID sc
        in Some (OK, sc))"

text \<open>The event queues, the packet queues and the filter.\<close>

definition attach_queues :: "'e drv_env_scheme \<Rightarrow> nat \<Rightarrow> nat \<Rightarrow> softc \<Rightarrow> (errno \<times> softc) option" where
  "attach_queues env bar_start bar_size sc =
     attempt (sfc7120_mcdi_init_evq env 0 (db_pa (evq_dma sc)) SFC7120_NUM_EVQ_ENTRY sc) (fail_dma env)
       (\<lambda>sc. let sc = sc\<lparr>evq_initialized := True\<rparr> in
     attempt (sfc7120_mcdi_init_evq env 1 (db_pa (data_evq_dma sc)) SFC7120_NUM_EVQ_ENTRY sc) (fail_dma env)
       (\<lambda>sc. let sc = sc\<lparr>data_evq_initialized := True\<rparr> in
     attempt (sfc7120_mcdi_init_rxq env 0 1 (db_pa (rx_desc_dma sc)) SFC7120_NUM_RX_DESC sc) (fail_dma env)
       (\<lambda>sc. let sc = sfc7120_post_rx_buffers sc in
     attempt (sfc7120_mcdi_init_txq env 0 1 (db_pa (tx_desc_dma sc)) SFC7120_NUM_TX_DESC sc) (fail_dma env)
       (\<lambda>sc.
     attempt (sfc7120_mcdi_filter_insert env sc) (fail_dma env)
       (\<lambda>sc. attach_cdev env bar_start bar_size sc)))))"

definition sfc7120_fbsd_attach :: "'e drv_env_scheme \<Rightarrow> softc \<Rightarrow> (errno \<times> softc) option" where
  "sfc7120_fbsd_attach env sc =
     (let sc = sc\<lparr>dying := False, device_attached := False\<rparr>;
          bar = e_bar2 env (trace sc); sc = (io [BusAlloc 2] sc)\<lparr>mem_resource := bar\<rparr> in
      case bar of
        None \<Rightarrow> Some (ENXIO, sc)
      | Some (bar_start, bar_size) \<Rightarrow>
          attempt (sfc7120_hw_init env sc) fail_bar (\<lambda>sc.
          attempt (Some (sfc7120_alloc_dma_resources env sc)) (fail_hw env) (\<lambda>sc.
          attempt (Some (sfc7120_intr_setup env sc)) (fail_dma env)
            (attach_queues env bar_start bar_size))))"

definition sfc7120_fbsd_detach :: "'e env_scheme \<Rightarrow> softc \<Rightarrow> (errno \<times> softc) option" where
  "sfc7120_fbsd_detach env sc =
     (let sc = sc\<lparr>device_attached := False, dying := True\<rparr>;
          sc = (if cdev sc then (io [DevDestroy] sc)\<lparr>cdev := False\<rparr> else sc);
          sc = sfc7120_intr_teardown sc in
      do { sc \<leftarrow> sfc7120_hw_teardown env sc;
           let sc = sfc7120_free_dma_resources sc;
               sc = (if mem_resource sc \<noteq> None then (io [BusRelease 2] sc)\<lparr>mem_resource := None\<rparr> else sc)
           in Some (OK, sc) })"

section \<open>Teardown\<close>

definition teardown_requests :: "'a hw_sc_scheme \<Rightarrow> (u32 \<times> u8 list) list" where
  "teardown_requests sc =
     (if rx_filter_inserted sc then [(0x8a, filter_remove_msg (rx_filter_handle sc))] else []) @
     (if txq_initialized sc then [(0x85, wr32 0 0 (replicate 4 0))] else []) @
     (if rxq_initialized sc then [(0x84, wr32 0 0 (replicate 4 0))] else []) @
     (if data_evq_initialized sc then [(0x83, wr32 0 1 (replicate 4 0))] else []) @
     (if evq_initialized sc then [(0x83, wr32 0 0 (replicate 4 0))] else []) @
     (if vadaptor_allocated sc then [(0x99, wr32 0 EVB_PORT_ID_ASSIGNED (replicate 4 0))] else []) @
     (if vis_allocated sc then [(0x8c, [])] else []) @
     (if drv_attached sc then [(0x1c, drv_attach_msg 0 0xffffffff)] else [])"

lemma flags_eq_iff:
  "flags_of sc' = fl \<longleftrightarrow> drv_attached sc' = hf_drv fl \<and> vis_allocated sc' = hf_vis fl \<and>
     evq_initialized sc' = hf_evq fl \<and> data_evq_initialized sc' = hf_data_evq fl \<and>
     vadaptor_allocated sc' = hf_vadaptor fl \<and> rxq_initialized sc' = hf_rxq fl \<and>
     txq_initialized sc' = hf_txq fl \<and> rx_filter_inserted sc' = hf_filter fl"
  by (cases fl) (auto simp: flags_of_def)

lemma ran_step:
  assumes "mc_ok r rq sc P"
  obtains rc sc' where "r = Some (rc, sc')" "mc_ran rq sc sc'" "P rc sc'"
  using assms by (auto simp: mc_ok_def)

text \<open>The commands of \<open>sfc7120_hw_teardown\<close>, up to the release of the mailbox.\<close>

lemma teardown_commands:
  obtains sc' where "sfc7120_hw_teardown env sc = Some (sfc7120_mcdi_fini sc')"
    "mc_ran (teardown_requests sc) sc sc'"
    "\<not> rx_filter_inserted sc'" "\<not> txq_initialized sc'" "\<not> rxq_initialized sc'" "\<not> vadaptor_allocated sc'"
proof -
  obtain r1 s1 where 1: "sfc7120_mcdi_filter_remove env sc = Some (r1, s1)"
    "mc_ran (if rx_filter_inserted sc then [(0x8a, filter_remove_msg (rx_filter_handle sc))] else []) sc s1"
    "flags_of s1 = (flags_of sc)\<lparr>hf_filter := False\<rparr>" by (rule ran_step [OF filter_remove_ok])
  obtain r2 s2 where 2: "sfc7120_mcdi_fini_txq env 0 s1 = Some (r2, s2)"
    "mc_ran (if txq_initialized s1 then [(0x85, wr32 0 0 (replicate 4 0))] else []) s1 s2"
    "flags_of s2 = (flags_of s1)\<lparr>hf_txq := False\<rparr>" by (rule ran_step [OF fini_txq_ok])
  obtain r3 s3 where 3: "sfc7120_mcdi_fini_rxq env 0 s2 = Some (r3, s3)"
    "mc_ran (if rxq_initialized s2 then [(0x84, wr32 0 0 (replicate 4 0))] else []) s2 s3"
    "flags_of s3 = (flags_of s2)\<lparr>hf_rxq := False\<rparr>" by (rule ran_step [OF fini_rxq_ok])
  obtain r4 s4 where 4: "sfc7120_mcdi_fini_evq env 1 s3 = Some (r4, s4)"
    "mc_ran (if data_evq_initialized s3 then [(0x83, wr32 0 1 (replicate 4 0))] else []) s3 s4"
    "flags_of s4 = (if r4 = EBUSY then flags_of s3 else (flags_of s3)\<lparr>hf_data_evq := False\<rparr>)"
    by (rule ran_step [OF fini_evq_ok [of env 1 s3]]) auto
  obtain r5 s5 where 5: "sfc7120_mcdi_fini_evq env 0 s4 = Some (r5, s5)"
    "mc_ran (if evq_initialized s4 then [(0x83, wr32 0 0 (replicate 4 0))] else []) s4 s5"
    "flags_of s5 = (if r5 = EBUSY then flags_of s4 else (flags_of s4)\<lparr>hf_evq := False\<rparr>)"
    by (rule ran_step [OF fini_evq_ok [of env 0 s4]]) auto
  obtain r6 s6 where 6: "sfc7120_mcdi_vadaptor_free env s5 = Some (r6, s6)"
    "mc_ran (if vadaptor_allocated s5 then [(0x99, wr32 0 EVB_PORT_ID_ASSIGNED (replicate 4 0))] else []) s5 s6"
    "flags_of s6 = (flags_of s5)\<lparr>hf_vadaptor := False\<rparr>" by (rule ran_step [OF vadaptor_free_ok])
  obtain r7 s7 where 7: "sfc7120_mcdi_free_vis env s6 = Some (r7, s7)"
    "mc_ran (if vis_allocated s6 then [(0x8c, [])] else []) s6 s7"
    "flags_of s7 = (if r7 = OK then (flags_of s6)\<lparr>hf_vis := False\<rparr> else flags_of s6)"
    by (rule ran_step [OF free_vis_ok])
  obtain r8 s8 where 8: "sfc7120_mcdi_drv_detach env s7 = Some (r8, s8)"
    "mc_ran (if drv_attached s7 then [(0x1c, drv_attach_msg 0 0xffffffff)] else []) s7 s8"
    "flags_of s8 = (if r8 = OK then (flags_of s7)\<lparr>hf_drv := False\<rparr> else flags_of s7)"
    by (rule ran_step [OF drv_detach_ok])
  note fl = 1(3) 2(3) 3(3) 4(3) 5(3) 6(3) 7(3) 8(3)
  have keep: "txq_initialized s1 = txq_initialized sc" "rxq_initialized s2 = rxq_initialized sc"
    "data_evq_initialized s3 = data_evq_initialized sc" "evq_initialized s4 = evq_initialized sc"
    "vadaptor_allocated s5 = vadaptor_allocated sc" "vis_allocated s6 = vis_allocated sc"
    "drv_attached s7 = drv_attached sc"
    using fl by (simp_all add: flags_eq_iff split: if_splits)
  have "mc_ran (teardown_requests sc) sc s8"
    unfolding teardown_requests_def
    using 1(2) 2(2) 3(2) 4(2) 5(2) 6(2) 7(2) 8(2) unfolding keep by (intro mc_ran_trans)
  moreover have "\<not> rx_filter_inserted s8" "\<not> txq_initialized s8" "\<not> rxq_initialized s8" "\<not> vadaptor_allocated s8"
    using fl by (simp_all add: flags_eq_iff split: if_splits)
  moreover have "sfc7120_hw_teardown env sc = Some (sfc7120_mcdi_fini s8)"
    by (simp add: sfc7120_hw_teardown_def 1(1) 2(1) 3(1) 4(1) 5(1) 6(1) 7(1) 8(1))
  ultimately show thesis using that by blast
qed

lemma mcdi_fini_requests [simp]:
  "mc_requests (sfc7120_mcdi_fini sc) = mc_requests sc"
  by (simp add: sfc7120_mcdi_fini_def sfc7120_mcdi_free_buf_def Let_def io_def mc_requests_def
      request_of_def)

lemma mcdi_fini_closed:
  "\<not> mcdi_initialized (sfc7120_mcdi_fini sc)"
  "mcdi_res_ok sc \<Longrightarrow> mcdi_res_clear (sfc7120_mcdi_fini sc)"
  using free_buf_clear(1) [of sc]
  by (auto simp: sfc7120_mcdi_fini_def mcdi_res_ok_def mcdi_res_clear_def split: if_splits)

lemma mcdi_fini_flags [simp]:
  "flags_of (sfc7120_mcdi_fini sc) = flags_of sc"
  "hw_sc.more (sfc7120_mcdi_fini sc) = hw_sc.more sc"
  "rx_filter_inserted (sfc7120_mcdi_fini sc) = rx_filter_inserted sc"
  "txq_initialized (sfc7120_mcdi_fini sc) = txq_initialized sc"
  "rxq_initialized (sfc7120_mcdi_fini sc) = rxq_initialized sc"
  "vadaptor_allocated (sfc7120_mcdi_fini sc) = vadaptor_allocated sc"
  by (simp_all add: sfc7120_mcdi_fini_def sfc7120_mcdi_free_buf_def Let_def io_def flags_of_def)

lemma mc_ran_res_ok: "mc_ran rq sc sc' \<Longrightarrow> mcdi_res_ok sc' = mcdi_res_ok sc"
  by (auto simp: mc_ran_def mcdi_res_ok_def mcdi_res_held_def mcdi_res_clear_def)

text \<open>
  C35: Teardown order. With the channel open, \<open>sfc7120_hw_teardown\<close> never faults and sends, for
  exactly the resources the driver holds, in this order and each once: filter removal, FINI_TXQ,
  FINI_RXQ, FINI_EVQ for the data queue, FINI_EVQ for the control queue, VADAPTOR_FREE, FREE_VIS and
  driver detach. So both packet queues are gone before the event queues they refer to, and the
  vAdaptor before the VIs. Afterwards the filter, queues and vAdaptor count as released, and the
  mailbox is freed. The firmware's answers do not change any of this.
\<close>

theorem hw_teardown_order:
  assumes "mcdi_initialized sc" "mcdi_res_ok sc"
  shows "\<exists>sc'. sfc7120_hw_teardown env sc = Some sc' \<and>
    mc_requests sc' = mc_requests sc @ teardown_requests sc \<and>
    \<not> rx_filter_inserted sc' \<and> \<not> txq_initialized sc' \<and> \<not> rxq_initialized sc' \<and>
    \<not> vadaptor_allocated sc' \<and> \<not> mcdi_initialized sc' \<and> mcdi_res_clear sc'"
proof -
  obtain s where s: "sfc7120_hw_teardown env sc = Some (sfc7120_mcdi_fini s)"
    "mc_ran (teardown_requests sc) sc s"
    "\<not> rx_filter_inserted s" "\<not> txq_initialized s" "\<not> rxq_initialized s" "\<not> vadaptor_allocated s"
    by (rule teardown_commands)
  then show ?thesis
    using mc_ran_requests [OF s(2)] mc_ran_res_ok [OF s(2)] assms mcdi_fini_closed [of s] by simp
qed

definition zero_softc :: softc where
  "zero_softc = \<lparr>trace = [], mcdi_buf = (\<lambda>_. 0), mcdi_buf_va = 0, mcdi_buf_paddr = 0, mcdi_dtag = False,
     mcdi_seq = 0, mcdi_new_epoch = False, mcdi_initialized = False, mcdi_prev_reboot_status = 0,
     mac_addr = replicate 6 0, evq_read_ptr = 0, mcdi_func_flags = 0, vi_base = 0, vi_count = 0,
     mcdi_cap_flags1 = 0, mcdi_caps_valid = False, fw_version = (0, 0), drv_attached = False,
     vis_allocated = False, evq_initialized = False, data_evq_initialized = False,
     vadaptor_allocated = False, rxq_initialized = False, txq_initialized = False,
     phy_supported_cap_mask = 0, phy_adv_cap_mask = 0, phy_media_type = 0, link_up = False,
     full_duplex = False, link_speed_mbps = 0, link_fcntl = 0, mac_configured = False,
     link_configured = False, rx_filter_handle = 0, rx_filter_bcast_handle = 0,
     rx_filter_inserted = False, stats_dma = dmabuf_null, capio = capio_softc_zero, mem_resource = None,
     msix_bar = False, msix_nvec = 0, irq_resource = False, irq_handle = False, intr_initialized = False,
     evq_dma = dmabuf_null, data_evq_dma = dmabuf_null, tx_desc_dma = dmabuf_null,
     rx_desc_dma = dmabuf_null, tx_buf_dma = dmabuf_null, rx_buf_dma = dmabuf_null,
     evq_ring = (\<lambda>_. 0), data_evq_ring = (\<lambda>_. 0), tx_desc_ring = (\<lambda>_. 0), rx_desc_ring = (\<lambda>_. 0),
     tx_buffer = (\<lambda>_. 0), rx_buffer = (\<lambda>_. 0), data_evq_read_ptr = 0, tx_head = 0, rx_head = 0,
     rx_received = False, device_attached = False, cdev = False, dying = False\<rparr>"

definition held_dma :: dmabuf where
  "held_dma = \<lparr>db_tag = True, db_va = 0x1000, db_pa = 0x80001000\<rparr>"

text \<open>A fully brought-up device.\<close>

definition example_softc :: softc where
  "example_softc = zero_softc\<lparr>mcdi_buf_va := 0x2000, mcdi_buf_paddr := 0x80000100, mcdi_dtag := True,
     mcdi_initialized := True, vi_count := 2, drv_attached := True, vis_allocated := True,
     evq_initialized := True, data_evq_initialized := True, vadaptor_allocated := True,
     rxq_initialized := True, txq_initialized := True, rx_filter_inserted := True,
     stats_dma := held_dma, mem_resource := Some (0x90000000, 0x800000), msix_bar := True,
     msix_nvec := 1, irq_resource := True, irq_handle := True, intr_initialized := True,
     evq_dma := held_dma, data_evq_dma := held_dma, tx_desc_dma := held_dma, rx_desc_dma := held_dma,
     tx_buf_dma := held_dma, rx_buf_dma := held_dma, device_attached := True, cdev := True\<rparr>"

lemma example_softc_simps [simp]:
  "mcdi_initialized example_softc" "mcdi_res_ok example_softc" "mc_requests example_softc = []"
  "irq_handle example_softc" "irq_resource example_softc" "intr_initialized example_softc"
  "trace example_softc = []" "stats_dma example_softc = held_dma" "msix_nvec example_softc = 1"
  by (simp_all add: example_softc_def zero_softc_def mcdi_res_ok_def mcdi_res_held_def mc_requests_def)

theorem hw_teardown_order_witness:
  "\<exists>sc'. sfc7120_hw_teardown silent_mc example_softc = Some sc' \<and>
     map fst (mc_requests sc') = [0x8a, 0x85, 0x84, 0x83, 0x83, 0x99, 0x8c, 0x1c]"
proof -
  have "map fst (teardown_requests example_softc) = [0x8a, 0x85, 0x84, 0x83, 0x83, 0x99, 0x8c, 0x1c]"
    by (simp add: teardown_requests_def example_softc_def)
  then show ?thesis using hw_teardown_order [of example_softc silent_mc] by auto
qed

end
