(* ===== verification/DataPath.thy ===== *)
theory DataPath
  imports Driver
begin

text \<open>
  The kernel's own data path (\<^verbatim>\<open>sfc7120.c\<close>): the character-device callbacks with the
  driver's ioctls, among them the synchronous TX and RX handlers, and the interrupt handler of the
  control event queue. The NIC writes the event queues and the RX buffer by DMA at any time, so every
  read of them goes through the environment, as a function of the trace; \<open>copyin\<close> and
  \<open>copyout\<close> answer the same way. Indices are C \<open>int\<close>s that stay in range (proved below)
  and are \<open>u32\<close> here. The tallies that only feed a diagnostic message are left out, and the
  mutex around each handler makes it one step.
\<close>

section \<open>Rings, events and requests\<close>

record nic_env =
  ne_evq :: "io list \<Rightarrow> (nat \<Rightarrow> u64) \<Rightarrow> (nat \<Rightarrow> u64)"
  ne_rxbuf :: "io list \<Rightarrow> bytes \<Rightarrow> bytes"
  ne_copyin :: "io list \<Rightarrow> errno \<times> u8 list"   \<comment> \<open>result and the bytes it stored\<close>
  ne_copyout :: "io list \<Rightarrow> errno"

definition ring_get :: "(nat \<Rightarrow> u64) \<Rightarrow> u32 \<Rightarrow> u64 option" where
  "ring_get ring i = (if unat i < 512 then Some (ring (unat i)) else None)"

definition ring_set :: "(nat \<Rightarrow> u64) \<Rightarrow> u32 \<Rightarrow> u64 \<Rightarrow> (nat \<Rightarrow> u64) option" where
  "ring_set ring i v = (if unat i < 512 then Some (ring(unat i := v)) else None)"

definition next512 :: "u32 \<Rightarrow> u32" where
  "next512 i = (i + 1) AND 511"

text \<open>Packet buffers of 512 slots; a store or load outside faults.\<close>

definition buf_store :: "bytes \<Rightarrow> nat \<Rightarrow> u8 list \<Rightarrow> bytes option" where
  "buf_store m off bs =
     (if off + length bs \<le> 512 * 2048
      then Some (\<lambda>i. if off \<le> i \<and> i < off + length bs then bs ! (i - off) else m i) else None)"

definition buf_load :: "bytes \<Rightarrow> nat \<Rightarrow> nat \<Rightarrow> u8 list option" where
  "buf_load m off n = (if off + n \<le> 512 * 2048 then Some (bytes_at m off n) else None)"

record sfc7120_tx_req_t =
  tx_buf_addr :: capability
  tx_length :: nat
  tx_status :: errno

record sfc7120_rx_req_t =
  rx_out :: "u8 list"        \<comment> \<open>what \<open>copyout\<close> stored at \<open>raw_buffer\<close>\<close>
  length_received :: nat
  rx_status :: errno

record sfc7120_vi_info_req_t =
  vi_tx_buffer_paddr :: u64
  vi_rx_buffer_paddr :: u64
  vi_vi_base :: u32
  vi_evq_instance :: u32
  vi_rxq_instance :: u32
  vi_txq_instance :: u32
  vi_num_tx_desc :: u32
  vi_num_rx_desc :: u32
  vi_num_evq_entry :: u32
  vi_tx_head :: u32
  vi_rx_head :: u32
  vi_evq_read_ptr :: u32

record sfc7120_evq_sync_req_t =
  es_evq_read_ptr :: u32
  es_tx_head :: u32
  es_rx_head :: u32

datatype sfc_req =
    SFC7120_GET_MAC "u8 list"
  | SFC7120_GET_VI_INFO sfc7120_vi_info_req_t
  | SFC7120_SET_EVQ_RPTR sfc7120_evq_sync_req_t
  | SFC7120_TX sfc7120_tx_req_t
  | SFC7120_RX sfc7120_rx_req_t
  | SFC7120_OTHER nat

section \<open>The data event queue\<close>

definition data_evq_read :: "nic_env \<Rightarrow> softc \<Rightarrow> softc" where
  "data_evq_read env sc =
     io [EvqRead 1] (sc\<lparr>data_evq_ring := ne_evq env (trace sc) (data_evq_ring sc)\<rparr>)"

definition data_evq_consume :: "softc \<Rightarrow> softc" where
  "data_evq_consume sc =
     sc\<lparr>data_evq_ring := (data_evq_ring sc)(unat (data_evq_read_ptr sc) := 0),
        data_evq_read_ptr := next512 (data_evq_read_ptr sc)\<rparr>"

definition data_evq_ack :: "nat \<Rightarrow> softc \<Rightarrow> softc" where
  "data_evq_ack consumed sc =
     (if consumed > 0
      then SFC7120_WRITE_REG SFC7120_REG_DATA_EVQ_RPTR_DBL (data_evq_read_ptr sc AND SFC7120_EVQ_RPTR_MASK) sc
      else sc)"

section \<open>Transmit\<close>

definition tx_completes :: "u32 \<Rightarrow> u64 \<Rightarrow> bool" where
  "tx_completes posted_idx ev \<longleftrightarrow> ev_code ev = 2 \<and> ucast (ev AND 0xffff) AND 511 = posted_idx"

text \<open>\<open>tries\<close> rounds are left; the result is \<open>tx_done\<close> and \<open>consumed\<close>.\<close>

primrec tx_poll :: "nic_env \<Rightarrow> u32 \<Rightarrow> nat \<Rightarrow> nat \<Rightarrow> softc \<Rightarrow> (bool \<times> nat \<times> softc) option" where
  "tx_poll env posted_idx 0 consumed sc = Some (False, consumed, sc)"
| "tx_poll env posted_idx (Suc tries) consumed sc =
     (let sc = data_evq_read env sc in
      do { ev \<leftarrow> ring_get (data_evq_ring sc) (data_evq_read_ptr sc);
           if ev_is_empty ev then tx_poll env posted_idx tries consumed sc
           else let sc = data_evq_consume sc in
                if tx_completes posted_idx ev then Some (True, consumed + 1, sc)
                else tx_poll env posted_idx tries (consumed + 1) sc })"

definition sfc7120_tx :: "nic_env \<Rightarrow> sfc7120_tx_req_t \<Rightarrow> softc \<Rightarrow> (errno \<times> sfc7120_tx_req_t \<times> softc) option" where
  "sfc7120_tx env req sc =
     (if \<not> c_tag (tx_buf_addr req) then Some (EINVAL, req, sc)
      else if \<not> c_perm_load (tx_buf_addr req) then Some (EPERM, req, sc)
      else if tx_length req = 0 \<or> tx_length req > SFC7120_TX_BUFFER_SIZE then Some (EINVAL, req, sc)
      else if c_len (tx_buf_addr req) < tx_length req then Some (EINVAL, req, sc)
      else
        let slot = unat (tx_head sc) * SFC7120_TX_BUFFER_SIZE;
            slot_pa = db_pa (tx_buf_dma sc) + of_nat slot;
            (copy_err, bs) = ne_copyin env (trace sc); sc = io [CopyIn (tx_length req)] sc in
        do { tb \<leftarrow> buf_store (tx_buffer sc) slot (take (tx_length req) bs);
             let sc = sc\<lparr>tx_buffer := tb\<rparr>;
             if copy_err \<noteq> OK then Some (copy_err, req, sc)
             else do {
               ring \<leftarrow> ring_set (tx_desc_ring sc) (tx_head sc) (ef10_desc (of_nat (tx_length req)) slot_pa);
               let sc = sc\<lparr>tx_desc_ring := ring\<rparr>;
               let posted_idx = tx_head sc;
               let sc = SFC7120_WRITE_REG SFC7120_REG_DATA_TX_WPTR_DBL (next512 (tx_head sc)) sc;
               (tx_done, consumed, sc) \<leftarrow> tx_poll env posted_idx 10000 0 sc;
               let sc = data_evq_ack consumed sc;
               let sc = sc\<lparr>tx_head := next512 (tx_head sc)\<rparr>;
               let status = (if tx_done then OK else ETIMEDOUT);
               Some (status, req\<lparr>tx_status := status\<rparr>, sc) } })"

section \<open>Receive\<close>

primrec rx_poll :: "nic_env \<Rightarrow> nat \<Rightarrow> nat \<Rightarrow> softc \<Rightarrow> (u32 option \<times> nat \<times> softc) option" where
  "rx_poll env 0 consumed sc = Some (None, consumed, sc)"
| "rx_poll env (Suc tries) consumed sc =
     (let sc = data_evq_read env sc in
      do { ev \<leftarrow> ring_get (data_evq_ring sc) (data_evq_read_ptr sc);
           if ev_is_empty ev then rx_poll env tries consumed sc
           else let sc = data_evq_consume sc in
                if ev_code ev = 0 then Some (Some (ucast (ev AND 0x3fff)), consumed + 1, sc)
                else rx_poll env tries (consumed + 1) sc })"

text \<open>Frame length: the little-endian word at prefix offset 8, or from the event if that is 0.\<close>

definition rx_plen :: "u8 \<Rightarrow> u8 \<Rightarrow> u32 \<Rightarrow> nat" where
  "rx_plen lo hi rx_bytes =
     (let plen = (ucast lo OR push_bit 8 (ucast hi) :: u16) in
      unat (if plen \<noteq> 0 then plen
            else if rx_bytes > 14 then ucast (rx_bytes - 14) else 0 :: u16))"

text \<open>Steps 4 to 6: copy the frame out, post the slot again, advance.\<close>

definition rx_slot :: "nic_env \<Rightarrow> sfc7120_rx_req_t \<Rightarrow> u32 \<Rightarrow> softc \<Rightarrow> (errno \<times> sfc7120_rx_req_t \<times> softc) option" where
  "rx_slot env req rx_bytes sc =
     (let slot = unat (rx_head sc) * SFC7120_RX_BUFFER_SIZE;
          sc = io [RxBufRead] (sc\<lparr>rx_buffer := ne_rxbuf env (trace sc) (rx_buffer sc)\<rparr>) in
      do { pfx \<leftarrow> buf_load (rx_buffer sc) slot 10;
           let plen = rx_plen (pfx ! 8) (pfx ! 9) rx_bytes;
           frame \<leftarrow> buf_load (rx_buffer sc) (slot + 14) plen;
           let copy_err = ne_copyout env (trace sc);
           let sc = io [CopyOut plen] sc;
           if copy_err \<noteq> OK then Some (copy_err, req, sc)
           else do {
             let slot_pa = db_pa (rx_buf_dma sc) + of_nat slot;
             ring \<leftarrow> ring_set (rx_desc_ring sc) (rx_head sc) (ef10_desc 2048 slot_pa);
             let sc = sc\<lparr>rx_desc_ring := ring\<rparr>;
             let sc = SFC7120_WRITE_REG SFC7120_REG_RX_DESC_DBL (rx_head sc) sc;
             let sc = sc\<lparr>rx_head := next512 (rx_head sc)\<rparr>;
             Some (OK, req\<lparr>rx_out := frame, length_received := plen, rx_status := OK\<rparr>, sc) } })"

definition sfc7120_rx :: "nic_env \<Rightarrow> sfc7120_rx_req_t \<Rightarrow> softc \<Rightarrow> (errno \<times> sfc7120_rx_req_t \<times> softc) option" where
  "sfc7120_rx env req sc =
     do { (rx_found, consumed, sc) \<leftarrow> rx_poll env 100000 0 sc;
          let sc = data_evq_ack consumed sc;
          (case rx_found of
             None \<Rightarrow> Some (ETIMEDOUT, req, sc)
           | Some rx_bytes \<Rightarrow> rx_slot env req rx_bytes sc) }"

section \<open>The character device\<close>

definition get_vi_info :: "softc \<Rightarrow> sfc7120_vi_info_req_t" where
  "get_vi_info sc = \<lparr>vi_tx_buffer_paddr = db_pa (tx_buf_dma sc), vi_rx_buffer_paddr = db_pa (rx_buf_dma sc),
     vi_vi_base = vi_base sc, vi_evq_instance = of_nat SFC7120_DATA_EVQ_INSTANCE,
     vi_rxq_instance = of_nat SFC7120_RXQ_INSTANCE, vi_txq_instance = of_nat SFC7120_TXQ_INSTANCE,
     vi_num_tx_desc = 512, vi_num_rx_desc = 512, vi_num_evq_entry = 512, vi_tx_head = tx_head sc,
     vi_rx_head = rx_head sc, vi_evq_read_ptr = data_evq_read_ptr sc\<rparr>"

definition set_evq_rptr :: "sfc7120_evq_sync_req_t \<Rightarrow> softc \<Rightarrow> errno \<times> softc" where
  "set_evq_rptr req sc =
     (if unat (es_evq_read_ptr req) \<ge> SFC7120_NUM_EVQ_ENTRY \<or> unat (es_tx_head req) \<ge> SFC7120_NUM_TX_DESC \<or>
         unat (es_rx_head req) \<ge> SFC7120_NUM_RX_DESC
      then (EINVAL, sc)
      else (OK, sc\<lparr>data_evq_read_ptr := es_evq_read_ptr req, tx_head := es_tx_head req,
                   rx_head := es_rx_head req\<rparr>))"

definition sfc7120_ioctl :: "nic_env \<Rightarrow> sfc_req \<Rightarrow> softc \<Rightarrow> (errno \<times> sfc_req \<times> softc) option" where
  "sfc7120_ioctl env data sc =
     (case data of
        SFC7120_GET_MAC _ \<Rightarrow> Some (OK, SFC7120_GET_MAC (mac_addr sc), sc)
      | SFC7120_GET_VI_INFO _ \<Rightarrow> Some (OK, SFC7120_GET_VI_INFO (get_vi_info sc), sc)
      | SFC7120_SET_EVQ_RPTR req \<Rightarrow> (case set_evq_rptr req sc of (e, sc) \<Rightarrow> Some (e, data, sc))
      | SFC7120_TX req \<Rightarrow> do { (e, req, sc) \<leftarrow> sfc7120_tx env req sc; Some (e, SFC7120_TX req, sc) }
      | SFC7120_RX req \<Rightarrow> do { (e, req, sc) \<leftarrow> sfc7120_rx env req sc; Some (e, SFC7120_RX req, sc) }
      | SFC7120_OTHER _ \<Rightarrow> Some (ENOTTY, data, sc))"

abbreviation (input) POLLIN :: u32 where "POLLIN \<equiv> 0x1"
abbreviation (input) POLLRDNORM :: u32 where "POLLRDNORM \<equiv> 0x40"
abbreviation (input) POLLERR :: u32 where "POLLERR \<equiv> 0x8"

definition sfc7120_poll :: "u32 \<Rightarrow> softc option \<Rightarrow> u32" where
  "sfc7120_poll events header =
     (case header of
        None \<Rightarrow> POLLERR
      | Some sc \<Rightarrow> if rx_received sc then events AND (POLLIN OR POLLRDNORM) else 0)"

definition sfc7120_rx_task_handler :: "softc \<Rightarrow> softc" where
  "sfc7120_rx_task_handler sc = sc\<lparr>rx_received := True\<rparr>"

text \<open>\<open>handled\<close> is the result of \<open>sysctl_handle_int\<close>, \<open>newval\<close> the value written, if any.\<close>

definition sfc7120_sysctl_mac_stats ::
  "'e env_scheme \<Rightarrow> errno \<Rightarrow> int option \<Rightarrow> softc \<Rightarrow> (errno \<times> softc) option" where
  "sfc7120_sysctl_mac_stats env handled newval sc =
     (if handled \<noteq> OK \<or> newval = None then Some (handled, sc)
      else if newval \<noteq> Some 0 then do { (_, sc) \<leftarrow> sfc7120_mcdi_mac_stats env sc; Some (OK, sc) }
      else Some (OK, sc))"

definition sfc7120_dump_regs :: "'e env_scheme \<Rightarrow> softc \<Rightarrow> softc" where
  "sfc7120_dump_regs env sc = snd (SFC7120_READ_REG env SFC7120_REG_BIU_HW_REV_ID sc)"

section \<open>The interrupt handler\<close>

fun sfc7120_linkchange_speed_mbps :: "u32 \<Rightarrow> u32" where
  "sfc7120_linkchange_speed_mbps code =
     (if code = 1 then 100 else if code = 2 then 1000 else if code = 3 then 10000
      else if code = 4 then 40000 else if code = 5 then 25000 else if code = 6 then 50000
      else if code = 7 then 100000 else 0)"

definition evq_read :: "nic_env \<Rightarrow> softc \<Rightarrow> softc" where
  "evq_read env sc = io [EvqRead 0] (sc\<lparr>evq_ring := ne_evq env (trace sc) (evq_ring sc)\<rparr>)"

definition evq_consume :: "softc \<Rightarrow> softc" where
  "evq_consume sc = sc\<lparr>evq_ring := (evq_ring sc)(unat (evq_read_ptr sc) := 0),
     evq_read_ptr := next512 (evq_read_ptr sc)\<rparr>"

text \<open>The link state an MCDI LINKCHANGE event carries; other events change nothing.\<close>

definition isr_event :: "u64 \<Rightarrow> softc \<Rightarrow> softc" where
  "isr_event ev sc =
     (let lo = ucast (ev AND 0xffffffff) :: u32; hi = ucast (drop_bit 32 ev) :: u32;
          code = drop_bit 28 hi AND 0xf in
      if code = 12 \<and> drop_bit 12 hi AND 0xff = 4
      then let flags = drop_bit 24 lo AND 0xff; scode = drop_bit 16 lo AND 0xf;
               fcntl = drop_bit 20 lo AND 0xf
           in sc\<lparr>link_up := (flags AND 1 \<noteq> 0), full_duplex := (flags AND 2 \<noteq> 0),
                 link_speed_mbps := sfc7120_linkchange_speed_mbps scode, link_fcntl := fcntl\<rparr>
      else sc)"

text \<open>\<open>left\<close> is SFC7120_NUM_EVQ_ENTRY minus \<open>processed\<close>; the result counts the events handled.\<close>

primrec isr_loop :: "nic_env \<Rightarrow> nat \<Rightarrow> softc \<Rightarrow> (nat \<times> softc) option" where
  "isr_loop env 0 sc = Some (0, sc)"
| "isr_loop env (Suc left) sc =
     (let sc = evq_read env sc in
      do { ev \<leftarrow> ring_get (evq_ring sc) (evq_read_ptr sc);
           if ev_is_empty ev then Some (0, sc)
           else do { (n, sc) \<leftarrow> isr_loop env left (evq_consume (isr_event ev sc)); Some (Suc n, sc) } })"

definition sfc7120_interrupt_handler :: "nic_env \<Rightarrow> softc \<Rightarrow> softc option" where
  "sfc7120_interrupt_handler env sc =
     (if db_va (evq_dma sc) = 0 then Some sc
      else if dying sc \<or> \<not> evq_initialized sc then Some sc
      else do { (processed, sc) \<leftarrow> isr_loop env SFC7120_NUM_EVQ_ENTRY sc;
                Some (if processed > 0
                      then SFC7120_WRITE_REG SFC7120_REG_EVQ_RPTR_DBL
                             (evq_read_ptr sc AND SFC7120_EVQ_RPTR_MASK) sc
                      else sc) })"

section \<open>Event queues as an interface\<close>

text \<open>
  A consumer of an event queue looks at the slot under its read pointer and, when it holds an event,
  takes it: the slot is cleared and the pointer moves to the next of the 512 slots. The contract is
  stated once and holds for the control queue, the data queue and the user library's view of it.
\<close>

locale event_queue =
  fixes slots :: "'s \<Rightarrow> nat \<Rightarrow> u64" and rptr :: "'s \<Rightarrow> nat" and take_event :: "'s \<Rightarrow> 's"
  assumes take_slots: "rptr s < 512 \<Longrightarrow> slots (take_event s) = (slots s)(rptr s := 0)"
    and take_rptr: "rptr s < 512 \<Longrightarrow> rptr (take_event s) = Suc (rptr s) mod 512"
begin

lemma take_in_range: "rptr s < 512 \<Longrightarrow> rptr (take_event s) < 512"
  by (simp add: take_rptr)

lemma rptr_takes: "rptr s < 512 \<Longrightarrow> rptr ((take_event ^^ n) s) = (rptr s + n) mod 512"
  by (induction n) (simp_all add: take_rptr mod_Suc_eq)

text \<open>Taking \<open>n\<close> events clears exactly the next \<open>n\<close> slots.\<close>

lemma slots_takes:
  assumes "rptr s < 512" "i < 512"
  shows "slots ((take_event ^^ n) s) i =
    (if \<exists>k < n. i = (rptr s + k) mod 512 then 0 else slots s i)"
proof (induction n)
  case (Suc n)
  have "rptr ((take_event ^^ n) s) < 512" using assms by (simp add: rptr_takes)
  then have "slots ((take_event ^^ Suc n) s) i =
      (if i = (rptr s + n) mod 512 then 0 else slots ((take_event ^^ n) s) i)"
    using assms by (simp add: take_slots rptr_takes)
  with Suc show ?case by (auto simp: less_Suc_eq)
qed simp

text \<open>After 512 takes the queue is empty and the pointer is back.\<close>

lemma drain:
  assumes "rptr s < 512" "i < 512"
  shows "slots ((take_event ^^ 512) s) i = 0" "rptr ((take_event ^^ 512) s) = rptr s"
proof -
  have "i = (rptr s + (i + 512 - rptr s) mod 512) mod 512"
    using assms by (simp add: mod_simps)
  then have "\<exists>k < 512. i = (rptr s + k) mod 512"
    by (intro exI [of _ "(i + 512 - rptr s) mod 512"]) simp
  then show "slots ((take_event ^^ 512) s) i = 0" by (simp add: slots_takes assms)
  show "rptr ((take_event ^^ 512) s) = rptr s" using assms by (simp add: rptr_takes)
qed

end

lemma unat_next512: "unat (next512 i) = Suc (unat i) mod 512"
  by (simp add: next512_def ring512.unat_next)

lemma next512_less [simp]: "unat (next512 i) < 512"
  by (simp add: unat_next512)

interpretation data_evq: event_queue data_evq_ring "\<lambda>sc. unat (data_evq_read_ptr sc)" data_evq_consume
  by unfold_locales (simp_all add: data_evq_consume_def unat_next512)

interpretation control_evq: event_queue evq_ring "\<lambda>sc. unat (evq_read_ptr sc)" evq_consume
  by unfold_locales (simp_all add: evq_consume_def unat_next512)

section \<open>The polling loops\<close>

text \<open>Both handlers poll the same way; they differ in what they are waiting for.\<close>

primrec evq_poll :: "nic_env \<Rightarrow> (u64 \<Rightarrow> 'r option) \<Rightarrow> nat \<Rightarrow> nat \<Rightarrow> softc \<Rightarrow> ('r option \<times> nat \<times> softc) option" where
  "evq_poll env wanted 0 consumed sc = Some (None, consumed, sc)"
| "evq_poll env wanted (Suc tries) consumed sc =
     (let sc = data_evq_read env sc in
      do { ev \<leftarrow> ring_get (data_evq_ring sc) (data_evq_read_ptr sc);
           if ev_is_empty ev then evq_poll env wanted tries consumed sc
           else case wanted ev of
             Some r \<Rightarrow> Some (Some r, consumed + 1, data_evq_consume sc)
           | None \<Rightarrow> evq_poll env wanted tries (consumed + 1) (data_evq_consume sc) })"

definition tx_wanted :: "u32 \<Rightarrow> u64 \<Rightarrow> unit option" where
  "tx_wanted posted_idx ev = (if tx_completes posted_idx ev then Some () else None)"

definition rx_wanted :: "u64 \<Rightarrow> u32 option" where
  "rx_wanted ev = (if ev_code ev = 0 then Some (ucast (ev AND 0x3fff)) else None)"

lemma tx_poll_eq:
  "tx_poll env p n c sc = map_option (\<lambda>(r, c, s). (r \<noteq> None, c, s)) (evq_poll env (tx_wanted p) n c sc)"
proof (induction n arbitrary: c sc)
  case (Suc n)
  show ?case
    by (cases "ring_get (data_evq_ring (data_evq_read env sc)) (data_evq_read_ptr (data_evq_read env sc))")
      (simp_all add: Suc tx_wanted_def Let_def)
qed simp

lemma rx_poll_eq: "rx_poll env n c sc = evq_poll env rx_wanted n c sc"
proof (induction n arbitrary: c sc)
  case (Suc n)
  show ?case
    by (cases "ring_get (data_evq_ring (data_evq_read env sc)) (data_evq_read_ptr (data_evq_read env sc))")
      (simp_all add: Suc rx_wanted_def Let_def)
qed simp

text \<open>Polling touches the data event queue and the trace only.\<close>

definition evq_frame :: "softc \<Rightarrow> softc" where
  "evq_frame sc = sc\<lparr>trace := [], data_evq_ring := all_ones, data_evq_read_ptr := 0\<rparr>"

lemma evq_frame_poll [simp]:
  "evq_frame (data_evq_read env sc) = evq_frame sc" "evq_frame (data_evq_consume sc) = evq_frame sc"
  "evq_frame (data_evq_ack c sc) = evq_frame sc" "evq_frame (io tr sc) = evq_frame sc"
  by (simp_all add: evq_frame_def data_evq_read_def data_evq_consume_def data_evq_ack_def io_def
      SFC7120_WRITE_REG_def)

lemma data_evq_read_simps [simp]:
  "data_evq_read_ptr (data_evq_read env sc) = data_evq_read_ptr sc"
  "data_evq_ring (data_evq_read env sc) = ne_evq env (trace sc) (data_evq_ring sc)"
  "trace (data_evq_read env sc) = trace sc @ [EvqRead 1]"
  "trace (data_evq_consume sc) = trace sc"
  by (simp_all add: data_evq_read_def data_evq_consume_def io_def)

text \<open>An event the NIC showed at some point of the polling.\<close>

definition nic_showed :: "nic_env \<Rightarrow> u64 \<Rightarrow> bool" where
  "nic_showed env ev \<longleftrightarrow> (\<exists>tr ring i. i < 512 \<and> ne_evq env tr ring i = ev) \<and> \<not> ev_is_empty ev"

lemma evq_poll_spec:
  assumes "unat (data_evq_read_ptr sc) < 512"
  shows "\<exists>r c' s reads. evq_poll env wanted n c sc = Some (r, c', s) \<and> evq_frame s = evq_frame sc \<and>
    c \<le> c' \<and> c' \<le> c + n \<and> unat (data_evq_read_ptr s) = (unat (data_evq_read_ptr sc) + (c' - c)) mod 512 \<and>
    trace s = trace sc @ replicate reads (EvqRead 1) \<and> reads \<le> n \<and>
    (\<forall>x. r = Some x \<longrightarrow> c < c' \<and> (\<exists>ev. nic_showed env ev \<and> wanted ev = Some x))"
  using assms
proof (induction n arbitrary: c sc)
  case 0
  then show ?case by simp
next
  case (Suc n)
  let ?s = "data_evq_read env sc"
  let ?ev = "ne_evq env (trace sc) (data_evq_ring sc) (unat (data_evq_read_ptr sc))"
  have get: "ring_get (data_evq_ring ?s) (data_evq_read_ptr ?s) = Some ?ev"
    using Suc.prems by (simp add: ring_get_def)
  have ptr: "unat (data_evq_read_ptr (data_evq_consume ?s)) = Suc (unat (data_evq_read_ptr sc)) mod 512"
    using data_evq.take_rptr [of ?s] Suc.prems by simp
  consider (empty) "ev_is_empty ?ev" | (hit) x where "\<not> ev_is_empty ?ev" "wanted ?ev = Some x"
    | (miss) "\<not> ev_is_empty ?ev" "wanted ?ev = None" by fastforce
  then show ?case
  proof cases
    case empty
    have "unat (data_evq_read_ptr ?s) < 512" using Suc.prems by simp
    from Suc.IH [OF this, of c]
    obtain r c' s reads where "evq_poll env wanted n c ?s = Some (r, c', s)" "evq_frame s = evq_frame ?s"
      "c \<le> c'" "c' \<le> c + n" "unat (data_evq_read_ptr s) = (unat (data_evq_read_ptr ?s) + (c' - c)) mod 512"
      "trace s = trace ?s @ replicate reads (EvqRead 1)" "reads \<le> n"
      "\<forall>x. r = Some x \<longrightarrow> c < c' \<and> (\<exists>ev. nic_showed env ev \<and> wanted ev = Some x)"
      by blast
    with empty get show ?thesis
      by (intro exI [of _ r] exI [of _ c'] exI [of _ s] exI [of _ "Suc reads"]) (simp add: Let_def)
  next
    case hit
    have "nic_showed env ?ev" unfolding nic_showed_def using hit(1) Suc.prems by blast
    with hit get ptr Suc.prems show ?thesis
      by (intro exI [of _ "Some x"] exI [of _ "Suc c"] exI [of _ "data_evq_consume ?s"] exI [of _ 1])
        (auto simp: Let_def)
  next
    case miss
    have "unat (data_evq_read_ptr (data_evq_consume ?s)) < 512" using ptr by simp
    from Suc.IH [OF this, of "Suc c"]
    obtain r c' s reads where i: "evq_poll env wanted n (Suc c) (data_evq_consume ?s) = Some (r, c', s)"
      "evq_frame s = evq_frame (data_evq_consume ?s)" "Suc c \<le> c'" "c' \<le> Suc c + n"
      "unat (data_evq_read_ptr s) = (unat (data_evq_read_ptr (data_evq_consume ?s)) + (c' - Suc c)) mod 512"
      "trace s = trace (data_evq_consume ?s) @ replicate reads (EvqRead 1)" "reads \<le> n"
      "\<forall>x. r = Some x \<longrightarrow> Suc c < c' \<and> (\<exists>ev. nic_showed env ev \<and> wanted ev = Some x)"
      by blast
    obtain d where d: "c' = Suc c + d" using i(3) le_Suc_ex by blast
    have "unat (data_evq_read_ptr s) = (unat (data_evq_read_ptr sc) + (c' - c)) mod 512"
      unfolding i(5) ptr d by (simp add: mod_add_left_eq)
    with miss get i show ?thesis
      by (intro exI [of _ r] exI [of _ c'] exI [of _ s] exI [of _ "Suc reads"]) (auto simp: Let_def)
  qed
qed

section \<open>The ioctl handlers\<close>

definition dp_ok :: "softc \<Rightarrow> bool" where
  "dp_ok sc \<longleftrightarrow> unat (data_evq_read_ptr sc) < 512 \<and> unat (evq_read_ptr sc) < 512 \<and>
     unat (tx_head sc) < 512 \<and> unat (rx_head sc) < 512"

lemma evq_frame_eqD:
  assumes "evq_frame s = evq_frame sc"
  shows "tx_head s = tx_head sc" "rx_head s = rx_head sc" "evq_read_ptr s = evq_read_ptr sc"
    "tx_desc_ring s = tx_desc_ring sc" "rx_desc_ring s = rx_desc_ring sc" "tx_buffer s = tx_buffer sc"
    "rx_buffer s = rx_buffer sc" "rx_buf_dma s = rx_buf_dma sc" "tx_buf_dma s = tx_buf_dma sc"
    "evq_ring s = evq_ring sc"
  using arg_cong [OF assms, of tx_head] arg_cong [OF assms, of rx_head] arg_cong [OF assms, of evq_read_ptr]
    arg_cong [OF assms, of tx_desc_ring] arg_cong [OF assms, of rx_desc_ring]
    arg_cong [OF assms, of tx_buffer] arg_cong [OF assms, of rx_buffer] arg_cong [OF assms, of rx_buf_dma]
    arg_cong [OF assms, of tx_buf_dma] arg_cong [OF assms, of evq_ring]
  by (simp_all add: evq_frame_def)

lemma tx_poll_spec:
  assumes "unat (data_evq_read_ptr sc) < 512"
  obtains d c s reads where "tx_poll env p n 0 sc = Some (d, c, s)" "evq_frame s = evq_frame sc"
    "unat (data_evq_read_ptr s) = (unat (data_evq_read_ptr sc) + c) mod 512"
    "trace s = trace sc @ replicate reads (EvqRead 1)" "reads \<le> n"
    "d \<longrightarrow> (\<exists>ev. nic_showed env ev \<and> tx_completes p ev)"
proof -
  obtain r c s reads where "evq_poll env (tx_wanted p) n 0 sc = Some (r, c, s)" "evq_frame s = evq_frame sc"
    "unat (data_evq_read_ptr s) = (unat (data_evq_read_ptr sc) + (c - 0)) mod 512"
    "trace s = trace sc @ replicate reads (EvqRead 1)" "reads \<le> n"
    "\<forall>x. r = Some x \<longrightarrow> 0 < c \<and> (\<exists>ev. nic_showed env ev \<and> tx_wanted p ev = Some x)"
    using evq_poll_spec [OF assms, of env "tx_wanted p" n 0] by blast
  then show thesis
    using that [of "r \<noteq> None" c s reads] by (auto simp: tx_poll_eq tx_wanted_def split: if_splits)
qed

lemma rx_poll_spec:
  assumes "unat (data_evq_read_ptr sc) < 512"
  obtains r c s reads where "rx_poll env n 0 sc = Some (r, c, s)" "evq_frame s = evq_frame sc"
    "unat (data_evq_read_ptr s) = (unat (data_evq_read_ptr sc) + c) mod 512"
    "trace s = trace sc @ replicate reads (EvqRead 1)" "reads \<le> n"
    "\<forall>x. r = Some x \<longrightarrow> (\<exists>ev. nic_showed env ev \<and> ev_code ev = 0 \<and> ucast (ev AND 0x3fff) = x)"
proof -
  obtain r c s reads where "evq_poll env rx_wanted n 0 sc = Some (r, c, s)" "evq_frame s = evq_frame sc"
    "unat (data_evq_read_ptr s) = (unat (data_evq_read_ptr sc) + (c - 0)) mod 512"
    "trace s = trace sc @ replicate reads (EvqRead 1)" "reads \<le> n"
    "\<forall>x. r = Some x \<longrightarrow> 0 < c \<and> (\<exists>ev. nic_showed env ev \<and> rx_wanted ev = Some x)"
    using evq_poll_spec [OF assms, of env rx_wanted n 0] by blast
  then show thesis
    using that [of r c s reads] by (fastforce simp: rx_poll_eq rx_wanted_def split: if_splits)
qed

definition tx_valid :: "sfc7120_tx_req_t \<Rightarrow> bool" where
  "tx_valid req \<longleftrightarrow> c_tag (tx_buf_addr req) \<and> c_perm_load (tx_buf_addr req) \<and> 0 < tx_length req \<and>
     tx_length req \<le> 2048 \<and> tx_length req \<le> c_len (tx_buf_addr req)"

lemma tx_invalid:
  "\<not> tx_valid req \<Longrightarrow> \<exists>e. sfc7120_tx env req sc = Some (e, req, sc) \<and> (e = EINVAL \<or> e = EPERM)"
  by (auto simp: sfc7120_tx_def tx_valid_def not_le)

lemma slot_fits: "h < 512 \<Longrightarrow> n \<le> 2048 \<Longrightarrow> h * 2048 + n \<le> 512 * (2048 :: nat)"
  by simp

text \<open>
  The body of the TX handler after its checks: \<open>s\<close> is the state when the polling loop, run after the
  descriptor was posted and the doorbell rung, ends with \<open>tx_done = d\<close> and \<open>consumed = c\<close>.
\<close>

definition tx_ran :: "nic_env \<Rightarrow> sfc7120_tx_req_t \<Rightarrow> bytes \<Rightarrow> softc \<Rightarrow> bool \<Rightarrow> nat \<Rightarrow> softc \<Rightarrow> bool" where
  "tx_ran env req tb sc d c s \<longleftrightarrow>
     evq_frame s = evq_frame (sc\<lparr>tx_buffer := tb, tx_desc_ring := (tx_desc_ring sc)(unat (tx_head sc) :=
       ef10_desc (of_nat (tx_length req)) (db_pa (tx_buf_dma sc) + of_nat (unat (tx_head sc) * 2048)))\<rparr>) \<and>
     unat (data_evq_read_ptr s) = (unat (data_evq_read_ptr sc) + c) mod 512 \<and>
     (\<exists>reads \<le> 10000. trace s = trace sc @
       [CopyIn (tx_length req), RegWr SFC7120_REG_DATA_TX_WPTR_DBL (next512 (tx_head sc))] @
       replicate reads (EvqRead 1)) \<and>
     (d \<longrightarrow> (\<exists>ev. nic_showed env ev \<and> tx_completes (tx_head sc) ev))"

lemma tx_valid_spec:
  assumes "tx_valid req" "dp_ok sc" and cp: "ne_copyin env (trace sc) = (err, bs)"
  obtains (fault) tb where "err \<noteq> OK"
      "buf_store (tx_buffer sc) (unat (tx_head sc) * 2048) (take (tx_length req) bs) = Some tb"
      "sfc7120_tx env req sc = Some (err, req, (io [CopyIn (tx_length req)] sc)\<lparr>tx_buffer := tb\<rparr>)"
    | (sent) tb d c s where "err = OK"
      "buf_store (tx_buffer sc) (unat (tx_head sc) * 2048) (take (tx_length req) bs) = Some tb"
      "tx_ran env req tb sc d c s"
      "sfc7120_tx env req sc =
        Some (if d then OK else ETIMEDOUT, req\<lparr>tx_status := (if d then OK else ETIMEDOUT)\<rparr>,
              (data_evq_ack c s)\<lparr>tx_head := next512 (tx_head sc)\<rparr>)"
proof -
  let ?h = "unat (tx_head sc)" and ?n = "tx_length req"
  let ?pa = "db_pa (tx_buf_dma sc) + of_nat (?h * 2048)"
  let ?bs = "take ?n bs"
  have n: "?n \<le> 2048" "?n \<noteq> 0" "\<not> c_len (tx_buf_addr req) < ?n" "c_tag (tx_buf_addr req)"
    "c_perm_load (tx_buf_addr req)" using assms(1) by (auto simp: tx_valid_def)
  have h: "?h < 512" "unat (data_evq_read_ptr sc) < 512" using assms(2) by (auto simp: dp_ok_def)
  have "?h * 2048 + length ?bs \<le> 512 * 2048" using slot_fits [OF h(1), of "length ?bs"] n(1) by simp
  then obtain tb where tb: "buf_store (tx_buffer sc) (?h * 2048) ?bs = Some tb" by (simp add: buf_store_def)
  define s1 where "s1 = (io [CopyIn ?n] sc)\<lparr>tx_buffer := tb\<rparr>"
  define s2 where "s2 = SFC7120_WRITE_REG SFC7120_REG_DATA_TX_WPTR_DBL (next512 (tx_head sc))
    (s1\<lparr>tx_desc_ring := (tx_desc_ring sc)(?h := ef10_desc (of_nat ?n) ?pa)\<rparr>)"
  have s1: "tx_head s1 = tx_head sc" "tx_desc_ring s1 = tx_desc_ring sc" by (simp_all add: s1_def io_def)
  have eq: "sfc7120_tx env req sc =
      (if err \<noteq> OK then Some (err, req, s1)
       else do { (d, c, s) \<leftarrow> tx_poll env (tx_head sc) 10000 0 s2;
            Some (if d then OK else ETIMEDOUT, req\<lparr>tx_status := (if d then OK else ETIMEDOUT)\<rparr>,
                  (data_evq_ack c s)\<lparr>tx_head := next512 (tx_head (data_evq_ack c s))\<rparr>) })"
    using n tb h
    by (simp add: sfc7120_tx_def cp Let_def io_def ring_set_def s1_def s2_def SFC7120_WRITE_REG_def)
  have "unat (data_evq_read_ptr s2) < 512"
    using h by (simp add: s2_def s1_def SFC7120_WRITE_REG_def io_def)
  then obtain d c s reads where s: "tx_poll env (tx_head sc) 10000 0 s2 = Some (d, c, s)"
    "evq_frame s = evq_frame s2" "unat (data_evq_read_ptr s) = (unat (data_evq_read_ptr s2) + c) mod 512"
    "trace s = trace s2 @ replicate reads (EvqRead 1)" "reads \<le> 10000"
    "d \<longrightarrow> (\<exists>ev. nic_showed env ev \<and> tx_completes (tx_head sc) ev)"
    by (rule tx_poll_spec)
  have "tx_head (data_evq_ack c s) = tx_head s" by (rule evq_frame_eqD) simp
  also have "\<dots> = tx_head s2" by (rule evq_frame_eqD(1)) (rule s(2))
  also have "\<dots> = tx_head sc" by (simp add: s2_def s1_def SFC7120_WRITE_REG_def io_def)
  finally have th: "tx_head (data_evq_ack c s) = tx_head sc" .
  have fr: "evq_frame s2 = evq_frame (sc\<lparr>tx_buffer := tb, tx_desc_ring := (tx_desc_ring sc)(?h :=
      ef10_desc (of_nat ?n) ?pa)\<rparr>)"
    by (simp add: s2_def s1_def SFC7120_WRITE_REG_def io_def evq_frame_def)
  have tr: "trace s2 = trace sc @ [CopyIn ?n, RegWr SFC7120_REG_DATA_TX_WPTR_DBL (next512 (tx_head sc))]"
    "data_evq_read_ptr s2 = data_evq_read_ptr sc"
    by (simp_all add: s2_def s1_def SFC7120_WRITE_REG_def io_def)
  have ran: "tx_ran env req tb sc d c s"
    using s fr tr by (auto simp: tx_ran_def)
  show thesis
  proof (cases "err = OK")
    case False
    then show thesis using tb by (intro fault [of tb]) (simp_all add: eq s1_def)
  next
    case True
    then show thesis using tb ran by (intro sent [of tb d c s]) (simp_all add: eq s(1) th)
  qed
qed

lemma buf_store_Some:
  assumes "buf_store m off bs = Some m'"
  shows "bytes_at m' off (length bs) = bs" "i < off \<or> off + length bs \<le> i \<Longrightarrow> m' i = m i"
  using assms by (auto simp: buf_store_def bytes_at_def intro!: nth_equalityI split: if_splits)

text \<open>
  C13: Transmit. \<open>sfc7120_tx\<close> refuses a request whose capability is untagged, not readable or too
  short, or whose length is 0 or above 2048, without any effect. For a valid request whose bytes
  \<open>copyin\<close> delivered it returns after at most 10000 polls without a fault; the bytes are in the
  slot of the TX buffer under \<open>tx_head\<close> and nowhere else, that slot's descriptor decodes to exactly
  their length and the slot's bus address, no other descriptor changed, the doorbell got the next
  index, \<open>tx_head\<close> moved to it, and the result is OK only if the NIC reported the completion of
  this descriptor, otherwise ETIMEDOUT.
\<close>

theorem tx_ioctl_contract:
  assumes "dp_ok sc" "unat (db_pa (tx_buf_dma sc)) + 512 * 2048 \<le> 2 ^ 48"
    and "ne_copyin env (trace sc) = (OK, bs)" "length bs = tx_length req"
  shows "if tx_valid req then
      (\<exists>e sc'. sfc7120_tx env req sc = Some (e, req\<lparr>tx_status := e\<rparr>, sc') \<and>
         (let h = unat (tx_head sc) in
          bytes_at (tx_buffer sc') (h * 2048) (tx_length req) = bs \<and>
          (\<forall>i. i < h * 2048 \<or> h * 2048 + tx_length req \<le> i \<longrightarrow> tx_buffer sc' i = tx_buffer sc i) \<and>
          unat (desc_byte_cnt (tx_desc_ring sc' h)) = tx_length req \<and>
          unat (desc_buf_addr (tx_desc_ring sc' h)) = unat (db_pa (tx_buf_dma sc)) + h * 2048 \<and>
          (\<forall>i. i \<noteq> h \<longrightarrow> tx_desc_ring sc' i = tx_desc_ring sc i) \<and>
          RegWr SFC7120_REG_DATA_TX_WPTR_DBL (tx_head sc') \<in> set (trace sc') \<and>
          unat (tx_head sc') = Suc h mod 512) \<and>
         (e = OK \<and> (\<exists>ev. nic_showed env ev \<and> tx_completes (tx_head sc) ev) \<or> e = ETIMEDOUT))
    else \<exists>e. sfc7120_tx env req sc = Some (e, req, sc) \<and> (e = EINVAL \<or> e = EPERM)"
proof (cases "tx_valid req")
  case False
  then show ?thesis using tx_invalid by simp
next
  case True
  have h: "unat (tx_head sc) < 512" using assms(1) by (simp add: dp_ok_def)
  have n: "tx_length req \<le> 2048" using True by (simp add: tx_valid_def)
  from True assms(1,3) show ?thesis
  proof (cases rule: tx_valid_spec)
    case (sent tb d c s)
    let ?s = "(data_evq_ack c s)\<lparr>tx_head := next512 (tx_head sc)\<rparr>"
    let ?d = "ef10_desc (of_nat (tx_length req)) (db_pa (tx_buf_dma sc) + of_nat (unat (tx_head sc) * 2048))"
    have fr: "evq_frame (data_evq_ack c s) = evq_frame (sc\<lparr>tx_buffer := tb,
        tx_desc_ring := (tx_desc_ring sc)(unat (tx_head sc) := ?d)\<rparr>)"
      using sent(3) by (simp add: tx_ran_def)
    have mem: "tx_buffer ?s = tb" "tx_desc_ring ?s = (tx_desc_ring sc)(unat (tx_head sc) := ?d)"
      using evq_frame_eqD(4,6) [OF fr] by simp_all
    have "unat (of_nat (tx_length req) :: u64) = tx_length req" using n by (simp add: unat_of_nat)
    moreover from this have "(of_nat (tx_length req) :: u64) AND 0x3fff = of_nat (tx_length req)"
      using and_mask_small [of "of_nat (tx_length req) :: u64" 14] n by (simp add: desc_mask)
    ultimately have cnt: "unat (desc_byte_cnt ?d) = tx_length req" by (simp add: desc_byte_cnt_ef10_desc)
    have "RegWr SFC7120_REG_DATA_TX_WPTR_DBL (next512 (tx_head sc)) \<in> set (trace ?s)"
      using sent(3) by (auto simp: tx_ran_def data_evq_ack_def SFC7120_WRITE_REG_def io_def)
    with True sent cnt mem assms(4) buf_store_Some [OF sent(2)] slot_desc_addr [OF assms(2) h]
    show ?thesis by (auto simp: Let_def unat_next512 tx_ran_def)
  qed simp
qed

text \<open>\<open>rx_slot\<close> without its bounds checks, in terms of the state \<open>s\<close> after the look at the buffer.\<close>

definition rx_deliver :: "nic_env \<Rightarrow> sfc7120_rx_req_t \<Rightarrow> nat \<Rightarrow> softc \<Rightarrow> errno \<times> sfc7120_rx_req_t \<times> softc" where
  "rx_deliver env req plen s =
     (let slot = unat (rx_head s) * 2048 in
      if ne_copyout env (trace s) \<noteq> OK then (ne_copyout env (trace s), req, io [CopyOut plen] s)
      else (OK, req\<lparr>rx_out := bytes_at (rx_buffer s) (slot + 14) plen, length_received := plen, rx_status := OK\<rparr>,
            (SFC7120_WRITE_REG SFC7120_REG_RX_DESC_DBL (rx_head s) ((io [CopyOut plen] s)
              \<lparr>rx_desc_ring := (rx_desc_ring s)(unat (rx_head s) :=
                  ef10_desc 2048 (db_pa (rx_buf_dma s) + of_nat slot))\<rparr>))
              \<lparr>rx_head := next512 (rx_head s)\<rparr>))"

definition slot_plen :: "softc \<Rightarrow> u32 \<Rightarrow> nat" where
  "slot_plen s rx_bytes = rx_plen (rx_buffer s (unat (rx_head s) * 2048 + 8))
     (rx_buffer s (unat (rx_head s) * 2048 + 9)) rx_bytes"

lemma bytes_at_nth: "i < n \<Longrightarrow> bytes_at m off n ! i = m (off + i)"
  by (simp add: bytes_at_def)

lemma rx_slot_eq:
  assumes "unat (rx_head sc) < 512"
    and "s = io [RxBufRead] (sc\<lparr>rx_buffer := ne_rxbuf env (trace sc) (rx_buffer sc)\<rparr>)"
  shows "rx_slot env req b sc =
    (if unat (rx_head s) * 2048 + 14 + slot_plen s b \<le> 512 * 2048
     then Some (rx_deliver env req (slot_plen s b) s) else None)"
proof -
  have s: "rx_head s = rx_head sc" using assms(2) by (simp add: io_def)
  have "buf_load (rx_buffer s) (unat (rx_head sc) * 2048) 10 =
      Some (bytes_at (rx_buffer s) (unat (rx_head sc) * 2048) 10)"
    using slot_fits [OF assms(1), of 10] by (simp add: buf_load_def)
  then have "rx_slot env req b sc =
      do { frame \<leftarrow> buf_load (rx_buffer s) (unat (rx_head s) * 2048 + 14) (slot_plen s b);
           if ne_copyout env (trace s) \<noteq> OK
           then Some (ne_copyout env (trace s), req, io [CopyOut (slot_plen s b)] s)
           else Some (OK, req\<lparr>rx_out := frame, length_received := slot_plen s b, rx_status := OK\<rparr>,
             (SFC7120_WRITE_REG SFC7120_REG_RX_DESC_DBL (rx_head s) ((io [CopyOut (slot_plen s b)] s)
               \<lparr>rx_desc_ring := (rx_desc_ring s)(unat (rx_head s) :=
                  ef10_desc 2048 (db_pa (rx_buf_dma s) + of_nat (unat (rx_head s) * 2048)))\<rparr>))
               \<lparr>rx_head := next512 (rx_head s)\<rparr>) }"
    unfolding rx_slot_def Let_def assms(2) [symmetric] slot_plen_def s
    using assms(1) s by (simp add: bytes_at_nth ring_set_def io_def SFC7120_WRITE_REG_def cong: if_cong)
  then show ?thesis by (simp add: buf_load_def rx_deliver_def Let_def)
qed

lemma rx_spec:
  assumes "dp_ok sc"
  obtains (timeout) s where "sfc7120_rx env req sc = Some (ETIMEDOUT, req, s)" "evq_frame s = evq_frame sc"
      "unat (data_evq_read_ptr s) < 512"
    | (found) s ev m where "sfc7120_rx env req sc =
        (if unat (rx_head s) * 2048 + 14 + slot_plen s (ucast (ev AND 0x3fff)) \<le> 512 * 2048
         then Some (rx_deliver env req (slot_plen s (ucast (ev AND 0x3fff))) s) else None)"
      "evq_frame s = evq_frame (sc\<lparr>rx_buffer := ne_rxbuf env m (rx_buffer sc)\<rparr>)"
      "unat (data_evq_read_ptr s) < 512" "nic_showed env ev" "ev_code ev = 0"
proof -
  have h: "unat (rx_head sc) < 512" "unat (data_evq_read_ptr sc) < 512" using assms by (auto simp: dp_ok_def)
  obtain r c s reads where s: "rx_poll env 100000 0 sc = Some (r, c, s)" "evq_frame s = evq_frame sc"
    "unat (data_evq_read_ptr s) = (unat (data_evq_read_ptr sc) + c) mod 512"
    "\<forall>x. r = Some x \<longrightarrow> (\<exists>ev. nic_showed env ev \<and> ev_code ev = 0 \<and> ucast (ev AND 0x3fff) = x)"
    by (rule rx_poll_spec [OF h(2)])
  let ?s = "data_evq_ack c s"
  have ptr: "unat (data_evq_read_ptr ?s) < 512"
    using s(3) by (simp add: data_evq_ack_def SFC7120_WRITE_REG_def io_def)
  have fr: "evq_frame ?s = evq_frame sc" using s(2) by simp
  note f = evq_frame_eqD [OF fr]
  show thesis
  proof (cases r)
    case None
    then show thesis using s(1) fr ptr by (intro timeout [of ?s]) (simp_all add: sfc7120_rx_def)
  next
    case (Some x)
    with s(4) obtain ev where ev: "nic_showed env ev" "ev_code ev = 0" "ucast (ev AND 0x3fff) = x" by blast
    let ?m = "trace ?s"
    define s' where "s' = io [RxBufRead] (?s\<lparr>rx_buffer := ne_rxbuf env ?m (rx_buffer ?s)\<rparr>)"
    have "evq_frame s' = (evq_frame ?s)\<lparr>rx_buffer := ne_rxbuf env ?m (rx_buffer sc)\<rparr>"
      by (simp add: s'_def io_def evq_frame_def f)
    also have "\<dots> = evq_frame (sc\<lparr>rx_buffer := ne_rxbuf env ?m (rx_buffer sc)\<rparr>)"
      unfolding fr by (simp add: evq_frame_def)
    finally have fr': "evq_frame s' = evq_frame (sc\<lparr>rx_buffer := ne_rxbuf env ?m (rx_buffer sc)\<rparr>)" .
    have "unat (rx_head ?s) < 512" "unat (data_evq_read_ptr s') < 512"
      using h f ptr by (simp_all add: s'_def io_def)
    moreover have "sfc7120_rx env req sc = rx_slot env req x ?s"
      using s(1) Some by (simp add: sfc7120_rx_def)
    ultimately show thesis
      using found [of s' ev ?m] ev fr' rx_slot_eq [of ?s s' env req x] by (simp add: s'_def)
  qed
qed

definition tx_nic :: nic_env where
  "tx_nic = \<lparr>ne_evq = (\<lambda>_ _ _. 0x2000000000000000), ne_rxbuf = (\<lambda>_ m. m),
     ne_copyin = (\<lambda>_. (OK, replicate 60 7)), ne_copyout = (\<lambda>_. OK)\<rparr>"

definition user_frame_cap :: capability where
  "user_frame_cap = null_cap\<lparr>c_tag := True, c_addr := 0x4000, c_base := 0x4000, c_len := 60,
     c_perm_load := True\<rparr>"

definition tx_example :: sfc7120_tx_req_t where
  "tx_example = \<lparr>tx_buf_addr = user_frame_cap, tx_length = 60, tx_status = OK\<rparr>"

lemma example_softc_dp [simp]:
  "dp_ok example_softc" "tx_head example_softc = 0" "rx_head example_softc = 0"
  "data_evq_read_ptr example_softc = 0" "evq_read_ptr example_softc = 0"
  "db_pa (tx_buf_dma example_softc) = 0x80001000" "db_pa (rx_buf_dma example_softc) = 0x80001000"
  "rx_buffer example_softc = (\<lambda>_. 0)"
  by (simp_all add: dp_ok_def example_softc_def zero_softc_def held_dma_def)

theorem tx_ioctl_contract_witness:
  "\<exists>e req' sc'. sfc7120_tx tx_nic tx_example example_softc = Some (e, req', sc') \<and>
     bytes_at (tx_buffer sc') 0 60 = replicate 60 7 \<and> unat (tx_head sc') = 1"
proof -
  have "tx_valid tx_example" by (simp add: tx_valid_def tx_example_def user_frame_cap_def)
  moreover have "ne_copyin tx_nic (trace example_softc) = (OK, replicate 60 7)"
    "tx_length tx_example = 60" by (simp_all add: tx_nic_def tx_example_def)
  ultimately show ?thesis
    using tx_ioctl_contract [of example_softc tx_nic "replicate 60 7" tx_example]
    by (auto simp: Let_def)
qed

text \<open>
  The length of a received frame by the layout of the EF10 RX prefix: the number whose low byte is
  prefix byte 8 and whose high byte is prefix byte 9; if it is 0 (cut-through), the byte count of the
  RX event without the 14 bytes of the prefix. It is stated over numbers, apart from the handler.
\<close>

definition frame_length :: "u8 \<Rightarrow> u8 \<Rightarrow> u64 \<Rightarrow> nat" where
  "frame_length b8 b9 ev =
     (let n = unat b8 + 256 * unat b9 in if n = 0 then unat ev mod 16384 - 14 else n)"

lemma unat_ucast_small: "unat x < 2 ^ LENGTH('b) \<Longrightarrow> unat (ucast (x :: 'a::len word) :: 'b::len word) = unat x"
  by (simp add: unsigned_ucast_eq take_bit_nat_eq_self_iff)

lemma rx_plen_frame_length: "rx_plen b8 b9 (ucast (ev AND 0x3fff)) = frame_length b8 b9 ev"
proof -
  let ?p = "ucast b8 OR push_bit 8 (ucast b9) :: u16" and ?b = "ucast (ev AND 0x3fff) :: u32"
  have lt: "unat b8 < 256" "unat b9 < 256" using unsigned_less [of b8] unsigned_less [of b9] by simp_all
  have "?p = ucast b8 + push_bit 8 (ucast b9)"
    by (rule disjunctive_add [symmetric]) (auto simp: bit_simps dest: bit_imp_le_length)
  moreover have "unat (push_bit 8 (ucast b9) :: u16) = 256 * unat b9"
    using lt by (simp add: push_bit_eq_mult unat_word_ariths unat_ucast_small)
  ultimately have p: "unat ?p = unat b8 + 256 * unat b9"
    using lt by (simp add: unat_word_ariths unat_ucast_small)
  have m: "unat (ev AND 0x3fff) = unat ev mod 16384"
    unfolding desc_mask take_bit_eq_mask [symmetric] unsigned_take_bit_eq by (simp add: take_bit_eq_mod)
  then have b: "unat ?b = unat ev mod 16384" by (subst unat_ucast_small) (auto intro: less_trans [OF mod_less_divisor])
  have "unat (if ?b > 14 then ucast (?b - 14) else 0 :: u16) = unat ev mod 16384 - 14"
  proof (cases "?b > 14")
    case True
    then have "unat (?b - 14) = unat ev mod 16384 - 14"
      using b by (simp add: unat_sub word_less_nat_alt word_le_nat_alt)
    moreover have "unat ev mod 16384 < 16384" by simp
    ultimately show ?thesis using True by (simp add: unat_ucast_small)
  qed (use b in \<open>simp add: word_less_nat_alt\<close>)
  then show ?thesis using p by (auto simp: rx_plen_def frame_length_def Let_def simp flip: unat_eq_zero)
qed

text \<open>
  What the NIC promises about received frames: they fit the 2048-byte buffer of a descriptor, prefix
  included. The handler itself does not check it.
\<close>

definition frames_fit :: "nic_env \<Rightarrow> bool" where
  "frames_fit env \<longleftrightarrow> (\<forall>tr m h ev. h < 512 \<and> nic_showed env ev \<and> ev_code ev = 0 \<longrightarrow>
     frame_length (ne_rxbuf env tr m (h * 2048 + 8)) (ne_rxbuf env tr m (h * 2048 + 9)) ev \<le> 2034)"

lemma rx_in_slot:
  assumes "dp_ok sc" "frames_fit env"
  obtains (timeout) s where "sfc7120_rx env req sc = Some (ETIMEDOUT, req, s)" "evq_frame s = evq_frame sc"
      "unat (data_evq_read_ptr s) < 512"
    | (found) s plen m ev where "sfc7120_rx env req sc = Some (rx_deliver env req plen s)" "plen \<le> 2034"
      "evq_frame s = evq_frame (sc\<lparr>rx_buffer := ne_rxbuf env m (rx_buffer sc)\<rparr>)"
      "unat (data_evq_read_ptr s) < 512" "nic_showed env ev" "ev_code ev = 0"
      "plen = frame_length (rx_buffer s (unat (rx_head sc) * 2048 + 8)) (rx_buffer s (unat (rx_head sc) * 2048 + 9)) ev"
  using assms(1)
proof (cases rule: rx_spec [where env = env and req = req])
  case (found s ev m)
  have s: "rx_head s = rx_head sc" "rx_buffer s = ne_rxbuf env m (rx_buffer sc)"
    using evq_frame_eqD(2,7) [OF found(2)] by simp_all
  have h: "unat (rx_head sc) < 512" using assms(1) by (simp add: dp_ok_def)
  define plen where "plen = frame_length (rx_buffer s (unat (rx_head sc) * 2048 + 8))
    (rx_buffer s (unat (rx_head sc) * 2048 + 9)) ev"
  have pl: "slot_plen s (ucast (ev AND 0x3fff)) = plen"
    by (simp add: slot_plen_def rx_plen_frame_length plen_def s(1))
  have "plen \<le> 2034"
    using assms(2) found(4,5) h unfolding frames_fit_def plen_def s by blast
  then show thesis
    using that(2) [of plen s m ev] found slot_fits [OF h, of "14 + plen"] s(1) pl plen_def by simp
qed (use that(1) in blast)

text \<open>
  C14: Receive. If the NIC keeps received frames within their buffers, \<open>sfc7120_rx\<close> returns after at
  most 100000 polls without a fault. On success the caller gets the bytes of the slot under
  \<open>rx_head\<close> behind the 14-byte prefix, exactly as many as the prefix says (byte 8 plus 256 times byte
  9, or, if that is 0, the byte count of an RX event the NIC showed less 14) and at most 2034, and
  the reported length is their number; the slot's descriptor is posted again
  for the same buffer, no other descriptor changes, the doorbell is rung with the slot's index and
  \<open>rx_head\<close> moves to the next slot. On an error the request, the RX descriptors and \<open>rx_head\<close>
  are as before.
\<close>

theorem rx_ioctl_contract:
  assumes "dp_ok sc" "frames_fit env" "unat (db_pa (rx_buf_dma sc)) + 512 * 2048 \<le> 2 ^ 48"
  shows "\<exists>e req' sc'. sfc7120_rx env req sc = Some (e, req', sc') \<and>
    (let h = unat (rx_head sc) in
     if e = OK
     then length_received req' \<le> 2034 \<and>
       (\<exists>ev. nic_showed env ev \<and> ev_code ev = 0 \<and> length_received req' =
          frame_length (rx_buffer sc' (h * 2048 + 8)) (rx_buffer sc' (h * 2048 + 9)) ev) \<and>
       rx_out req' = bytes_at (rx_buffer sc') (h * 2048 + 14) (length_received req') \<and>
       unat (desc_buf_addr (rx_desc_ring sc' h)) = unat (db_pa (rx_buf_dma sc)) + h * 2048 \<and>
       desc_byte_cnt (rx_desc_ring sc' h) = 2048 \<and>
       (\<forall>i. i \<noteq> h \<longrightarrow> rx_desc_ring sc' i = rx_desc_ring sc i) \<and>
       last (trace sc') = RegWr SFC7120_REG_RX_DESC_DBL (rx_head sc) \<and> unat (rx_head sc') = Suc h mod 512
     else req' = req \<and> rx_desc_ring sc' = rx_desc_ring sc \<and> rx_head sc' = rx_head sc)"
  using assms(1,2)
proof (cases rule: rx_in_slot [where req = req])
  case (timeout s)
  then show ?thesis using evq_frame_eqD [OF timeout(2)] by (simp add: Let_def)
next
  case (found s plen m ev)
  note f = evq_frame_eqD [OF found(3)]
  have h: "unat (rx_head sc) < 512" using assms(1) by (simp add: dp_ok_def)
  show ?thesis
    using found(1,2) f slot_desc_addr [OF assms(3) h, of 2048] found(5-7)
    by (cases "ne_copyout env (trace s) = OK")
      (auto simp add: rx_deliver_def Let_def SFC7120_WRITE_REG_def io_def unat_next512 desc_byte_cnt_ef10_desc)
qed

definition rx_nic :: nic_env where
  "rx_nic = tx_nic\<lparr>ne_evq := (\<lambda>_ _ _. 0x40), ne_rxbuf := (\<lambda>_ _ _. 0)\<rparr>"

lemma rx_nic_shows: "nic_showed rx_nic ev \<Longrightarrow> ev = 0x40"
  by (auto simp: nic_showed_def rx_nic_def)

lemma rx_nic_fits: "frames_fit rx_nic"
proof -
  have "frame_length 0 0 0x40 = 50" by (simp add: frame_length_def)
  moreover have "ne_rxbuf rx_nic tr m i = 0" for tr m i by (simp add: rx_nic_def)
  ultimately show ?thesis unfolding frames_fit_def by (auto dest!: rx_nic_shows)
qed

theorem rx_ioctl_contract_witness:
  "\<exists>e req' sc'. sfc7120_rx rx_nic \<lparr>rx_out = [], length_received = 0, rx_status = OK\<rparr> example_softc =
      Some (e, req', sc') \<and> (if e = OK then length_received req' \<le> 2034 \<and> unat (rx_head sc') = 1 else rx_head sc' = 0)"
proof -
  obtain e req' sc' where "sfc7120_rx rx_nic \<lparr>rx_out = [], length_received = 0, rx_status = OK\<rparr> example_softc =
      Some (e, req', sc')" "e = OK \<longrightarrow> length_received req' \<le> 2034 \<and> unat (rx_head sc') = 1"
      "e \<noteq> OK \<longrightarrow> rx_head sc' = 0"
    using rx_ioctl_contract [of example_softc rx_nic "\<lparr>rx_out = [], length_received = 0, rx_status = OK\<rparr>"]
      rx_nic_fits by (auto simp: Let_def split: if_splits)
  then show ?thesis by (intro exI conjI) auto
qed

section \<open>The interrupt handler\<close>

text \<open>
  The control queue as an abstract FIFO: the events from the read pointer up to the first empty
  slot, at most one round.
\<close>

definition pending :: "(nat \<Rightarrow> u64) \<Rightarrow> nat \<Rightarrow> nat \<Rightarrow> u64 list" where
  "pending ring p k = takeWhile (\<lambda>ev. \<not> ev_is_empty ev) (map (\<lambda>i. ring ((p + i) mod 512)) [0..<k])"

definition pending_events :: "softc \<Rightarrow> u64 list" where
  "pending_events sc = pending (evq_ring sc) (unat (evq_read_ptr sc)) 512"

lemma pending_0 [simp]: "pending ring p 0 = []"
  by (simp add: pending_def)

lemma pending_Suc:
  assumes "p < 512" "k \<le> 511"
  shows "pending ring p (Suc k) =
    (if ev_is_empty (ring p) then [] else ring p # pending (ring(p := 0)) (Suc p mod 512) k)"
proof -
  have idx: "(Suc p mod 512 + i) mod 512 = (p + Suc i) mod 512" for i by (simp add: mod_simps)
  have ne: "(p + Suc i) mod 512 \<noteq> p" if "i < k" for i
    using that assms by (cases "p + Suc i < 512") (auto simp: le_mod_geq)
  have "map (\<lambda>i. ring ((p + i) mod 512)) [0..<Suc k] =
      ring p # map (\<lambda>i. (ring(p := 0)) ((Suc p mod 512 + i) mod 512)) [0..<k]"
    using assms(1) ne by (simp add: upt_conv_Cons map_Suc_upt [symmetric] idx del: upt_Suc)
  then show ?thesis by (simp add: pending_def)
qed

lemma pending_le: "length (pending ring p k) \<le> k"
  unfolding pending_def using length_takeWhile_le [of _ "map (\<lambda>i. ring ((p + i) mod 512)) [0..<k]"] by simp

text \<open>The link state, and the one a LINKCHANGE event announces, by the bit fields of the event.\<close>

definition link_of :: "softc \<Rightarrow> bool \<times> bool \<times> u32 \<times> u32" where
  "link_of sc = (link_up sc, full_duplex sc, link_speed_mbps sc, link_fcntl sc)"

definition linkchange :: "u64 \<Rightarrow> (bool \<times> bool \<times> u32 \<times> u32) option" where
  "linkchange ev =
     (if drop_bit 60 ev = 12 \<and> drop_bit 44 ev AND 0xff = 4
      then Some (bit ev 24, bit ev 25, sfc7120_linkchange_speed_mbps (ucast (drop_bit 16 ev AND 0xf)),
                 ucast (drop_bit 20 ev AND 0xf))
      else None)"

lemma masks: "0xf = (mask 4 :: 'a :: len word)" "0xff = (mask 8 :: 'a word)" "0xffffffff = (mask 32 :: 'a word)"
  by (simp_all add: mask_eq_exp_minus_1)

lemma isr_fields:
  fixes ev :: u64
  defines "lo \<equiv> ucast (ev AND 0xffffffff) :: u32" and "hi \<equiv> ucast (drop_bit 32 ev) :: u32"
  shows "drop_bit 28 hi AND 0xf = ucast (drop_bit 60 ev)" "drop_bit 12 hi AND 0xff = ucast (drop_bit 44 ev AND 0xff)"
    "drop_bit 16 lo AND 0xf = ucast (drop_bit 16 ev AND 0xf)" "drop_bit 20 lo AND 0xf = ucast (drop_bit 20 ev AND 0xf)"
    "(drop_bit 24 lo AND 0xff) AND 1 \<noteq> 0 \<longleftrightarrow> bit ev 24" "(drop_bit 24 lo AND 0xff) AND 2 \<noteq> 0 \<longleftrightarrow> bit ev 25"
  unfolding lo_def hi_def masks
  subgoal by (rule bit_word_eqI) (auto simp: bit_simps dest: bit_imp_le_length)
  subgoal by (rule bit_word_eqI) (auto simp: bit_simps)
  subgoal by (rule bit_word_eqI) (auto simp: bit_simps)
  subgoal by (rule bit_word_eqI) (auto simp: bit_simps)
  subgoal
    using and_exp_eq_0_iff_not_bit [of "drop_bit 24 (ucast (ev AND mask 32) :: u32) AND mask 8" 0]
    by (simp add: bit_simps del: and_exp_eq_0_iff_not_bit)
  subgoal
    using and_exp_eq_0_iff_not_bit [of "drop_bit 24 (ucast (ev AND mask 32) :: u32) AND mask 8" 1]
    by (simp add: bit_simps del: and_exp_eq_0_iff_not_bit)
  done

lemma ucast_eq_small: "unat (x :: u64) < 2 ^ 32 \<Longrightarrow> (ucast x :: u32) = v \<longleftrightarrow> unat x = unat v"
  by (auto simp: word_unat_eq_iff unsigned_ucast_eq take_bit_nat_eq_self)

lemma ucast_code: "(ucast (drop_bit 60 ev) :: u32) = 12 \<longleftrightarrow> drop_bit 60 ev = (12 :: u64)"
  "(ucast (drop_bit 44 ev AND 0xff) :: u32) = 4 \<longleftrightarrow> drop_bit 44 ev AND 0xff = (4 :: u64)"
proof -
  have "unat (drop_bit 60 ev) = unat ev div 2 ^ 60"
    by (rule trans [OF unat_drop_bit_eq]) (rule drop_bit_eq_div)
  moreover have "unat ev < 2 ^ 4 * 2 ^ 60" by (rule less_le_trans [OF unsigned_less]) simp
  ultimately have "unat (drop_bit 60 ev) < 2 ^ 4" by (simp add: less_mult_imp_div_less)
  then show "(ucast (drop_bit 60 ev) :: u32) = 12 \<longleftrightarrow> drop_bit 60 ev = (12 :: u64)"
    by (subst ucast_eq_small) (simp_all add: word_unat_eq_iff)
  have "unat (drop_bit 44 ev AND 0xff) < 2 ^ 8"
    unfolding masks take_bit_eq_mask [symmetric] unsigned_take_bit_eq by (rule take_bit_nat_less_exp)
  then show "(ucast (drop_bit 44 ev AND 0xff) :: u32) = 4 \<longleftrightarrow> drop_bit 44 ev AND 0xff = (4 :: u64)"
    by (subst ucast_eq_small) (simp_all add: word_unat_eq_iff)
qed

lemma link_isr_event:
  "link_of (isr_event ev sc) = (case linkchange ev of None \<Rightarrow> link_of sc | Some l \<Rightarrow> l)"
  by (simp add: isr_event_def Let_def isr_fields ucast_code linkchange_def link_of_def)


text \<open>Everything the handler leaves alone.\<close>

definition isr_frame :: "softc \<Rightarrow> softc" where
  "isr_frame sc = sc\<lparr>trace := [], evq_ring := all_ones, evq_read_ptr := 0, link_up := False,
     full_duplex := False, link_speed_mbps := 0, link_fcntl := 0\<rparr>"

lemma isr_step_simps [simp]:
  "evq_ring (isr_event ev sc) = evq_ring sc" "evq_read_ptr (isr_event ev sc) = evq_read_ptr sc"
  "trace (isr_event ev sc) = trace sc" "isr_frame (isr_event ev sc) = isr_frame sc"
  "link_of (evq_consume sc) = link_of sc" "trace (evq_consume sc) = trace sc"
  "isr_frame (evq_consume sc) = isr_frame sc" "link_of (evq_read env sc) = link_of sc"
  "evq_read_ptr (evq_read env sc) = evq_read_ptr sc" "isr_frame (evq_read env sc) = isr_frame sc"
  "evq_ring (evq_read env sc) = ne_evq env (trace sc) (evq_ring sc)"
  by (simp_all add: isr_event_def evq_consume_def evq_read_def link_of_def isr_frame_def io_def Let_def)

lemma isr_loop_total:
  assumes "unat (evq_read_ptr sc) < 512"
  shows "\<exists>n s. isr_loop env k sc = Some (n, s) \<and> n \<le> k \<and> isr_frame s = isr_frame sc \<and>
    unat (evq_read_ptr s) = (unat (evq_read_ptr sc) + n) mod 512"
  using assms
proof (induction k arbitrary: sc)
  case 0
  then show ?case by simp
next
  case (Suc k)
  let ?s = "evq_read env sc"
  let ?ev = "evq_ring ?s (unat (evq_read_ptr sc))"
  let ?s' = "evq_consume (isr_event ?ev ?s)"
  have get: "ring_get (evq_ring ?s) (evq_read_ptr ?s) = Some ?ev" using Suc.prems by (simp add: ring_get_def)
  have ptr: "unat (evq_read_ptr ?s') = Suc (unat (evq_read_ptr sc)) mod 512"
    using control_evq.take_rptr [of "isr_event ?ev ?s"] Suc.prems by simp
  then have "unat (evq_read_ptr ?s') < 512" by simp
  from Suc.IH [OF this] obtain n s where s: "isr_loop env k ?s' = Some (n, s)" "n \<le> k"
    "isr_frame s = isr_frame ?s'" "unat (evq_read_ptr s) = (unat (evq_read_ptr ?s') + n) mod 512" by blast
  show ?case
  proof (cases "ev_is_empty ?ev")
    case True
    with get Suc.prems show ?thesis by (simp add: Let_def)
  next
    case False
    with get s ptr show ?thesis by (auto simp: Let_def mod_add_left_eq)
  qed
qed

definition quiet :: "nic_env \<Rightarrow> bool" where
  "quiet env \<longleftrightarrow> (\<forall>tr ring. ne_evq env tr ring = ring)"

lemma isr_loop_quiet:
  assumes "quiet env" "unat (evq_read_ptr sc) < 512" "k \<le> 512"
  defines "evs \<equiv> pending (evq_ring sc) (unat (evq_read_ptr sc)) k"
  shows "\<exists>s. isr_loop env k sc = Some (length evs, s) \<and>
    link_of s = fold (\<lambda>ev l. case linkchange ev of None \<Rightarrow> l | Some l' \<Rightarrow> l') evs (link_of sc) \<and>
    evq_ring s = evq_ring ((evq_consume ^^ length evs) sc)"
  using assms(2,3) unfolding evs_def
proof (induction k arbitrary: sc)
  case 0
  then show ?case by simp
next
  case (Suc k)
  let ?s = "evq_read env sc" and ?p = "unat (evq_read_ptr sc)"
  let ?ev = "evq_ring sc ?p"
  let ?s' = "evq_consume (isr_event ?ev ?s)"
  have q [simp]: "ne_evq env tr r = r" for tr r using assms(1) by (simp add: quiet_def)
  have ring: "evq_ring ?s = evq_ring sc" by simp
  have get: "ring_get (evq_ring ?s) (evq_read_ptr ?s) = Some ?ev" using Suc.prems ring by (simp add: ring_get_def)
  have ptr: "unat (evq_read_ptr ?s') = Suc ?p mod 512" and ring': "evq_ring ?s' = (evq_ring sc)(?p := 0)"
    using control_evq.take_rptr [of "isr_event ?ev ?s"] control_evq.take_slots [of "isr_event ?ev ?s"]
      Suc.prems ring by simp_all
  have P: "pending (evq_ring sc) ?p (Suc k) =
      (if ev_is_empty ?ev then [] else ?ev # pending (evq_ring ?s') (unat (evq_read_ptr ?s')) k)"
    using pending_Suc [of ?p k "evq_ring sc"] Suc.prems ptr ring' by simp
  show ?case
  proof (cases "ev_is_empty ?ev")
    case True
    with P get ring show ?thesis by (simp add: Let_def)
  next
    case False
    have "unat (evq_read_ptr ?s') < 512" "k \<le> 512" using ptr Suc.prems by simp_all
    from Suc.IH [OF this] obtain s where
      s: "isr_loop env k ?s' = Some (length (pending (evq_ring ?s') (unat (evq_read_ptr ?s')) k), s)"
      "link_of s = fold (\<lambda>ev l. case linkchange ev of None \<Rightarrow> l | Some l' \<Rightarrow> l')
         (pending (evq_ring ?s') (unat (evq_read_ptr ?s')) k) (link_of ?s')"
      "evq_ring s = evq_ring ((evq_consume ^^ length (pending (evq_ring ?s') (unat (evq_read_ptr ?s')) k)) ?s')"
      by blast
    have cong: "evq_ring ((evq_consume ^^ n) a) = evq_ring ((evq_consume ^^ n) b) \<and>
        evq_read_ptr ((evq_consume ^^ n) a) = evq_read_ptr ((evq_consume ^^ n) b)"
      if "evq_ring a = evq_ring b" "evq_read_ptr a = evq_read_ptr b" for n a b
      using that by (induction n) (simp_all add: evq_consume_def)
    have "evq_ring ((evq_consume ^^ n) ?s') = evq_ring ((evq_consume ^^ Suc n) sc)" for n
      unfolding funpow_Suc_right comp_apply
      by (rule cong [THEN conjunct1]) (simp_all add: evq_consume_def ring)
    moreover have "link_of ?s' = (case linkchange ?ev of None \<Rightarrow> link_of sc | Some l' \<Rightarrow> l')"
      by (simp add: link_isr_event split: option.split)
    ultimately show ?thesis using False P get s ring by (simp add: Let_def del: funpow.simps)
  qed
qed

lemma pending_empty: "p < 512 \<Longrightarrow> ev_is_empty (ring p) \<Longrightarrow> pending ring p 512 = []"
  using pending_Suc [of p 511 ring] by simp

lemma pending_stops:
  assumes "length (pending ring p 512) < 512"
  shows "ev_is_empty (ring ((p + length (pending ring p 512)) mod 512))"
  using nth_length_takeWhile [of "\<lambda>ev. \<not> ev_is_empty ev" "map (\<lambda>i. ring ((p + i) mod 512)) [0..<512]"] assms
  by (simp add: pending_def)

lemma fold_linkchange:
  "fold (\<lambda>ev l. case linkchange ev of None \<Rightarrow> l | Some l' \<Rightarrow> l') evs l =
     last (l # List.map_filter linkchange evs)"
  by (induction evs arbitrary: l) (auto simp: List.map_filter_simps split: option.split)

text \<open>
  C15: The interrupt handler. On a live device whose NIC posts nothing meanwhile, one run of
  \<open>sfc7120_interrupt_handler\<close> takes all pending events of the control queue, in order: the queue is
  empty afterwards, the read pointer has moved by their number, the link state is the one of the last
  LINKCHANGE event among them (unchanged if there is none), and if there was any event the doorbell
  of the control queue got the new pointer. Nothing else of the device changes.
\<close>

theorem isr_drains_control_queue:
  assumes "quiet env" "unat (evq_read_ptr sc) < 512"
    and "db_va (evq_dma sc) \<noteq> 0" "\<not> dying sc" "evq_initialized sc"
  shows "\<exists>sc'. sfc7120_interrupt_handler env sc = Some sc' \<and> pending_events sc' = [] \<and>
    unat (evq_read_ptr sc') = (unat (evq_read_ptr sc) + length (pending_events sc)) mod 512 \<and>
    link_of sc' = last (link_of sc # List.map_filter linkchange (pending_events sc)) \<and>
    (pending_events sc \<noteq> [] \<longrightarrow> last (trace sc') = RegWr SFC7120_REG_EVQ_RPTR_DBL (evq_read_ptr sc')) \<and>
    isr_frame sc' = isr_frame sc"
proof -
  let ?p = "unat (evq_read_ptr sc)" and ?n = "length (pending_events sc)"
  obtain s where s: "isr_loop env 512 sc = Some (?n, s)"
    "link_of s = last (link_of sc # List.map_filter linkchange (pending_events sc))"
    "evq_ring s = evq_ring ((evq_consume ^^ ?n) sc)"
    using isr_loop_quiet [OF assms(1,2), of 512] unfolding pending_events_def fold_linkchange by auto
  have ptr: "unat (evq_read_ptr s) = (?p + ?n) mod 512" and fr: "isr_frame s = isr_frame sc"
    using isr_loop_total [OF assms(2), of env 512] s(1) by auto
  have "evq_ring s ((?p + ?n) mod 512) = 0 \<or> ev_is_empty (evq_ring s ((?p + ?n) mod 512))"
  proof (cases "?n < 512")
    case True
    then have "ev_is_empty (evq_ring sc ((?p + ?n) mod 512))"
      using pending_stops [of "evq_ring sc" ?p] by (simp add: pending_events_def)
    then show ?thesis using control_evq.slots_takes [OF assms(2), of "(?p + ?n) mod 512" ?n] s(3) by simp
  next
    case False
    then have "?n = 512" using pending_le [of "evq_ring sc" ?p 512] by (simp add: pending_events_def)
    then show ?thesis
      using control_evq.drain(1) [OF assms(2), of "(?p + ?n) mod 512"] s(3) by simp
  qed
  then have "ev_is_empty (evq_ring s (unat (evq_read_ptr s)))" using ptr by (auto simp: ev_is_empty_def)
  then have empty: "pending_events s = []" using ptr by (simp add: pending_events_def pending_empty)
  have and_mask: "evq_read_ptr s AND 0x7fff = evq_read_ptr s"
    using and_mask_small [of "evq_read_ptr s" 15] ptr by (simp add: mask_eq_exp_minus_1)
  let ?s' = "if ?n > 0 then SFC7120_WRITE_REG SFC7120_REG_EVQ_RPTR_DBL (evq_read_ptr s) s else s"
  have "sfc7120_interrupt_handler env sc = Some ?s'"
    using assms(3-5) s(1) and_mask by (simp add: sfc7120_interrupt_handler_def)
  moreover have "pending_events ?s' = pending_events s" "evq_read_ptr ?s' = evq_read_ptr s"
    "link_of ?s' = link_of s" "isr_frame ?s' = isr_frame s"
    "pending_events sc \<noteq> [] \<longrightarrow> last (trace ?s') = RegWr SFC7120_REG_EVQ_RPTR_DBL (evq_read_ptr s)"
    by (simp_all add: SFC7120_WRITE_REG_def io_def pending_events_def link_of_def isr_frame_def)
  ultimately show ?thesis using empty ptr s(2) fr by metis
qed

definition example_linkdown :: softc where
  "example_linkdown = example_softc\<lparr>link_up := True, evq_ring := all_ones(0 := 0xc000400002130000)\<rparr>"

definition quiet_nic :: nic_env where
  "quiet_nic = tx_nic\<lparr>ne_evq := (\<lambda>_ r. r)\<rparr>"

text \<open>A LINKCHANGE event that reports 10 Gb/s, flow control 1, full duplex, link down.\<close>

theorem isr_drains_control_queue_witness:
  "\<exists>sc'. sfc7120_interrupt_handler quiet_nic example_linkdown = Some sc' \<and>
     unat (evq_read_ptr sc') = 1 \<and> link_of sc' = (False, True, 10000, 1)"
proof -
  have "quiet quiet_nic" by (simp add: quiet_def quiet_nic_def)
  moreover have "unat (evq_read_ptr example_linkdown) = 0" "db_va (evq_dma example_linkdown) \<noteq> 0"
    "\<not> dying example_linkdown" "evq_initialized example_linkdown"
    by (simp_all add: example_linkdown_def) (simp_all add: example_softc_def zero_softc_def held_dma_def)
  moreover have "pending_events example_linkdown = [0xc000400002130000]"
    using pending_Suc [of 0 511 "evq_ring example_linkdown"] pending_Suc [of 1 510 "(evq_ring example_linkdown)(0 := 0)"]
    by (simp add: pending_events_def example_linkdown_def ev_is_empty_def all_ones_def)
  moreover have "linkchange 0xc000400002130000 = Some (False, True, 10000, 1)"
    by (simp add: linkchange_def)
  ultimately show ?thesis
    using isr_drains_control_queue [of quiet_nic example_linkdown] by (auto simp: List.map_filter_simps)
qed

section \<open>Every interleaving of the handlers\<close>

lemma ack_ptr [simp]: "data_evq_read_ptr (data_evq_ack c s) = data_evq_read_ptr s"
  by (simp add: data_evq_ack_def SFC7120_WRITE_REG_def io_def)

lemma tx_safe:
  assumes "dp_ok sc"
  obtains e req' sc' where "sfc7120_tx env req sc = Some (e, req', sc')" "dp_ok sc'"
proof (cases "tx_valid req")
  case False
  then show thesis using that assms tx_invalid by blast
next
  case True
  obtain err bs where cp: "ne_copyin env (trace sc) = (err, bs)" by fastforce
  from True assms cp show thesis
  proof (cases rule: tx_valid_spec)
    case (fault tb)
    with that assms show thesis by (simp add: dp_ok_def io_def)
  next
    case (sent tb d c s)
    let ?s = "data_evq_ack c s"
    obtain sc0 where fr: "evq_frame ?s = evq_frame sc0" "rx_head sc0 = rx_head sc"
      "evq_read_ptr sc0 = evq_read_ptr sc" using sent(3) by (fastforce simp: tx_ran_def)
    have "dp_ok (?s\<lparr>tx_head := next512 (tx_head sc)\<rparr>)"
      using sent(3) assms evq_frame_eqD(2,3) [OF fr(1)] fr(2,3) by (simp add: dp_ok_def tx_ran_def)
    with sent(4) that show thesis by blast
  qed
qed

lemma rx_safe:
  assumes "dp_ok sc" "frames_fit env"
  obtains e req' sc' where "sfc7120_rx env req sc = Some (e, req', sc')" "dp_ok sc'"
  using assms
proof (cases rule: rx_in_slot [where req = req])
  case (timeout s)
  with assms(1) evq_frame_eqD(1-3) [OF timeout(2)] that show thesis by (simp add: dp_ok_def)
next
  case (found s plen m ev)
  obtain e req' sc' where r: "rx_deliver env req plen s = (e, req', sc')" by (cases "rx_deliver env req plen s")
  have "dp_ok s" using assms(1) evq_frame_eqD(1-3) [OF found(3)] found(4) by (simp add: dp_ok_def)
  then have "dp_ok sc'"
    using r by (auto simp: rx_deliver_def Let_def dp_ok_def SFC7120_WRITE_REG_def io_def split: if_splits)
  with that found(1) r show thesis by simp
qed

lemma ioctl_safe:
  assumes "dp_ok sc" "frames_fit env"
  obtains e req' sc' where "sfc7120_ioctl env req sc = Some (e, req', sc')" "dp_ok sc'"
proof (cases req)
  case (SFC7120_SET_EVQ_RPTR r)
  have "dp_ok (snd (set_evq_rptr r sc))" using assms(1) by (auto simp: set_evq_rptr_def dp_ok_def)
  with SFC7120_SET_EVQ_RPTR that show thesis
    by (cases "set_evq_rptr r sc") (simp add: sfc7120_ioctl_def)
next
  case (SFC7120_TX r)
  obtain e r' sc' where "sfc7120_tx env r sc = Some (e, r', sc')" "dp_ok sc'" by (rule tx_safe [OF assms(1)])
  with SFC7120_TX that show thesis by (simp add: sfc7120_ioctl_def)
next
  case (SFC7120_RX r)
  obtain e r' sc' where "sfc7120_rx env r sc = Some (e, r', sc')" "dp_ok sc'" by (rule rx_safe [OF assms])
  with SFC7120_RX that show thesis by (simp add: sfc7120_ioctl_def)
qed (use that assms in \<open>simp_all add: sfc7120_ioctl_def\<close>)

lemma isr_safe:
  assumes "dp_ok sc"
  obtains sc' where "sfc7120_interrupt_handler env sc = Some sc'" "dp_ok sc'"
proof -
  obtain n s where s: "isr_loop env 512 sc = Some (n, s)" "isr_frame s = isr_frame sc"
    "unat (evq_read_ptr s) = (unat (evq_read_ptr sc) + n) mod 512"
    using isr_loop_total [of sc env 512] assms by (auto simp: dp_ok_def)
  have "tx_head s = tx_head sc" "rx_head s = rx_head sc" "data_evq_read_ptr s = data_evq_read_ptr sc"
    using arg_cong [OF s(2), of tx_head] arg_cong [OF s(2), of rx_head] arg_cong [OF s(2), of data_evq_read_ptr]
    by (simp_all add: isr_frame_def)
  then have "dp_ok s" using s(3) assms by (simp add: dp_ok_def)
  then have "dp_ok (SFC7120_WRITE_REG r v s)" for r v by (simp add: dp_ok_def SFC7120_WRITE_REG_def io_def)
  moreover have "sfc7120_interrupt_handler env sc =
      Some (if db_va (evq_dma sc) = 0 \<or> dying sc \<or> \<not> evq_initialized sc then sc
            else if n > 0 then SFC7120_WRITE_REG SFC7120_REG_EVQ_RPTR_DBL (evq_read_ptr s AND SFC7120_EVQ_RPTR_MASK) s
            else s)"
    using s(1) by (simp add: sfc7120_interrupt_handler_def)
  ultimately show thesis using that \<open>dp_ok s\<close> assms by simp
qed

inductive dp_step :: "softc \<Rightarrow> softc \<Rightarrow> bool" where
  ioctl: "\<lbrakk>frames_fit env; sfc7120_ioctl env req sc = Some (e, req', sc')\<rbrakk> \<Longrightarrow> dp_step sc sc'"
| interrupt: "sfc7120_interrupt_handler env sc = Some sc' \<Longrightarrow> dp_step sc sc'"
| rx_task: "dp_step sc (sfc7120_rx_task_handler sc)"

definition dp_init :: "softc \<Rightarrow> bool" where
  "dp_init sc \<longleftrightarrow> data_evq_read_ptr sc = 0 \<and> evq_read_ptr sc = 0 \<and> tx_head sc = 0 \<and> rx_head sc = 0"

lemma dp_step_ok: "dp_step sc sc' \<Longrightarrow> dp_ok sc \<Longrightarrow> dp_ok sc'"
proof (induction rule: dp_step.induct)
  case (ioctl env req sc e req' sc')
  obtain e1 r1 s1 where "sfc7120_ioctl env req sc = Some (e1, r1, s1)" "dp_ok s1"
    by (rule ioctl_safe [OF ioctl(3,1)])
  with ioctl(2) show ?case by simp
next
  case (interrupt env sc sc')
  obtain s1 where "sfc7120_interrupt_handler env sc = Some s1" "dp_ok s1" by (rule isr_safe [OF interrupt(2)])
  with interrupt(1) show ?case by simp
next
  case (rx_task sc)
  then show ?case by (simp add: sfc7120_rx_task_handler_def dp_ok_def)
qed

interpretation dp_machine: invariant_machine dp_init dp_step dp_ok
proof
  show "dp_init s \<Longrightarrow> dp_ok s" for s by (simp add: dp_init_def dp_ok_def)
  show "dp_ok s \<Longrightarrow> dp_step s s' \<Longrightarrow> dp_ok s'" for s s' by (rule dp_step_ok)
qed

text \<open>
  C16: The kernel data path stays in its rings. From the pointers that attach leaves, after any
  interleaving of ioctls with arbitrary arguments (SET_EVQ_RPTR included), interrupts and RX tasks,
  all four ring positions are below 512, and no further ioctl or interrupt makes an access outside a
  ring or a packet buffer, provided the NIC keeps received frames within their buffers.
\<close>

theorem datapath_in_range:
  assumes "dp_init sc0" "dp_step\<^sup>*\<^sup>* sc0 sc" "frames_fit env"
  shows "unat (data_evq_read_ptr sc) < 512 \<and> unat (evq_read_ptr sc) < 512 \<and> unat (tx_head sc) < 512 \<and>
    unat (rx_head sc) < 512 \<and> sfc7120_ioctl env req sc \<noteq> None \<and> sfc7120_interrupt_handler env sc \<noteq> None"
proof -
  have ok: "dp_ok sc" using dp_machine.reachable_inv [OF assms(1,2)] .
  obtain e r s where "sfc7120_ioctl env req sc = Some (e, r, s)" by (rule ioctl_safe [OF ok assms(3)])
  moreover obtain s' where "sfc7120_interrupt_handler env sc = Some s'" by (rule isr_safe [OF ok])
  ultimately show ?thesis using ok by (simp add: dp_ok_def)
qed

theorem datapath_in_range_witness:
  "\<exists>sc. dp_step\<^sup>*\<^sup>* example_softc sc \<and> unat (tx_head sc) < 512 \<and> sfc7120_ioctl rx_nic (SFC7120_OTHER 0) sc \<noteq> None \<and>
     unat (data_evq_read_ptr sc) = 511"
proof -
  let ?r = "\<lparr>es_evq_read_ptr = 511, es_tx_head = 7, es_rx_head = 0\<rparr>"
  let ?sc = "example_softc\<lparr>data_evq_read_ptr := 511, tx_head := 7, rx_head := 0\<rparr>"
  have "sfc7120_ioctl rx_nic (SFC7120_SET_EVQ_RPTR ?r) example_softc = Some (OK, SFC7120_SET_EVQ_RPTR ?r, ?sc)"
    by (simp add: sfc7120_ioctl_def set_evq_rptr_def)
  from dp_step.ioctl [OF rx_nic_fits this] have "dp_step\<^sup>*\<^sup>* example_softc ?sc" by (rule r_into_rtranclp)
  moreover have "dp_init example_softc" by (simp add: dp_init_def)
  ultimately show ?thesis
    using datapath_in_range [of example_softc ?sc rx_nic "SFC7120_OTHER 0"] rx_nic_fits
    by (intro exI [of _ ?sc]) simp
qed

text \<open>
  C40: The RX handler trusts the length in the frame prefix. A NIC that puts the length 65535 into the
  prefix of slot 0 makes \<open>sfc7120_rx\<close> copy 65535 bytes to the caller, across 32 neighbouring slots,
  and report success.
\<close>

theorem rx_length_unchecked:
  "\<exists>env sc req req' sc'. dp_ok sc \<and> rx_head sc = 0 \<and> sfc7120_rx env req sc = Some (OK, req', sc') \<and>
     length (rx_out req') = 65535"
proof -
  let ?env = "rx_nic\<lparr>ne_rxbuf := (\<lambda>_ _ _. 0xff)\<rparr>"
  let ?req = "\<lparr>rx_out = [], length_received = 0, rx_status = OK\<rparr>"
  let ?s = "data_evq_consume (data_evq_read ?env example_softc)"
  have "rx_poll ?env 100000 0 example_softc = Some (Some 0x40, 1, ?s)"
    using rx_poll.simps(2) [of ?env 99999 0 example_softc]
    by (simp add: ring_get_def ev_is_empty_def rx_nic_def ev_code_def Let_def)
  then have run: "sfc7120_rx ?env ?req example_softc = rx_slot ?env ?req 0x40 (data_evq_ack 1 ?s)"
    by (simp add: sfc7120_rx_def)
  have h: "rx_head (data_evq_ack 1 ?s) = 0"
    by (rule trans [OF evq_frame_eqD(2) [of _ example_softc]]) simp_all
  define s' where "s' = io [RxBufRead] ((data_evq_ack 1 ?s)\<lparr>rx_buffer :=
     ne_rxbuf ?env (trace (data_evq_ack 1 ?s)) (rx_buffer (data_evq_ack 1 ?s))\<rparr>)"
  have "rx_plen 0xff 0xff 0x40 = 65535" by (simp add: rx_plen_def)
  then have "slot_plen s' 0x40 = 65535" by (simp add: slot_plen_def s'_def io_def)
  then have "rx_slot ?env ?req 0x40 (data_evq_ack 1 ?s) = Some (rx_deliver ?env ?req 65535 s')"
    using rx_slot_eq [OF _ s'_def, where req = ?req and b = "0x40"] h by (simp add: s'_def io_def)
  moreover have "ne_copyout ?env tr = OK" for tr by (simp add: rx_nic_def tx_nic_def)
  then have "\<exists>req' sc'. rx_deliver ?env ?req 65535 s' = (OK, req', sc') \<and> length (rx_out req') = 65535"
    by (simp add: rx_deliver_def Let_def)
  ultimately have "\<exists>req' sc'. sfc7120_rx ?env ?req example_softc = Some (OK, req', sc') \<and>
      length (rx_out req') = 65535" using run by auto
  then show ?thesis using example_softc_dp(1,3) by blast
qed

end
