(* ===== verification/UserLib.thy ===== *)
theory UserLib
  imports DataPath
begin

text \<open>
  The user-space library (\<^verbatim>\<open>userlib/sfc7120_user.c\<close>): the direct data path over the mapped
  rings, packet buffers and doorbell slices, and the session set-up and tear-down around it. The
  rings and buffers are the kernel's own memory, so the state is the library's interface record
  together with the driver's softc; a doorbell write goes through a slice capability and appears in
  the trace, an access outside a mapping or a slice faults. The NULL tests of the arguments have no
  counterpart. Cache maintenance and barriers have no value in the model.

  Parameters are what the library gets from outside: the NIC, the results of \<open>open\<close>, \<open>malloc\<close>,
  \<open>munmap\<close> and of the modmap driver, and the environment variables.
\<close>

section \<open>State\<close>

record user_if =
  u_fd :: bool            \<comment> \<open>descriptor is open\<close>
  u_modmap_fd :: bool
  u_cap_req :: cap_req_t
  u_mac_addr :: "u8 list"
  u_tx_buffer :: bool     \<comment> \<open>mapped\<close>
  u_rx_buffer :: bool
  u_tx_desc_ring :: bool
  u_rx_desc_ring :: bool
  u_evq_ring :: bool
  u_mmio_slices :: "slice_def_t list option"
  u_mmio_slices_len :: nat
  u_vi_info :: sfc7120_vi_info_req_t
  u_vi_info_valid :: bool
  u_evq_read_ptr :: u32
  u_used_poll :: bool
  u_rx_window :: u32
  u_rx_head :: u32
  u_tx_head :: u32
  u_region_maps :: "int \<Rightarrow> nat option"   \<comment> \<open>length of the mapping\<close>
  u_rx_ext_cookie :: "nat \<Rightarrow> nat"         \<comment> \<open>0 is NULL\<close>
  u_cap_token :: "capability option"

type_synonym ust = "user_if \<times> softc"

datatype sfc7120_ev_type_t = SFC7120_EV_RX | SFC7120_EV_TX | SFC7120_EV_OTHER

record sfc7120_ev_t =
  ev_type :: sfc7120_ev_type_t
  ev_tx_desc_idx :: u16
  ev_rx_bytes :: u16
  ev_raw :: u64

text \<open>A store to a register through a slice capability.\<close>

definition slice_write :: "nat \<Rightarrow> nat \<Rightarrow> u32 \<Rightarrow> user_if \<Rightarrow> softc \<Rightarrow> softc option" where
  "slice_write idx dword v u sc =
     do { sl \<leftarrow> u_mmio_slices u; off \<leftarrow> slice_store sl idx dword; Some (io [RegWr off v] sc) }"

definition have_slice :: "nat \<Rightarrow> user_if \<Rightarrow> bool" where
  "have_slice idx u \<longleftrightarrow> u_mmio_slices u \<noteq> None \<and> idx < u_mmio_slices_len u"

section \<open>Polling\<close>

definition decode_ev :: "u64 \<Rightarrow> sfc7120_ev_t" where
  "decode_ev ev =
     (if ev_code ev = 0
      then \<lparr>ev_type = SFC7120_EV_RX, ev_tx_desc_idx = 0, ev_rx_bytes = ucast (ev AND 0x3fff), ev_raw = ev\<rparr>
      else if ev_code ev = 2
      then \<lparr>ev_type = SFC7120_EV_TX, ev_tx_desc_idx = ucast (ev AND 0xffff), ev_rx_bytes = 0, ev_raw = ev\<rparr>
      else \<lparr>ev_type = SFC7120_EV_OTHER, ev_tx_desc_idx = 0, ev_rx_bytes = 0, ev_raw = ev\<rparr>)"

definition user_consume :: "ust \<Rightarrow> ust" where
  "user_consume s = (case s of (u, sc) \<Rightarrow>
     (u\<lparr>u_evq_read_ptr := next512 (u_evq_read_ptr u)\<rparr>,
      sc\<lparr>data_evq_ring := (data_evq_ring sc)(unat (u_evq_read_ptr u) := 0)\<rparr>))"

primrec user_poll_loop :: "nic_env \<Rightarrow> nat \<Rightarrow> ust \<Rightarrow> (sfc7120_ev_t list \<times> ust) option" where
  "user_poll_loop env 0 s = Some ([], s)"
| "user_poll_loop env (Suc n) s =
     (let s = (fst s, data_evq_read env (snd s)) in
      do { ev \<leftarrow> ring_get (data_evq_ring (snd s)) (u_evq_read_ptr (fst s));
           if ev_is_empty ev then Some ([], s)
           else do { (evs, s) \<leftarrow> user_poll_loop env n (user_consume s); Some (decode_ev ev # evs, s) } })"

definition sfc7120_user_poll :: "nic_env \<Rightarrow> int \<Rightarrow> ust \<Rightarrow> (int \<times> sfc7120_ev_t list \<times> ust) option" where
  "sfc7120_user_poll env max_evs s =
     (if max_evs \<le> 0 then Some (-1, [], s)
      else if \<not> u_evq_ring (fst s) \<or> \<not> have_slice SFC7120_SLICE_DATA_EVQ_RPTR_DBL (fst s) then Some (-1, [], s)
      else do { (evs, u, sc) \<leftarrow> user_poll_loop env (nat max_evs) ((fst s)\<lparr>u_used_poll := True\<rparr>, snd s);
                if evs = [] then Some (0, [], u, sc)
                else do { sc \<leftarrow> slice_write SFC7120_SLICE_DATA_EVQ_RPTR_DBL 0
                                  (u_evq_read_ptr u AND SFC7120_EVQ_RPTR_MASK) u sc;
                          Some (int (length evs), evs, u, sc) } })"

section \<open>Receiving\<close>

text \<open>Write a descriptor into the RX ring at \<open>i\<close>.\<close>

definition rx_desc_put :: "u32 \<Rightarrow> u64 \<Rightarrow> u64 \<Rightarrow> softc \<Rightarrow> softc option" where
  "rx_desc_put i len paddr sc =
     do { ring \<leftarrow> ring_set (rx_desc_ring sc) i (ef10_desc len paddr); Some (sc\<lparr>rx_desc_ring := ring\<rparr>) }"

definition rx_slot_pa :: "user_if \<Rightarrow> u64" where
  "rx_slot_pa u = vi_rx_buffer_paddr (u_vi_info u) + ucast (u_rx_head u) * 2048"

definition rx_look :: "nic_env \<Rightarrow> softc \<Rightarrow> softc" where
  "rx_look env sc = io [RxBufRead] (sc\<lparr>rx_buffer := ne_rxbuf env (trace sc) (rx_buffer sc)\<rparr>)"

definition prefix_plen :: "user_if \<Rightarrow> u16 \<Rightarrow> softc \<Rightarrow> nat option" where
  "prefix_plen u rx_bytes sc =
     do { pfx \<leftarrow> buf_load (rx_buffer sc) (unat (u_rx_head u) * 2048) 10;
          Some (rx_plen (pfx ! 8) (pfx ! 9) (ucast rx_bytes)) }"

text \<open>Returns the offset of the packet in the RX buffer, its length and its bus address.\<close>

definition sfc7120_rx_peek :: "nic_env \<Rightarrow> u16 \<Rightarrow> ust \<Rightarrow> (int \<times> (nat \<times> nat \<times> u64) option \<times> ust) option" where
  "sfc7120_rx_peek env rx_bytes s =
     (case s of (u, sc) \<Rightarrow>
      if \<not> u_rx_buffer u \<or> \<not> u_rx_desc_ring u \<or> \<not> have_slice SFC7120_SLICE_RX_DESC_DBL u
      then Some (-1, None, s)
      else let u = u\<lparr>u_used_poll := True\<rparr>; sc = rx_look env sc in
      do { plen \<leftarrow> prefix_plen u rx_bytes sc;
           Some (0, Some (unat (u_rx_head u) * 2048 + 14, plen, rx_slot_pa u + 14), u, sc) })"

definition rx_doorbell :: "user_if \<Rightarrow> softc \<Rightarrow> softc option" where
  "rx_doorbell u sc = slice_write SFC7120_SLICE_RX_DESC_DBL 0 ((u_rx_head u + u_rx_window u) AND 511) u sc"

definition sfc7120_rx_release :: "ust \<Rightarrow> (int \<times> ust) option" where
  "sfc7120_rx_release s =
     (case s of (u, sc) \<Rightarrow>
      if \<not> u_rx_desc_ring u \<or> \<not> have_slice SFC7120_SLICE_RX_DESC_DBL u then Some (-1, s)
      else do { sc \<leftarrow> rx_desc_put (u_rx_head u) 2048 (rx_slot_pa u) sc;
                let u = u\<lparr>u_rx_head := next512 (u_rx_head u)\<rparr>;
                sc \<leftarrow> rx_doorbell u sc;
                Some (0, u, sc) })"

definition sfc7120_rx_release_paddr :: "u64 \<Rightarrow> nat \<Rightarrow> nat \<Rightarrow> ust \<Rightarrow> (int \<times> ust) option" where
  "sfc7120_rx_release_paddr paddr len cookie s =
     (case s of (u, sc) \<Rightarrow>
      if \<not> u_rx_desc_ring u \<or> \<not> have_slice SFC7120_SLICE_RX_DESC_DBL u then Some (-1, s)
      else if paddr = 0 \<or> len = 0 \<or> len > 0x3fff then Some (-1, s)
      else do { sc \<leftarrow> rx_desc_put (u_rx_head u) (of_nat len) paddr sc;
                let u = u\<lparr>u_rx_ext_cookie := (u_rx_ext_cookie u)(unat (u_rx_head u) := cookie)\<rparr>;
                let u = u\<lparr>u_rx_head := next512 (u_rx_head u)\<rparr>;
                sc \<leftarrow> rx_doorbell u sc;
                Some (0, u, sc) })"

definition sfc7120_rx_peek_ext :: "nic_env \<Rightarrow> u16 \<Rightarrow> ust \<Rightarrow> (int \<times> (nat \<times> nat) option \<times> ust) option" where
  "sfc7120_rx_peek_ext env rx_bytes s =
     (case s of (u, sc) \<Rightarrow>
      if \<not> u_rx_desc_ring u \<or> \<not> have_slice SFC7120_SLICE_RX_DESC_DBL u then Some (-1, None, s)
      else if unat (u_rx_head u) \<ge> 512 then None
      else let u = u\<lparr>u_used_poll := True\<rparr>; cookie = u_rx_ext_cookie u (unat (u_rx_head u)) in
        if cookie = 0 \<and> u_rx_buffer u
        then let sc = rx_look env sc in
             do { plen \<leftarrow> prefix_plen u rx_bytes sc; Some (0, Some (cookie, plen), u, sc) }
        else Some (0, Some (cookie, rx_plen 0 0 (ucast rx_bytes)), u, sc))"

definition sfc7120_rx_release_paddr_nodbl :: "u64 \<Rightarrow> nat \<Rightarrow> nat \<Rightarrow> ust \<Rightarrow> (int \<times> ust) option" where
  "sfc7120_rx_release_paddr_nodbl paddr len cookie s =
     (case s of (u, sc) \<Rightarrow>
      if \<not> u_rx_desc_ring u then Some (-1, s)
      else if paddr = 0 \<or> len = 0 \<or> len > 0x3fff then Some (-1, s)
      else let tail = (u_rx_head u + u_rx_window u) AND 511 in
           do { sc \<leftarrow> rx_desc_put tail (of_nat len) paddr sc;
                let u = u\<lparr>u_rx_ext_cookie := (u_rx_ext_cookie u)(unat tail := cookie)\<rparr>;
                let u = u\<lparr>u_rx_head := next512 (u_rx_head u)\<rparr>;
                Some (0, u, sc) })"

definition sfc7120_rx_flush :: "ust \<Rightarrow> ust option" where
  "sfc7120_rx_flush s =
     (case s of (u, sc) \<Rightarrow>
      if \<not> have_slice SFC7120_SLICE_RX_DESC_DBL u then Some s
      else do { sc \<leftarrow> rx_doorbell u sc; Some (u, sc) })"

text \<open>\<open>buf_len\<close> is the length of the caller's buffer capability.\<close>

definition sfc7120_rx_recv :: "nic_env \<Rightarrow> nat \<Rightarrow> u16 \<Rightarrow> ust \<Rightarrow> (int \<times> u8 list \<times> ust) option" where
  "sfc7120_rx_recv env buf_len rx_bytes s =
     (case s of (u, sc) \<Rightarrow>
      if \<not> u_rx_buffer u \<or> \<not> u_rx_desc_ring u \<or> \<not> have_slice SFC7120_SLICE_RX_DESC_DBL u
      then Some (-1, [], s)
      else let u = u\<lparr>u_used_poll := True\<rparr>; sc = rx_look env sc in
      do { plen \<leftarrow> prefix_plen u rx_bytes sc;
           frame \<leftarrow> buf_load (rx_buffer sc) (unat (u_rx_head u) * 2048 + 14) plen;
           if plen > buf_len then None
           else do { sc \<leftarrow> rx_desc_put (u_rx_head u) 2048 (rx_slot_pa u) sc;
                     let u = u\<lparr>u_rx_head := next512 (u_rx_head u)\<rparr>;
                     sc \<leftarrow> slice_write SFC7120_SLICE_RX_DESC_DBL 0 (u_rx_head u) u sc;
                     Some (0, frame, u, sc) } })"

section \<open>Transmitting\<close>

definition tx_desc_put :: "nat \<Rightarrow> u64 \<Rightarrow> user_if \<Rightarrow> softc \<Rightarrow> softc option" where
  "tx_desc_put len paddr u sc =
     do { ring \<leftarrow> ring_set (tx_desc_ring sc) (u_tx_head u) (ef10_desc (of_nat len) paddr);
          Some (sc\<lparr>tx_desc_ring := ring\<rparr>) }"

definition sfc7120_tx_post_paddr_nodbl :: "u64 \<Rightarrow> nat \<Rightarrow> ust \<Rightarrow> (int \<times> ust) option" where
  "sfc7120_tx_post_paddr_nodbl paddr len s =
     (case s of (u, sc) \<Rightarrow>
      if \<not> u_tx_desc_ring u then Some (-1, s)
      else if len = 0 \<or> len > SFC7120_TX_BUFFER_SIZE then Some (-1, s)
      else do { sc \<leftarrow> tx_desc_put len paddr u sc;
                Some (0, u\<lparr>u_tx_head := next512 (u_tx_head u)\<rparr>, sc) })"

definition sfc7120_tx_flush :: "ust \<Rightarrow> ust option" where
  "sfc7120_tx_flush s =
     (case s of (u, sc) \<Rightarrow>
      if \<not> have_slice SFC7120_SLICE_TX_DESC_DBL u then Some s
      else do { sc \<leftarrow> slice_write SFC7120_SLICE_TX_DESC_DBL 2 (u_tx_head u) u sc; Some (u, sc) })"

text \<open>The descriptor pushed through the doorbell, then the write pointer.\<close>

definition tx_push :: "user_if \<Rightarrow> softc \<Rightarrow> softc option" where
  "tx_push u sc =
     do { desc \<leftarrow> ring_get (tx_desc_ring sc) (u_tx_head u);
          sc \<leftarrow> slice_write SFC7120_SLICE_TX_DESC_DBL 0 (ucast (desc AND 0xffffffff)) u sc;
          sc \<leftarrow> slice_write SFC7120_SLICE_TX_DESC_DBL 1 (ucast (drop_bit 32 desc)) u sc;
          slice_write SFC7120_SLICE_TX_DESC_DBL 2 (next512 (u_tx_head u)) u sc }"

definition sfc7120_tx_post_paddr :: "u64 \<Rightarrow> nat \<Rightarrow> ust \<Rightarrow> (int \<times> ust) option" where
  "sfc7120_tx_post_paddr paddr len s =
     (case s of (u, sc) \<Rightarrow>
      if \<not> u_tx_desc_ring u \<or> \<not> have_slice SFC7120_SLICE_TX_DESC_DBL u then Some (-1, s)
      else if len = 0 \<or> len > SFC7120_TX_BUFFER_SIZE then Some (-1, s)
      else let u = u\<lparr>u_used_poll := True\<rparr> in
           do { sc \<leftarrow> tx_desc_put len paddr u sc;
                sc \<leftarrow> tx_push u sc;
                Some (0, u\<lparr>u_tx_head := next512 (u_tx_head u)\<rparr>, sc) })"

text \<open>\<open>buf\<close> is what the caller's buffer capability covers.\<close>

definition sfc7120_tx_post :: "u8 list \<Rightarrow> nat \<Rightarrow> ust \<Rightarrow> (int \<times> ust) option" where
  "sfc7120_tx_post buf len s =
     (case s of (u, sc) \<Rightarrow>
      if \<not> u_tx_buffer u \<or> \<not> u_tx_desc_ring u \<or> \<not> have_slice SFC7120_SLICE_TX_DESC_DBL u
      then Some (-1, s)
      else if len = 0 \<or> len > SFC7120_TX_BUFFER_SIZE then Some (-1, s)
      else if len > length buf then None
      else let u = u\<lparr>u_used_poll := True\<rparr>; slot = unat (u_tx_head u) * SFC7120_TX_BUFFER_SIZE in
           do { tb \<leftarrow> buf_store (tx_buffer sc) slot (take len buf);
                let sc = sc\<lparr>tx_buffer := tb\<rparr>;
                sc \<leftarrow> tx_desc_put len (vi_tx_buffer_paddr (u_vi_info u) + of_nat slot) u sc;
                sc \<leftarrow> tx_push u sc;
                Some (0, u\<lparr>u_tx_head := next512 (u_tx_head u)\<rparr>, sc) })"

section \<open>System calls\<close>

text \<open>
  An \<open>ioctl\<close> on the device: the CAPIO handler checks the token and passes the driver's commands
  on to \<open>sfc7120_ioctl\<close>. \<open>data\<close> is the argument structure after its two capabilities.
\<close>

definition drv_ioctl :: "nic_env \<Rightarrow> unit \<Rightarrow> (sfc_req \<times> softc) option \<Rightarrow> errno \<times> (sfc_req \<times> softc) option" where
  "drv_ioctl nic _ d =
     (case d of
        None \<Rightarrow> (OK, None)
      | Some (data, sc) \<Rightarrow> (case sfc7120_ioctl nic data sc of
          None \<Rightarrow> (OK, None) | Some (e, data, sc) \<Rightarrow> (e, Some (data, sc))))"

definition sfc_ioctl :: "nic_env \<Rightarrow> (nat \<Rightarrow> vm_answers) \<Rightarrow> unit capio_cmd \<Rightarrow> cap_req_t \<Rightarrow> sfc_req \<Rightarrow> softc \<Rightarrow>
    (errno \<times> cap_req_t \<times> sfc_req \<times> softc) option" where
  "sfc_ioctl nic vm cmd req data sc =
     (case capio_ioctl_handler (drv_ioctl nic) vm cmd req (Some (capio sc, Some (data, sc))) of
        (e, req, Some (c, Some (data, sc))) \<Rightarrow> Some (e, req, data, sc\<lparr>capio := c\<rparr>)
      | _ \<Rightarrow> None)"

record user_env =
  ue_nic :: nic_env
  ue_vm :: "nat \<Rightarrow> vm_answers"
  ue_open_dev :: bool
  ue_open_modmap :: bool
  ue_malloc :: "capability option"
  ue_calloc :: bool
  ue_get_slices :: "int \<Rightarrow> capio_softc_t \<Rightarrow> region_sizes_t option"  \<comment> \<open>MODMAPIOC_GET_SLICES\<close>
  ue_map :: "map_req_t \<Rightarrow> nat \<Rightarrow> softc \<Rightarrow> slice_def_t list option \<times> capio_softc_t"
    \<comment> \<open>MODMAPIOC_MAP: the slices on success, and its effect on the CAPIO state\<close>
  ue_munmap :: "int \<Rightarrow> nat \<Rightarrow> capio_softc_t \<Rightarrow> bool \<times> capio_softc_t"
  ue_rx_window :: "int option"   \<comment> \<open>\<open>atoi\<close> of SFC_RX_WINDOW, if set\<close>

definition sfc7120_user_tx :: "user_env \<Rightarrow> capability \<Rightarrow> nat \<Rightarrow> ust \<Rightarrow> (int \<times> ust) option" where
  "sfc7120_user_tx env buf len s =
     (case s of (u, sc) \<Rightarrow>
      do { (e, _, _, sc) \<leftarrow> sfc_ioctl (ue_nic env) (ue_vm env) (DriverCmd ()) (u_cap_req u)
             (SFC7120_TX \<lparr>tx_buf_addr = buf, tx_length = len, tx_status = OK\<rparr>) sc;
           Some (if e \<noteq> OK then -1 else 0, u, sc) })"

text \<open>Also returns what the kernel stored at the caller's buffer.\<close>

definition sfc7120_user_rx :: "user_env \<Rightarrow> ust \<Rightarrow> (int \<times> u8 list \<times> nat \<times> ust) option" where
  "sfc7120_user_rx env s =
     (case s of (u, sc) \<Rightarrow>
      do { (e, _, data, sc) \<leftarrow> sfc_ioctl (ue_nic env) (ue_vm env) (DriverCmd ()) (u_cap_req u)
             (SFC7120_RX \<lparr>rx_out = [], length_received = 0, rx_status = OK\<rparr>) sc;
           (case data of
              SFC7120_RX req \<Rightarrow> Some (if e \<noteq> OK then -1 else 0, rx_out req, length_received req, u, sc)
            | _ \<Rightarrow> None) })"

section \<open>Session\<close>

primrec munmap_regions :: "user_env \<Rightarrow> int list \<Rightarrow> ust \<Rightarrow> ust" where
  "munmap_regions env [] s = s"
| "munmap_regions env (i # is) s =
     (case s of (u, sc) \<Rightarrow>
      munmap_regions env is
        (case u_region_maps u i of
           None \<Rightarrow> (u, sc)
         | Some len \<Rightarrow> (u\<lparr>u_region_maps := (u_region_maps u)(i := None)\<rparr>,
                         sc\<lparr>capio := snd (ue_munmap env i len (capio sc))\<rparr>)))"

definition sync_req :: "user_if \<Rightarrow> sfc7120_evq_sync_req_t" where
  "sync_req u = \<lparr>es_evq_read_ptr = u_evq_read_ptr u, es_tx_head = u_tx_head u, es_rx_head = u_rx_head u\<rparr>"

definition sfc7120_destroy :: "user_env \<Rightarrow> ust \<Rightarrow> ust option" where
  "sfc7120_destroy env s =
     (case munmap_regions env [0, 1, 2, 3, 4, 5, 6] s of (u, sc) \<Rightarrow>
      let u = u\<lparr>u_tx_buffer := False, u_rx_buffer := False, u_tx_desc_ring := False,
                u_rx_desc_ring := False, u_evq_ring := False\<rparr> in
      do { sc \<leftarrow> (if u_fd u \<and> u_vi_info_valid u \<and> u_used_poll u
                  then do { (_, _, _, sc) \<leftarrow> sfc_ioctl (ue_nic env) (ue_vm env) (DriverCmd ()) (u_cap_req u)
                              (SFC7120_SET_EVQ_RPTR (sync_req u)) sc; Some sc }
                  else Some sc);
           sc \<leftarrow> (if u_fd u
                  then do { (_, _, _, sc) \<leftarrow> sfc_ioctl (ue_nic env) (ue_vm env) CAPIO_GOODBYE (u_cap_req u)
                              (SFC7120_OTHER 0) sc; Some sc }
                  else Some sc);
           let u = (if u_mmio_slices u \<noteq> None then u\<lparr>u_mmio_slices := None, u_mmio_slices_len := 0\<rparr> else u);
           let u = (if u_cap_token u \<noteq> None then u\<lparr>u_cap_token := None\<rparr> else u);
           Some (u, sc) })"

definition map_region :: "user_env \<Rightarrow> int \<Rightarrow> bool \<Rightarrow> ust \<Rightarrow> bool \<times> ust" where
  "map_region env map_type sliced s =
     (case s of (u, sc) \<Rightarrow>
      case ue_get_slices env map_type (capio sc) of
        None \<Rightarrow> (False, s)
      | Some sizes \<Rightarrow>
          if region_length sizes = 0 then (False, s)
          else if sliced \<and> \<not> ue_calloc env then (False, s)
          else if \<not> sliced \<and> slice_def_length sizes \<noteq> 0 then (False, s)
          else
            let req = \<lparr>cr_user_cap = cr_user_cap (u_cap_req u), cr_sealed_cap = cr_sealed_cap (u_cap_req u),
                       mr_map_type = map_type, mr_is_sliced = False,
                       mr_slice_definitions = (if sliced then Some [] else None), mr_slice_def_length = 0\<rparr> in
            case ue_map env req (region_length sizes) sc of
              (None, c) \<Rightarrow> (False, u, sc\<lparr>capio := c\<rparr>)
            | (Some slices, c) \<Rightarrow>
                let u = (if sliced then u\<lparr>u_mmio_slices := Some slices, u_mmio_slices_len := slice_def_length sizes\<rparr>
                         else u)
                in (True, u\<lparr>u_region_maps := (u_region_maps u)(map_type := Some (region_length sizes))\<rparr>,
                    sc\<lparr>capio := c\<rparr>))"

function sfc7120_prefault :: "nat \<Rightarrow> nat \<Rightarrow> nat \<Rightarrow> unit option" where
  "sfc7120_prefault bound len off =
     (if off < len then if off < bound then sfc7120_prefault bound len (off + 4096) else None else Some ())"
  by pat_completeness auto

termination sfc7120_prefault
  by (relation "measure (\<lambda>(bound, len, off). len - off)") auto

declare sfc7120_prefault.simps [simp del]

text \<open>Touch the mapping of region \<open>i\<close>, whose capability covers the length it was mapped with.\<close>

definition prefault_region :: "int \<Rightarrow> nat \<Rightarrow> user_if \<Rightarrow> unit option" where
  "prefault_region i len u = do { bound \<leftarrow> u_region_maps u i; sfc7120_prefault bound len 0 }"

definition init_fail :: "user_env \<Rightarrow> ust \<Rightarrow> (int \<times> ust) option" where
  "init_fail env s = do { s \<leftarrow> sfc7120_destroy env s; Some (-1, s) }"

definition map_or_fail :: "user_env \<Rightarrow> int \<Rightarrow> bool \<Rightarrow> (user_if \<Rightarrow> user_if) \<Rightarrow> ust \<Rightarrow>
    (ust \<Rightarrow> (int \<times> ust) option) \<Rightarrow> (int \<times> ust) option" where
  "map_or_fail env t sliced upd s k =
     (case map_region env t sliced s of (ok, u, sc) \<Rightarrow> if ok then k (upd u, sc) else init_fail env (u, sc))"

definition init_reset :: "user_if \<Rightarrow> user_if" where
  "init_reset u = u\<lparr>u_fd := False, u_modmap_fd := False, u_tx_buffer := False, u_rx_buffer := False,
     u_tx_desc_ring := False, u_rx_desc_ring := False, u_evq_ring := False, u_mmio_slices := None,
     u_mmio_slices_len := 0, u_vi_info_valid := False, u_evq_read_ptr := 0, u_used_poll := False,
     u_rx_head := 0, u_tx_head := 0, u_region_maps := (\<lambda>_. None)\<rparr>"

definition rx_window_of :: "int option \<Rightarrow> u32" where
  "rx_window_of w =
     (let v = (case w of Some x \<Rightarrow> of_int x | None \<Rightarrow> 64) in
      if v < 1 \<or> v > 511 then 64 else v)"

text \<open>From GET_VI_INFO on.\<close>

definition init_vi :: "user_env \<Rightarrow> ust \<Rightarrow> (int \<times> ust) option" where
  "init_vi env s =
     (case s of (u, sc) \<Rightarrow>
      do { (e, _, data, sc) \<leftarrow> sfc_ioctl (ue_nic env) (ue_vm env) (DriverCmd ()) (u_cap_req u)
             (SFC7120_GET_VI_INFO (u_vi_info u)) sc;
           (case (e, data) of
              (OK, SFC7120_GET_VI_INFO vi) \<Rightarrow>
                let u = u\<lparr>u_vi_info := vi, u_vi_info_valid := True, u_evq_read_ptr := vi_evq_read_ptr vi,
                          u_rx_head := vi_rx_head vi, u_rx_window := rx_window_of (ue_rx_window env),
                          u_tx_head := vi_tx_head vi\<rparr> in
                do { (e, _, data, sc) \<leftarrow> sfc_ioctl (ue_nic env) (ue_vm env) (DriverCmd ()) (u_cap_req u)
                       (SFC7120_GET_MAC []) sc;
                     (case (e, data) of
                        (OK, SFC7120_GET_MAC mac) \<Rightarrow> Some (0, u\<lparr>u_mac_addr := mac\<rparr>, sc)
                      | _ \<Rightarrow> init_fail env (u, sc)) }
            | _ \<Rightarrow> init_fail env (u, sc)) })"

text \<open>The mappings, in the order the library asks for them, and the prefaulting.\<close>

definition init_maps :: "user_env \<Rightarrow> ust \<Rightarrow> (int \<times> ust) option" where
  "init_maps env s =
     map_or_fail env SFC7120_TX_BUFFER False (\<lambda>u. u\<lparr>u_tx_buffer := True\<rparr>) s (\<lambda>s.
     map_or_fail env SFC7120_RX_BUFFER False (\<lambda>u. u\<lparr>u_rx_buffer := True\<rparr>) s (\<lambda>s.
     map_or_fail env SFC7120_TX_DESC_RING False (\<lambda>u. u\<lparr>u_tx_desc_ring := True\<rparr>) s (\<lambda>s.
     map_or_fail env SFC7120_RX_DESC_RING False (\<lambda>u. u\<lparr>u_rx_desc_ring := True\<rparr>) s (\<lambda>s.
     map_or_fail env SFC7120_EVQ_RING False (\<lambda>u. u\<lparr>u_evq_ring := True\<rparr>) s (\<lambda>s.
       do { _ \<leftarrow> prefault_region SFC7120_TX_BUFFER (SFC7120_NUM_TX_DESC * SFC7120_TX_BUFFER_SIZE) (fst s);
            _ \<leftarrow> prefault_region SFC7120_RX_BUFFER (SFC7120_NUM_RX_DESC * SFC7120_RX_BUFFER_SIZE) (fst s);
            _ \<leftarrow> prefault_region SFC7120_TX_DESC_RING (SFC7120_NUM_TX_DESC * 8) (fst s);
            _ \<leftarrow> prefault_region SFC7120_RX_DESC_RING (SFC7120_NUM_RX_DESC * 8) (fst s);
            _ \<leftarrow> prefault_region SFC7120_EVQ_RING (SFC7120_NUM_EVQ_ENTRY * 8) (fst s);
            map_or_fail env SFC7120_MMIO_REGION True (\<lambda>u. u) s (init_vi env) })))))"

definition sfc7120_init :: "user_env \<Rightarrow> ust \<Rightarrow> (int \<times> ust) option" where
  "sfc7120_init env s =
     (case s of (u, sc) \<Rightarrow>
      let u = init_reset u in
      if \<not> ue_open_dev env then Some (-1, u, sc)
      else let u = u\<lparr>u_fd := True\<rparr> in
      if \<not> ue_open_modmap env then init_fail env (u, sc)
      else let u = u\<lparr>u_modmap_fd := True, u_cap_token := ue_malloc env\<rparr> in
      case u_cap_token u of
        None \<Rightarrow> init_fail env (u, sc)
      | Some p \<Rightarrow>
          let u = u\<lparr>u_cap_req := (u_cap_req u)\<lparr>cr_user_cap := p\<rparr>\<rparr> in
          do { (e, req, _, sc) \<leftarrow> sfc_ioctl (ue_nic env) (ue_vm env) CAPIO_ATTACH (u_cap_req u) (SFC7120_OTHER 0) sc;
               if e \<noteq> OK then init_fail env (u, sc)
               else init_maps env (u\<lparr>u_cap_req := req\<rparr>, sc) })"

section \<open>Polling is a FIFO\<close>

interpretation user_evq: event_queue "\<lambda>s. data_evq_ring (snd s)" "\<lambda>s. unat (u_evq_read_ptr (fst s))" user_consume
  by unfold_locales (auto simp: user_consume_def unat_next512 split: prod.splits)

lemma pending_stop: "ev_is_empty (ring ((p + k) mod 512)) \<Longrightarrow> pending ring p (Suc k) = pending ring p k"
  by (simp add: pending_def takeWhile_tail)

lemma pending_full:
  assumes "p < 512"
  shows "pending ring p 512 =
    (if ev_is_empty (ring p) then [] else ring p # pending (ring(p := 0)) (Suc p mod 512) 512)"
proof -
  let ?r = "ring(p := 0)" and ?q = "Suc p mod 512"
  have "(?q + 511) mod 512 = p" using assms by (simp add: mod_simps)
  then have "ev_is_empty (?r ((?q + 511) mod 512))" by (simp add: ev_is_empty_def)
  from pending_stop [of ?r, OF this] have "pending ?r ?q 512 = pending ?r ?q 511" by simp
  then show ?thesis using pending_Suc [OF assms, of 511 ring] by simp
qed

text \<open>Everything but the event ring and the trace.\<close>

definition poll_frame :: "softc \<Rightarrow> softc" where
  "poll_frame sc = sc\<lparr>trace := [], data_evq_ring := all_ones\<rparr>"

lemma user_poll_quiet:
  fixes sc :: softc and n :: nat
  assumes "quiet env" "unat (u_evq_read_ptr u) < 512"
  defines "evs \<equiv> take n (pending (data_evq_ring sc) (unat (u_evq_read_ptr u)) 512)"
  shows "\<exists>u' sc'. user_poll_loop env n (u, sc) = Some (map decode_ev evs, u', sc') \<and>
    u' = u\<lparr>u_evq_read_ptr := u_evq_read_ptr u'\<rparr> \<and>
    unat (u_evq_read_ptr u') = (unat (u_evq_read_ptr u) + length evs) mod 512 \<and>
    poll_frame sc' = poll_frame sc \<and>
    pending (data_evq_ring sc') (unat (u_evq_read_ptr u')) 512 =
      drop n (pending (data_evq_ring sc) (unat (u_evq_read_ptr u)) 512)"
  using assms(2) unfolding evs_def
proof (induction n arbitrary: u sc)
  case 0
  then show ?case by simp
next
  case (Suc n)
  let ?p = "unat (u_evq_read_ptr u)" and ?s = "data_evq_read env sc"
  let ?ring = "data_evq_ring sc" and ?ev = "data_evq_ring sc (unat (u_evq_read_ptr u))"
  have q [simp]: "ne_evq env tr r = r" for tr r using assms(1) by (simp add: quiet_def)
  have get: "ring_get (data_evq_ring ?s) (u_evq_read_ptr u) = Some ?ev"
    using Suc.prems by (simp add: ring_get_def)
  have fr: "poll_frame ?s = poll_frame sc" by (simp add: poll_frame_def data_evq_read_def io_def)
  note P = pending_full [OF Suc.prems, of ?ring]
  show ?case
  proof (cases "ev_is_empty ?ev")
    case True
    with P get fr Suc.prems show ?thesis by (simp add: Let_def)
  next
    case False
    define u1 where "u1 = u\<lparr>u_evq_read_ptr := next512 (u_evq_read_ptr u)\<rparr>"
    define s1 where "s1 = ?s\<lparr>data_evq_ring := ?ring(?p := 0)\<rparr>"
    have step: "user_consume (u, ?s) = (u1, s1)" by (simp add: user_consume_def u1_def s1_def)
    have ptr: "unat (u_evq_read_ptr u1) = Suc ?p mod 512" by (simp add: unat_next512 u1_def)
    have ring: "data_evq_ring s1 = ?ring(?p := 0)" by (simp add: s1_def)
    have "unat (u_evq_read_ptr u1) < 512" using ptr by simp
    from Suc.IH [OF this, of s1, unfolded ptr ring] obtain u' sc' where
      i: "user_poll_loop env n (u1, s1) =
          Some (map decode_ev (take n (pending (?ring(?p := 0)) (Suc ?p mod 512) 512)), u', sc')"
        "u' = u1\<lparr>u_evq_read_ptr := u_evq_read_ptr u'\<rparr>"
        "unat (u_evq_read_ptr u') =
          (Suc ?p mod 512 + length (take n (pending (?ring(?p := 0)) (Suc ?p mod 512) 512))) mod 512"
        "poll_frame sc' = poll_frame s1"
        "pending (data_evq_ring sc') (unat (u_evq_read_ptr u')) 512 =
          drop n (pending (?ring(?p := 0)) (Suc ?p mod 512) 512)"
      by blast
    have "u1\<lparr>u_evq_read_ptr := x\<rparr> = u\<lparr>u_evq_read_ptr := x\<rparr>" for x by (simp add: u1_def)
    then have "u' = u\<lparr>u_evq_read_ptr := u_evq_read_ptr u'\<rparr>" using i(2) by metis
    moreover have "poll_frame s1 = poll_frame sc" using fr by (simp add: s1_def poll_frame_def data_evq_read_def io_def)
    moreover have "unat (u_evq_read_ptr u') = (?p + length (take (Suc n) (pending ?ring ?p 512))) mod 512"
      unfolding i(3) P using False by (simp add: mod_add_left_eq del: fun_upd_apply)
    ultimately show ?thesis
      using False P get i(1,4,5) step by (simp add: Let_def del: fun_upd_apply)
  qed
qed

text \<open>A session after a successful set-up: everything mapped, the slices of the manifest, pointers in range.\<close>

definition user_ready :: "user_if \<Rightarrow> bool" where
  "user_ready u \<longleftrightarrow> u_tx_buffer u \<and> u_rx_buffer u \<and> u_tx_desc_ring u \<and> u_rx_desc_ring u \<and> u_evq_ring u \<and>
     u_mmio_slices u = Some sfc7120_reg_slices \<and> u_mmio_slices_len u = SFC7120_SLICE_COUNT \<and>
     unat (u_evq_read_ptr u) < 512 \<and> unat (u_rx_head u) < 512 \<and> unat (u_tx_head u) < 512"

lemma slice_write_ready:
  assumes "u_mmio_slices u = Some sfc7120_reg_slices"
  shows "slice_write SFC7120_SLICE_DATA_EVQ_RPTR_DBL 0 v u sc = Some (io [RegWr SFC7120_REG_DATA_EVQ_RPTR_DBL v] sc)"
    "slice_write SFC7120_SLICE_RX_DESC_DBL 0 v u sc = Some (io [RegWr SFC7120_REG_DATA_RX_DESC_DBL v] sc)"
    "d < 3 \<Longrightarrow> slice_write SFC7120_SLICE_TX_DESC_DBL d v u sc =
       Some (io [RegWr (SFC7120_REG_DATA_TX_DESC_DBL + 4 * d) v] sc)"
proof -
  have "slice_store sfc7120_reg_slices SFC7120_SLICE_DATA_EVQ_RPTR_DBL 0 = Some SFC7120_REG_DATA_EVQ_RPTR_DBL"
    "slice_store sfc7120_reg_slices SFC7120_SLICE_RX_DESC_DBL 0 = Some SFC7120_REG_DATA_RX_DESC_DBL"
    "d < 3 \<Longrightarrow> slice_store sfc7120_reg_slices SFC7120_SLICE_TX_DESC_DBL d = Some (SFC7120_REG_DATA_TX_DESC_DBL + 4 * d)"
    by (simp_all add: slice_store_targets)
  then show "slice_write SFC7120_SLICE_DATA_EVQ_RPTR_DBL 0 v u sc = Some (io [RegWr SFC7120_REG_DATA_EVQ_RPTR_DBL v] sc)"
    "slice_write SFC7120_SLICE_RX_DESC_DBL 0 v u sc = Some (io [RegWr SFC7120_REG_DATA_RX_DESC_DBL v] sc)"
    "d < 3 \<Longrightarrow> slice_write SFC7120_SLICE_TX_DESC_DBL d v u sc =
       Some (io [RegWr (SFC7120_REG_DATA_TX_DESC_DBL + 4 * d) v] sc)"
    using assms by (simp_all add: slice_write_def)
qed

lemma have_slice_ready: "user_ready u \<Longrightarrow> i < 5 \<Longrightarrow> have_slice i u"
  by (simp add: user_ready_def have_slice_def)

definition user_queue :: "ust \<Rightarrow> u64 list" where
  "user_queue s = pending (data_evq_ring (snd s)) (unat (u_evq_read_ptr (fst s))) 512"

text \<open>
  C19: The library's poll. While the NIC posts nothing, \<open>sfc7120_poll\<close> on a set-up session is
  exactly a dequeue: it returns the first \<open>max_evs\<close> pending events of the data queue, decoded, in
  order, and leaves the rest pending; nothing else of the kernel's state changes, and if it took any
  event the data queue's doorbell got the new read pointer.
\<close>

theorem user_poll_is_fifo:
  assumes "quiet env" "user_ready u" "0 < max_evs"
  shows "let evs = take (nat max_evs) (user_queue (u, sc)) in
    \<exists>u' sc'. sfc7120_user_poll env max_evs (u, sc) = Some (int (length evs), map decode_ev evs, u', sc') \<and>
      user_queue (u', sc') = drop (nat max_evs) (user_queue (u, sc)) \<and>
      u' = u\<lparr>u_used_poll := True, u_evq_read_ptr := u_evq_read_ptr u'\<rparr> \<and> poll_frame sc' = poll_frame sc \<and>
      (evs \<noteq> [] \<longrightarrow> last (trace sc') = RegWr SFC7120_REG_DATA_EVQ_RPTR_DBL (u_evq_read_ptr u'))"
proof -
  define u1 where "u1 = u\<lparr>u_used_poll := True\<rparr>"
  have ptr: "unat (u_evq_read_ptr u1) < 512" "u_evq_read_ptr u1 = u_evq_read_ptr u"
    using assms(2) by (simp_all add: u1_def user_ready_def)
  obtain u' s' where l: "user_poll_loop env (nat max_evs) (u1, sc) =
      Some (map decode_ev (take (nat max_evs) (user_queue (u, sc))), u', s')"
    "u' = u1\<lparr>u_evq_read_ptr := u_evq_read_ptr u'\<rparr>"
    "unat (u_evq_read_ptr u') = (unat (u_evq_read_ptr u) + length (take (nat max_evs) (user_queue (u, sc)))) mod 512"
    "poll_frame s' = poll_frame sc" "user_queue (u', s') = drop (nat max_evs) (user_queue (u, sc))"
    using user_poll_quiet [OF assms(1) ptr(1), where sc = sc and n = "nat max_evs"] unfolding ptr(2) user_queue_def by auto
  have "u_mmio_slices u' = u_mmio_slices u" using arg_cong [OF l(2), of u_mmio_slices] by (simp add: u1_def)
  then have sl: "u_mmio_slices u' = Some sfc7120_reg_slices" using assms(2) by (simp add: user_ready_def)
  have mask: "u_evq_read_ptr u' AND 0x7fff = u_evq_read_ptr u'"
    using and_mask_small [of "u_evq_read_ptr u'" 15] l(3) by (simp add: mask_eq_exp_minus_1)
  have "slice_write SFC7120_SLICE_DATA_EVQ_RPTR_DBL 0 (u_evq_read_ptr u' AND 0x7fff) u' s' =
      Some (io [RegWr SFC7120_REG_DATA_EVQ_RPTR_DBL (u_evq_read_ptr u')] s')"
    unfolding mask by (rule slice_write_ready(1) [OF sl])
  note w = this [simplified]
  let ?evs = "take (nat max_evs) (user_queue (u, sc))"
  let ?sc = "if ?evs = [] then s' else io [RegWr SFC7120_REG_DATA_EVQ_RPTR_DBL (u_evq_read_ptr u')] s'"
  have "sfc7120_user_poll env max_evs (u, sc) = Some (int (length ?evs), map decode_ev ?evs, u', ?sc)"
    using assms(2,3) have_slice_ready [OF assms(2), of 1] l(1) w
    by (simp add: sfc7120_user_poll_def user_ready_def u1_def [symmetric])
  moreover have "user_queue (u', ?sc) = user_queue (u', s')" "poll_frame ?sc = poll_frame s'"
    "?evs \<noteq> [] \<longrightarrow> last (trace ?sc) = RegWr SFC7120_REG_DATA_EVQ_RPTR_DBL (u_evq_read_ptr u')"
    by (simp_all add: user_queue_def io_def poll_frame_def)
  moreover have "u' = u\<lparr>u_used_poll := True, u_evq_read_ptr := u_evq_read_ptr u'\<rparr>"
    using l(2) by (simp add: u1_def)
  ultimately show ?thesis using l(4,5) unfolding Let_def by metis
qed

section \<open>The direct path is confined\<close>

datatype user_op =
    Poll int
  | Rx_peek u16
  | Rx_release
  | Rx_release_paddr u64 nat nat
  | Rx_peek_ext u16
  | Rx_release_paddr_nodbl u64 nat nat
  | Rx_flush
  | Tx_post_paddr_nodbl u64 nat
  | Tx_flush
  | Tx_post_paddr u64 nat
  | Tx_post "u8 list" nat
  | Rx_recv nat u16

definition user_run :: "nic_env \<Rightarrow> user_op \<Rightarrow> ust \<Rightarrow> ust option" where
  "user_run env op s =
     (case op of
        Poll n \<Rightarrow> map_option (\<lambda>(_, _, s). s) (sfc7120_user_poll env n s)
      | Rx_peek b \<Rightarrow> map_option (\<lambda>(_, _, s). s) (sfc7120_rx_peek env b s)
      | Rx_release \<Rightarrow> map_option snd (sfc7120_rx_release s)
      | Rx_release_paddr pa n c \<Rightarrow> map_option snd (sfc7120_rx_release_paddr pa n c s)
      | Rx_peek_ext b \<Rightarrow> map_option (\<lambda>(_, _, s). s) (sfc7120_rx_peek_ext env b s)
      | Rx_release_paddr_nodbl pa n c \<Rightarrow> map_option snd (sfc7120_rx_release_paddr_nodbl pa n c s)
      | Rx_flush \<Rightarrow> sfc7120_rx_flush s
      | Tx_post_paddr_nodbl pa n \<Rightarrow> map_option snd (sfc7120_tx_post_paddr_nodbl pa n s)
      | Tx_flush \<Rightarrow> sfc7120_tx_flush s
      | Tx_post_paddr pa n \<Rightarrow> map_option snd (sfc7120_tx_post_paddr pa n s)
      | Tx_post bs n \<Rightarrow> map_option snd (sfc7120_tx_post bs n s)
      | Rx_recv n b \<Rightarrow> map_option (\<lambda>(_, _, s). s) (sfc7120_rx_recv env n b s))"

text \<open>What the caller of a copying operation has to provide: buffers long enough, an event from the queue.\<close>

fun op_ok :: "nic_env \<Rightarrow> user_op \<Rightarrow> bool" where
  "op_ok env (Tx_post bs n) \<longleftrightarrow> n \<le> length bs"
| "op_ok env (Rx_recv n b) \<longleftrightarrow> 2034 \<le> n \<and> (\<exists>ev. nic_showed env ev \<and> ev_code ev = 0 \<and> b = ev_rx_bytes (decode_ev ev))"
| "op_ok env _ \<longleftrightarrow> True"

text \<open>What the direct path may touch: pointers, cookies, the shared memory, five doorbells.\<close>

definition sess :: "user_if \<Rightarrow> user_if" where
  "sess u = u\<lparr>u_evq_read_ptr := 0, u_used_poll := False, u_rx_head := 0, u_tx_head := 0,
     u_rx_ext_cookie := (\<lambda>_. 0)\<rparr>"

definition user_frame :: "softc \<Rightarrow> softc" where
  "user_frame sc = sc\<lparr>trace := [], data_evq_ring := all_ones, tx_desc_ring := all_ones,
     rx_desc_ring := all_ones, tx_buffer := (\<lambda>_. 0), rx_buffer := (\<lambda>_. 0)\<rparr>"

fun user_event :: "io \<Rightarrow> bool" where
  "user_event (RegWr off v) \<longleftrightarrow> off \<in> {SFC7120_REG_DATA_EVQ_RPTR_DBL, SFC7120_REG_DATA_RX_DESC_DBL,
     SFC7120_REG_DATA_TX_DESC_DBL, SFC7120_REG_DATA_TX_DESC_DBL + 4, SFC7120_REG_DATA_TX_WPTR_DBL}"
| "user_event (EvqRead i) \<longleftrightarrow> i = 1"
| "user_event RxBufRead \<longleftrightarrow> True"
| "user_event _ \<longleftrightarrow> False"

definition confined :: "ust \<Rightarrow> ust \<Rightarrow> bool" where
  "confined s s' \<longleftrightarrow> sess (fst s') = sess (fst s) \<and> user_frame (snd s') = user_frame (snd s) \<and>
     (\<exists>tr. trace (snd s') = trace (snd s) @ tr \<and> (\<forall>e \<in> set tr. user_event e)) \<and>
     unat (u_evq_read_ptr (fst s')) < 512 \<and> unat (u_rx_head (fst s')) < 512 \<and> unat (u_tx_head (fst s')) < 512"

lemma confined_refl: "user_ready (fst s) \<Longrightarrow> confined s s"
  by (simp add: confined_def user_ready_def)

lemma confined_trans: "confined s s' \<Longrightarrow> confined s' s'' \<Longrightarrow> confined s s''"
  unfolding confined_def by (metis append.assoc set_append Un_iff)

lemma sess_eqD:
  assumes "sess u' = sess u"
  shows "u_tx_buffer u' = u_tx_buffer u" "u_rx_buffer u' = u_rx_buffer u" "u_tx_desc_ring u' = u_tx_desc_ring u"
    "u_rx_desc_ring u' = u_rx_desc_ring u" "u_evq_ring u' = u_evq_ring u" "u_mmio_slices u' = u_mmio_slices u"
    "u_mmio_slices_len u' = u_mmio_slices_len u" "u_fd u' = u_fd u" "u_cap_req u' = u_cap_req u"
    "u_region_maps u' = u_region_maps u" "u_vi_info_valid u' = u_vi_info_valid u"
  using arg_cong [OF assms, of u_tx_buffer] arg_cong [OF assms, of u_rx_buffer]
    arg_cong [OF assms, of u_tx_desc_ring] arg_cong [OF assms, of u_rx_desc_ring]
    arg_cong [OF assms, of u_evq_ring] arg_cong [OF assms, of u_mmio_slices]
    arg_cong [OF assms, of u_mmio_slices_len] arg_cong [OF assms, of u_fd] arg_cong [OF assms, of u_cap_req]
    arg_cong [OF assms, of u_region_maps] arg_cong [OF assms, of u_vi_info_valid]
  by (simp_all add: sess_def)

lemma confined_ready:
  assumes "confined s s'" "user_ready (fst s)"
  shows "user_ready (fst s')"
proof -
  have "sess (fst s') = sess (fst s)" using assms(1) by (simp add: confined_def)
  from sess_eqD [OF this] assms show ?thesis by (simp add: confined_def user_ready_def)
qed

lemma confined_step:
  assumes "user_ready u" "sess u' = sess u" "user_frame sc' = user_frame sc" "trace sc' = trace sc @ tr"
    and "\<And>e. e \<in> set tr \<Longrightarrow> user_event e"
    and "unat (u_evq_read_ptr u') < 512" "unat (u_rx_head u') < 512" "unat (u_tx_head u') < 512"
  shows "confined (u, sc) (u', sc')"
  using assms by (auto simp: confined_def)

lemma user_poll_confined:
  assumes "user_ready u"
  shows "\<exists>evs s'. user_poll_loop env n (u, sc) = Some (evs, s') \<and> confined (u, sc) s'"
  using assms
proof (induction n arbitrary: u sc)
  case 0
  then show ?case using confined_refl [of "(u, sc)"] by simp
next
  case (Suc n)
  let ?s = "data_evq_read env sc" and ?p = "unat (u_evq_read_ptr u)"
  have p: "?p < 512" using Suc.prems by (simp add: user_ready_def)
  have get: "ring_get (data_evq_ring ?s) (u_evq_read_ptr u) = Some (data_evq_ring ?s ?p)"
    using p by (simp add: ring_get_def)
  have c1: "confined (u, sc) (u, ?s)"
    by (rule confined_step [where tr = "[EvqRead 1]"])
      (use Suc.prems in \<open>simp_all add: user_frame_def data_evq_read_def io_def user_ready_def\<close>)
  obtain u1 s1 where take: "user_consume (u, ?s) = (u1, s1)" by fastforce
  have "confined (u, ?s) (u1, s1)"
    by (rule confined_step [where tr = "[]"])
      (use Suc.prems take in \<open>auto simp: user_consume_def user_frame_def sess_def user_ready_def\<close>)
  with c1 have c2: "confined (u, sc) (u1, s1)" by (rule confined_trans)
  then have "user_ready u1" using confined_ready [of "(u, sc)" "(u1, s1)"] Suc.prems by simp
  from Suc.IH [OF this, of s1] obtain evs s' where
    "user_poll_loop env n (u1, s1) = Some (evs, s')" "confined (u1, s1) s'" by blast
  then show ?case using get take c1 confined_trans [OF c2, of s'] by (cases s') (simp add: Let_def)
qed

lemma have_slices [simp]:
  "u_mmio_slices u = Some sl \<Longrightarrow> u_mmio_slices_len u = 5 \<Longrightarrow> have_slice i u \<longleftrightarrow> i < 5"
  by (simp add: have_slice_def)

lemma doorbell_ready:
  assumes "user_ready u"
  shows "rx_doorbell u sc = Some (io [RegWr SFC7120_REG_DATA_RX_DESC_DBL ((u_rx_head u + u_rx_window u) AND 511)] sc)"
    "tx_push u sc = Some (io [RegWr SFC7120_REG_DATA_TX_DESC_DBL (ucast (tx_desc_ring sc (unat (u_tx_head u)) AND 0xffffffff)),
        RegWr (SFC7120_REG_DATA_TX_DESC_DBL + 4) (ucast (drop_bit 32 (tx_desc_ring sc (unat (u_tx_head u))))),
        RegWr SFC7120_REG_DATA_TX_WPTR_DBL (next512 (u_tx_head u))] sc)"
proof -
  have sl: "u_mmio_slices u = Some sfc7120_reg_slices" "unat (u_tx_head u) < 512"
    using assms by (simp_all add: user_ready_def)
  show "rx_doorbell u sc = Some (io [RegWr SFC7120_REG_DATA_RX_DESC_DBL ((u_rx_head u + u_rx_window u) AND 511)] sc)"
    unfolding rx_doorbell_def by (rule slice_write_ready(2) [OF sl(1)])
  note w = slice_write_ready(3) [OF sl(1), simplified]
  show "tx_push u sc = Some (io [RegWr SFC7120_REG_DATA_TX_DESC_DBL (ucast (tx_desc_ring sc (unat (u_tx_head u)) AND 0xffffffff)),
        RegWr (SFC7120_REG_DATA_TX_DESC_DBL + 4) (ucast (drop_bit 32 (tx_desc_ring sc (unat (u_tx_head u))))),
        RegWr SFC7120_REG_DATA_TX_WPTR_DBL (next512 (u_tx_head u))] sc)"
    using sl(2) by (simp add: tx_push_def ring_get_def w io_def)
qed

text \<open>The steps an operation is made of.\<close>

lemma confined_rx_post:
  assumes "user_ready u" "unat i < 512"
  shows "\<exists>sc'. rx_desc_put i n pa sc = Some sc' \<and> confined (u, sc) (u, sc') \<and> trace sc' = trace sc \<and>
    rx_desc_ring sc' = (rx_desc_ring sc)(unat i := ef10_desc n pa) \<and> rx_buffer sc' = rx_buffer sc"
  using assms by (auto simp: rx_desc_put_def ring_set_def confined_def user_frame_def user_ready_def)

lemma confined_tx_post:
  assumes "user_ready u"
  shows "\<exists>sc'. tx_desc_put n pa u sc = Some sc' \<and> confined (u, sc) (u, sc') \<and> trace sc' = trace sc \<and>
    tx_desc_ring sc' = (tx_desc_ring sc)(unat (u_tx_head u) := ef10_desc (of_nat n) pa) \<and> tx_buffer sc' = tx_buffer sc"
  using assms by (auto simp: tx_desc_put_def ring_set_def confined_def user_frame_def user_ready_def)

lemma confined_heads:
  assumes "user_ready u"
  shows "confined (u, sc) (u\<lparr>u_rx_head := next512 (u_rx_head u)\<rparr>, sc)"
    "confined (u, sc) (u\<lparr>u_tx_head := next512 (u_tx_head u)\<rparr>, sc)"
    "confined (u, sc) (u\<lparr>u_used_poll := True\<rparr>, sc)"
    "confined (u, sc) (u\<lparr>u_rx_ext_cookie := ck\<rparr>, sc)"
  using assms by (simp_all add: confined_def sess_def user_ready_def)

lemma confined_io:
  "user_ready u \<Longrightarrow> (\<And>e. e \<in> set tr \<Longrightarrow> user_event e) \<Longrightarrow> confined (u, sc) (u, io tr sc)"
  by (simp add: confined_def io_def user_frame_def user_ready_def)

lemma confined_doorbells:
  assumes "user_ready u"
  shows "\<exists>sc'. rx_doorbell u sc = Some sc' \<and> confined (u, sc) (u, sc')"
    "\<exists>sc'. tx_push u sc = Some sc' \<and> confined (u, sc) (u, sc')"
    "\<exists>sc'. slice_write SFC7120_SLICE_TX_DESC_DBL 2 v u sc = Some sc' \<and> confined (u, sc) (u, sc')"
    "\<exists>sc'. slice_write SFC7120_SLICE_RX_DESC_DBL 0 v u sc = Some sc' \<and> confined (u, sc) (u, sc')"
    "\<exists>sc'. slice_write SFC7120_SLICE_DATA_EVQ_RPTR_DBL 0 v u sc = Some sc' \<and> confined (u, sc) (u, sc')"
proof -
  have sl: "u_mmio_slices u = Some sfc7120_reg_slices" using assms by (simp add: user_ready_def)
  note w = slice_write_ready [OF sl]
  show "\<exists>sc'. rx_doorbell u sc = Some sc' \<and> confined (u, sc) (u, sc')"
    "\<exists>sc'. tx_push u sc = Some sc' \<and> confined (u, sc) (u, sc')"
    unfolding doorbell_ready [OF assms] by (auto intro!: confined_io assms)
  show "\<exists>sc'. slice_write SFC7120_SLICE_TX_DESC_DBL 2 v u sc = Some sc' \<and> confined (u, sc) (u, sc')"
    unfolding w(3) [of 2, simplified] by (auto intro!: confined_io assms)
  show "\<exists>sc'. slice_write SFC7120_SLICE_RX_DESC_DBL 0 v u sc = Some sc' \<and> confined (u, sc) (u, sc')"
    "\<exists>sc'. slice_write SFC7120_SLICE_DATA_EVQ_RPTR_DBL 0 v u sc = Some sc' \<and> confined (u, sc) (u, sc')"
    unfolding w(1,2) by (auto intro!: confined_io assms)
qed

lemma confined_look: "user_ready u \<Longrightarrow> confined (u, sc) (u, rx_look env sc)"
  by (simp add: confined_def rx_look_def io_def user_frame_def user_ready_def)

definition runs :: "ust \<Rightarrow> ust option \<Rightarrow> bool" where
  "runs s m \<longleftrightarrow> (\<exists>s'. m = Some s' \<and> confined s s')"

lemma runs_Some: "user_ready (fst s) \<Longrightarrow> runs s (Some s)"
  by (simp add: runs_def confined_refl)

lemma runs_bind:
  assumes "\<exists>sc'. m = Some sc' \<and> confined (u, sc) (u, sc')" "\<And>sc'. runs (u, sc') (map_option f (k sc'))"
  shows "runs (u, sc) (map_option f (m \<bind> k))"
  using assms unfolding runs_def by (metis bind.bind_lunit confined_trans)

lemma runs_via: "confined (u, sc) (u', sc') \<Longrightarrow> runs (u', sc') m \<Longrightarrow> runs (u, sc) m"
  unfolding runs_def by (metis confined_trans)

lemma ready_upd [simp]:
  "user_ready (u\<lparr>u_rx_head := next512 h\<rparr>) = user_ready (u\<lparr>u_rx_head := 0\<rparr>)"
  "user_ready (u\<lparr>u_tx_head := next512 h\<rparr>) = user_ready (u\<lparr>u_tx_head := 0\<rparr>)"
  "user_ready (u\<lparr>u_used_poll := b\<rparr>) = user_ready u"
  "user_ready (u\<lparr>u_rx_ext_cookie := ck\<rparr>) = user_ready u"
  "user_ready u \<Longrightarrow> user_ready (u\<lparr>u_rx_head := 0\<rparr>)" "user_ready u \<Longrightarrow> user_ready (u\<lparr>u_tx_head := 0\<rparr>)"
  by (simp_all add: user_ready_def)

lemma ready_guards:
  assumes "user_ready u"
  shows "u_tx_buffer u" "u_rx_buffer u" "u_tx_desc_ring u" "u_rx_desc_ring u" "u_evq_ring u"
    "have_slice 1 u" "have_slice 2 u" "have_slice 3 u"
    "unat (u_evq_read_ptr u) < 512" "unat (u_rx_head u) < 512" "unat (u_tx_head u) < 512"
  using assms by (simp_all add: user_ready_def)

lemma rx_ops_run:
  assumes "user_ready u"
  shows "runs (u, sc) (map_option snd (sfc7120_rx_release (u, sc)))"
    "runs (u, sc) (map_option snd (sfc7120_rx_release_paddr pa n ck (u, sc)))"
    "runs (u, sc) (map_option snd (sfc7120_rx_release_paddr_nodbl pa n ck (u, sc)))"
    "runs (u, sc) (sfc7120_rx_flush (u, sc))"
proof -
  note g = ready_guards [OF assms]
  let ?h = "u_rx_head u"
  have post: "\<exists>sc'. rx_desc_put i l a sc = Some sc' \<and> confined (u, sc) (u, sc')" if "unat i < 512" for i l a sc
    using confined_rx_post [OF assms that] by blast
  have ring: "runs (v, sc) (map_option snd (rx_doorbell v sc \<bind> (\<lambda>sc. Some (0 :: int, v, sc))))"
    if "user_ready v" for v sc
    by (rule runs_bind [OF confined_doorbells(1) [OF that]]) (simp add: runs_Some that)
  have next_ck: "confined (u, sc) (u\<lparr>u_rx_ext_cookie := ck, u_rx_head := next512 ?h\<rparr>, sc)" for ck sc
    using assms by (simp add: confined_def sess_def user_ready_def)
  have repost: "runs (u, sc) (map_option snd (rx_desc_put i l a sc \<bind> (\<lambda>sc. rx_doorbell v sc \<bind> (\<lambda>sc. Some (0 :: int, v, sc)))))"
    if "unat i < 512" "user_ready v" "\<And>sc. confined (u, sc) (v, sc)" for i l a v sc
    by (rule runs_bind [OF post [OF that(1)]]) (rule runs_via [OF that(3) ring [OF that(2)]])
  show "runs (u, sc) (map_option snd (sfc7120_rx_release (u, sc)))"
    using g repost [OF g(10) _ confined_heads(1) [OF assms]] by (simp add: sfc7120_rx_release_def Let_def assms)
  show "runs (u, sc) (map_option snd (sfc7120_rx_release_paddr pa n ck (u, sc)))"
    using g repost [OF g(10) _ next_ck] runs_Some [of "(u, sc)"]
    by (simp add: sfc7120_rx_release_paddr_def Let_def assms)
  have tail: "unat ((?h + w) AND 511) < 512" for w by (rule ring512.and_msk_less)
  have "runs (u, sc) (map_option snd (rx_desc_put ((?h + w) AND 511) l a sc \<bind>
      (\<lambda>sc. Some (0 :: int, u\<lparr>u_rx_ext_cookie := c, u_rx_head := next512 ?h\<rparr>, sc))))" for w l a c
    by (rule runs_bind [OF post [OF tail]]) (simp, rule runs_via [OF next_ck], rule runs_Some, simp add: assms)
  then show "runs (u, sc) (map_option snd (sfc7120_rx_release_paddr_nodbl pa n ck (u, sc)))"
    using g runs_Some [of "(u, sc)"] by (simp add: sfc7120_rx_release_paddr_nodbl_def Let_def assms)
  have "runs (u, sc) (map_option id (rx_doorbell u sc \<bind> (\<lambda>sc. Some (u, sc))))"
    by (rule runs_bind [OF confined_doorbells(1) [OF assms]]) (simp add: runs_Some assms)
  then show "runs (u, sc) (sfc7120_rx_flush (u, sc))"
    using g by (simp add: sfc7120_rx_flush_def option.map_id)
qed

lemma tx_ops_run:
  assumes "user_ready u"
  shows "runs (u, sc) (map_option snd (sfc7120_tx_post_paddr_nodbl pa n (u, sc)))"
    "runs (u, sc) (sfc7120_tx_flush (u, sc))"
    "runs (u, sc) (map_option snd (sfc7120_tx_post_paddr pa n (u, sc)))"
    "n \<le> length bs \<Longrightarrow> runs (u, sc) (map_option snd (sfc7120_tx_post bs n (u, sc)))"
proof -
  note g = ready_guards [OF assms]
  let ?v = "u\<lparr>u_used_poll := True\<rparr>"
  have v: "user_ready ?v" using assms by simp
  have post: "\<exists>sc'. tx_desc_put l a w sc = Some sc' \<and> confined (w, sc) (w, sc')" if "user_ready w" for l a w sc
    using confined_tx_post [OF that] by blast
  have fin: "runs (w, sc) (Some (w\<lparr>u_tx_head := next512 (u_tx_head w)\<rparr>, sc))" if "user_ready w" for w sc
    by (rule runs_via [OF confined_heads(2) [OF that]]) (simp add: runs_Some that)
  show "runs (u, sc) (map_option snd (sfc7120_tx_post_paddr_nodbl pa n (u, sc)))"
    using g fin [OF assms] unfolding sfc7120_tx_post_paddr_nodbl_def
    by (auto intro!: runs_bind [OF post [OF assms]] runs_Some simp: assms)
  have "runs (u, sc) (map_option id (slice_write 3 2 (u_tx_head u) u sc \<bind> (\<lambda>sc. Some (u, sc))))"
    by (rule runs_bind [OF confined_doorbells(3) [OF assms]]) (simp add: runs_Some assms)
  then show "runs (u, sc) (sfc7120_tx_flush (u, sc))"
    using g by (simp add: sfc7120_tx_flush_def option.map_id)
  have push: "runs (?v, sc) (map_option snd (tx_desc_put l a ?v sc \<bind> (\<lambda>sc. tx_push ?v sc \<bind>
      (\<lambda>sc. Some (0 :: int, ?v\<lparr>u_tx_head := next512 (u_tx_head ?v)\<rparr>, sc)))))" for l a sc
    using fin [OF v] by (intro runs_bind [OF post [OF v]] runs_bind [OF confined_doorbells(2) [OF v]]) simp
  show "runs (u, sc) (map_option snd (sfc7120_tx_post_paddr pa n (u, sc)))"
    using g runs_via [OF confined_heads(3) [OF assms] push] unfolding sfc7120_tx_post_paddr_def
    by (auto simp: runs_Some assms Let_def)
  assume len: "n \<le> length bs"
  show "runs (u, sc) (map_option snd (sfc7120_tx_post bs n (u, sc)))"
  proof (cases "n = 0 \<or> n > 2048")
    case True
    then show ?thesis using g by (auto simp: sfc7120_tx_post_def runs_Some assms)
  next
    case False
    let ?slot = "unat (u_tx_head u) * 2048"
    obtain tb where tb: "buf_store (tx_buffer sc) ?slot (take n bs) = Some tb"
      using slot_fits [OF g(11), of "length (take n bs)"] False len by (simp add: buf_store_def)
    have "confined (u, sc) (?v, sc\<lparr>tx_buffer := tb\<rparr>)"
      using assms by (simp add: confined_def sess_def user_ready_def user_frame_def)
    from runs_via [OF this push] show ?thesis
      using g False len tb by (simp add: sfc7120_tx_post_def Let_def)
  qed
qed

lemma poll_runs:
  assumes "user_ready u"
  shows "runs (u, sc) (map_option (\<lambda>(_, _, s). s) (sfc7120_user_poll env n (u, sc)))"
proof (cases "n \<le> 0")
  case True
  then show ?thesis using runs_Some [of "(u, sc)"] assms by (simp add: sfc7120_user_poll_def)
next
  case False
  let ?v = "u\<lparr>u_used_poll := True\<rparr>"
  note g = ready_guards [OF assms]
  have "user_ready ?v" using assms by simp
  from user_poll_confined [OF this, of env "nat n" sc] obtain evs w s where
    l: "user_poll_loop env (nat n) (?v, sc) = Some (evs, w, s)" "confined (?v, sc) (w, s)" by auto
  have c: "confined (u, sc) (w, s)" by (rule confined_trans [OF confined_heads(3) [OF assms] l(2)])
  then have w: "user_ready w" using confined_ready [of "(u, sc)" "(w, s)"] assms by simp
  obtain s' where s': "slice_write SFC7120_SLICE_DATA_EVQ_RPTR_DBL 0 (u_evq_read_ptr w AND 0x7fff) w s = Some s'"
    "confined (w, s) (w, s')" using confined_doorbells(5) [OF w] by blast
  have "map_option (\<lambda>(_, _, s). s) (sfc7120_user_poll env n (u, sc)) = Some (w, if evs = [] then s else s')"
    using False g l(1) s'(1) by (simp add: sfc7120_user_poll_def)
  then show ?thesis using c confined_trans [OF c s'(2)] unfolding runs_def by (metis (full_types))
qed

lemma prefix_plen_eq:
  assumes "unat (u_rx_head u) < 512"
  shows "prefix_plen u b sc = Some (rx_plen (rx_buffer sc (unat (u_rx_head u) * 2048 + 8))
    (rx_buffer sc (unat (u_rx_head u) * 2048 + 9)) (ucast b))"
  using slot_fits [OF assms, of 10] by (simp add: prefix_plen_def buf_load_def bytes_at_nth)

lemma peeks_run:
  assumes "user_ready u"
  shows "runs (u, sc) (map_option (\<lambda>(_, _, s). s) (sfc7120_rx_peek env b (u, sc)))"
    "runs (u, sc) (map_option (\<lambda>(_, _, s). s) (sfc7120_rx_peek_ext env b (u, sc)))"
proof -
  note g = ready_guards [OF assms]
  let ?v = "u\<lparr>u_used_poll := True\<rparr>"
  have c: "confined (u, sc) (?v, sc)" by (rule confined_heads(3) [OF assms])
  have "confined (?v, sc) (?v, rx_look env sc)" by (rule confined_look) (simp add: assms)
  with c have c2: "confined (u, sc) (?v, rx_look env sc)" by (rule confined_trans)
  have p: "\<exists>l. prefix_plen ?v b s = Some l" for s using g(10) by (simp add: prefix_plen_eq)
  show "runs (u, sc) (map_option (\<lambda>(_, _, s). s) (sfc7120_rx_peek env b (u, sc)))"
    using g c2 p [of "rx_look env sc"] by (auto simp: sfc7120_rx_peek_def Let_def runs_def)
  show "runs (u, sc) (map_option (\<lambda>(_, _, s). s) (sfc7120_rx_peek_ext env b (u, sc)))"
    using g c c2 p [of "rx_look env sc"] by (auto simp: sfc7120_rx_peek_ext_def Let_def runs_def)
qed

lemma recv_runs:
  assumes "user_ready u" "frames_fit env" "op_ok env (Rx_recv n b)"
  shows "runs (u, sc) (map_option (\<lambda>(_, _, s). s) (sfc7120_rx_recv env n b (u, sc)))"
proof -
  note g = ready_guards [OF assms(1)]
  define v where "v = u\<lparr>u_used_poll := True\<rparr>"
  define s where "s = rx_look env sc"
  have v: "user_ready v" "u_rx_head v = u_rx_head u" using assms(1) by (simp_all add: v_def)
  have "confined (u, sc) (v, sc)" unfolding v_def by (rule confined_heads(3) [OF assms(1)])
  then have c: "confined (u, sc) (v, s)" unfolding s_def by (rule confined_trans) (rule confined_look [OF v(1)])
  obtain ev where ev: "nic_showed env ev" "ev_code ev = 0" "b = ucast (ev AND 0x3fff)"
    using assms(3) by (auto simp: decode_ev_def)
  have "ucast b = (ucast (ev AND 0x3fff) :: u32)"
    unfolding ev(3) desc_mask by (rule bit_word_eqI) (auto simp: bit_simps)
  then have le: "rx_plen (rx_buffer s (unat (u_rx_head u) * 2048 + 8)) (rx_buffer s (unat (u_rx_head u) * 2048 + 9))
      (ucast b) \<le> 2034"
    using assms(2) ev(1,2) g(10) by (simp add: rx_plen_frame_length frames_fit_def s_def rx_look_def io_def)
  obtain plen where pl: "prefix_plen v b s = Some plen" "plen \<le> 2034" "plen \<le> n"
    using prefix_plen_eq [of v b s] le g(10) v(2) assms(3) by auto
  have fr: "buf_load (rx_buffer s) (unat (u_rx_head v) * 2048 + 14) plen =
      Some (bytes_at (rx_buffer s) (unat (u_rx_head v) * 2048 + 14) plen)"
    using slot_fits [OF g(10), of "14 + plen"] pl(2) v(2) by (simp add: buf_load_def)
  let ?w = "v\<lparr>u_rx_head := next512 (u_rx_head v)\<rparr>"
  have w: "user_ready ?w" using v(1) by simp
  have "unat (u_rx_head v) < 512" using g(10) v(2) by simp
  from confined_rx_post [OF v(1) this] obtain s1 where
    s1: "rx_desc_put (u_rx_head v) 2048 (rx_slot_pa v) s = Some s1" "confined (v, s) (v, s1)" by blast
  obtain s2 where s2: "slice_write SFC7120_SLICE_RX_DESC_DBL 0 (u_rx_head ?w) ?w s1 = Some s2" "confined (?w, s1) (?w, s2)"
    using confined_doorbells(4) [OF w] by blast
  have "sfc7120_rx_recv env n b (u, sc) = Some (0, bytes_at (rx_buffer s) (unat (u_rx_head v) * 2048 + 14) plen, ?w, s2)"
    using g pl fr s1(1) s2(1) by (simp add: sfc7120_rx_recv_def Let_def v_def [symmetric] s_def [symmetric])
  moreover have "confined (u, sc) (?w, s2)"
    by (rule confined_trans [OF c]) (rule confined_trans [OF s1(2)], rule confined_trans [OF confined_heads(1) [OF v(1)] s2(2)])
  ultimately show ?thesis by (simp add: runs_def)
qed

lemma user_run_runs:
  assumes "user_ready (fst s)" "frames_fit env" "op_ok env op"
  shows "runs s (user_run env op s)"
  using assms poll_runs peeks_run rx_ops_run tx_ops_run recv_runs
  by (cases s; cases op) (simp_all add: user_run_def)

inductive user_step :: "ust \<Rightarrow> ust \<Rightarrow> bool" where
  op: "\<lbrakk>frames_fit env; op_ok env op; user_run env op s = Some s'\<rbrakk> \<Longrightarrow> user_step s s'"

interpretation user_machine: invariant_machine "\<lambda>s. s = s0 \<and> user_ready (fst s)" user_step
  "\<lambda>s. user_ready (fst s) \<and> confined s0 s" for s0
proof
  show "s = s0 \<and> user_ready (fst s) \<Longrightarrow> user_ready (fst s) \<and> confined s0 s" for s
    using confined_refl by blast
  show "user_ready (fst s) \<and> confined s0 s \<Longrightarrow> user_step s s' \<Longrightarrow> user_ready (fst s') \<and> confined s0 s'" for s s'
  proof -
    assume r: "user_ready (fst s) \<and> confined s0 s" and "user_step s s'"
    then have "runs s (Some s')" using user_run_runs by (metis user_step.cases)
    then have "confined s s'" by (simp add: runs_def)
    then show ?thesis using r confined_ready confined_trans by blast
  qed
qed

text \<open>
  C18: The direct data path is confined. From any set-up session (\<open>user_ready\<close>), after any sequence of
  the twelve data-path calls with arbitrary arguments, provided the NIC keeps received frames within
  their slots (\<open>frames_fit\<close>), a copied frame comes from a buffer of its length, and a copying receive
  has room for 2034 bytes and passes the byte count of an RX event of that NIC (\<open>op_ok\<close>), the ring
  positions are below 512, the kernel's state outside the shared rings and buffers is unchanged, and
  the only registers written are the five data-path doorbell words; no further call faults.
\<close>

theorem user_ops_confined:
  assumes "user_ready u" "user_step\<^sup>*\<^sup>* (u, sc) (u', sc')" "frames_fit env" "op_ok env op"
  shows "unat (u_evq_read_ptr u') < 512 \<and> unat (u_rx_head u') < 512 \<and> unat (u_tx_head u') < 512 \<and>
    user_frame sc' = user_frame sc \<and> (\<exists>tr. trace sc' = trace sc @ tr \<and> (\<forall>e \<in> set tr. user_event e)) \<and>
    user_run env op (u', sc') \<noteq> None"
proof -
  have r: "user_ready u'" "confined (u, sc) (u', sc')"
    using user_machine.reachable_inv [OF _ assms(2)] assms(1) by auto
  with user_run_runs [of "(u', sc')" env op] assms(3,4) show ?thesis by (auto simp: runs_def confined_def)
qed

text \<open>
  C20: The direct transmit path does what the kernel's does. When the library's TX position and
  buffer address are the kernel's, \<open>sfc7120_tx_post\<close> of a frame leaves the TX buffer and the
  descriptor ring exactly as the TX ioctl for the same frame leaves them, and both move the head
  to the same slot; the library writes the descriptor's two halves and then the same write pointer
  to the doorbell.
\<close>

theorem user_tx_matches_kernel:
  assumes "user_ready u" "dp_ok sc" "u_tx_head u = tx_head sc"
    and "vi_tx_buffer_paddr (u_vi_info u) = db_pa (tx_buf_dma sc)"
    and "tx_valid req" "ne_copyin env (trace sc) = (OK, take (tx_length req) bs)" "tx_length req \<le> length bs"
  shows "\<exists>u' su e req' sk. sfc7120_tx_post bs (tx_length req) (u, sc) = Some (0, u', su) \<and>
    sfc7120_tx env req sc = Some (e, req', sk) \<and>
    tx_buffer su = tx_buffer sk \<and> tx_desc_ring su = tx_desc_ring sk \<and> u_tx_head u' = tx_head sk \<and>
    (let d = tx_desc_ring sk (unat (tx_head sc)) in trace su = trace sc @
      [RegWr SFC7120_REG_DATA_TX_DESC_DBL (ucast (d AND 0xffffffff)),
       RegWr (SFC7120_REG_DATA_TX_DESC_DBL + 4) (ucast (drop_bit 32 d)),
       RegWr SFC7120_REG_DATA_TX_WPTR_DBL (tx_head sk)])"
  using assms(5,2,6)
proof (cases rule: tx_valid_spec)
  case (sent tb d c s)
  let ?n = "tx_length req" and ?h = "unat (tx_head sc)"
  let ?d = "ef10_desc (of_nat ?n) (db_pa (tx_buf_dma sc) + of_nat (?h * 2048))"
  let ?k = "(data_evq_ack c s)\<lparr>tx_head := next512 (tx_head sc)\<rparr>"
  have fr: "evq_frame (data_evq_ack c s) = evq_frame (sc\<lparr>tx_buffer := tb,
      tx_desc_ring := (tx_desc_ring sc)(?h := ?d)\<rparr>)"
    using sent(3) by (simp add: tx_ran_def)
  have k: "tx_buffer ?k = tb" "tx_desc_ring ?k = (tx_desc_ring sc)(?h := ?d)" "tx_head ?k = next512 (tx_head sc)"
    using evq_frame_eqD(4,6) [OF fr] by simp_all
  note g = ready_guards [OF assms(1)]
  have n: "?n \<noteq> 0" "\<not> 2048 < ?n" using assms(5) by (auto simp: tx_valid_def)
  define v where "v = u\<lparr>u_used_poll := True\<rparr>"
  define s1 where "s1 = sc\<lparr>tx_buffer := tb, tx_desc_ring := (tx_desc_ring sc)(?h := ?d)\<rparr>"
  have v: "user_ready v" "u_tx_head v = tx_head sc" "u_vi_info v = u_vi_info u" using assms(1,3) by (simp_all add: v_def)
  have tb: "buf_store (tx_buffer sc) (?h * 2048) (take ?n bs) = Some tb" using sent(2) by simp
  have put: "tx_desc_put ?n (db_pa (tx_buf_dma sc) + of_nat (?h * 2048)) v (sc\<lparr>tx_buffer := tb\<rparr>) = Some s1"
    using g(11) assms(3) v(2) by (simp add: tx_desc_put_def ring_set_def s1_def)
  let ?u = "v\<lparr>u_tx_head := next512 (tx_head sc)\<rparr>"
  let ?su = "io [RegWr SFC7120_REG_DATA_TX_DESC_DBL (ucast (?d AND 0xffffffff)),
       RegWr (SFC7120_REG_DATA_TX_DESC_DBL + 4) (ucast (drop_bit 32 ?d)),
       RegWr SFC7120_REG_DATA_TX_WPTR_DBL (next512 (tx_head sc))] s1"
  have push: "tx_push v s1 = Some ?su" unfolding doorbell_ready(2) [OF v(1)] v(2) by (simp add: s1_def)
  have "sfc7120_tx_post bs ?n (u, sc) = Some (0, ?u, ?su)"
    using g n assms(3,4,7) tb put push v(2,3)
    by (simp add: sfc7120_tx_post_def Let_def v_def [symmetric])
  with sent(4) k show ?thesis
    by (intro exI conjI) (assumption, assumption, simp_all add: io_def s1_def Let_def)
qed simp

section \<open>Witnesses\<close>

definition example_vi :: sfc7120_vi_info_req_t where
  "example_vi = get_vi_info example_softc"

definition example_user :: user_if where
  "example_user = \<lparr>u_fd = True, u_modmap_fd = True, u_cap_req = example_req, u_mac_addr = replicate 6 0,
     u_tx_buffer = True, u_rx_buffer = True, u_tx_desc_ring = True, u_rx_desc_ring = True, u_evq_ring = True,
     u_mmio_slices = Some sfc7120_reg_slices, u_mmio_slices_len = 5, u_vi_info = example_vi,
     u_vi_info_valid = True, u_evq_read_ptr = 0, u_used_poll = False, u_rx_window = 64, u_rx_head = 0,
     u_tx_head = 0, u_region_maps = (\<lambda>_. None), u_rx_ext_cookie = (\<lambda>_. 0), u_cap_token = None\<rparr>"

lemma example_user_ready [simp]: "user_ready example_user"
  by (simp add: user_ready_def example_user_def)

text \<open>Two events pending, one is asked for.\<close>

theorem user_poll_is_fifo_witness:
  "let sc = example_softc\<lparr>data_evq_ring := all_ones(0 := 0x2000000000000003, 1 := 0x40)\<rparr> in
   \<exists>u' sc'. sfc7120_user_poll quiet_nic 1 (example_user, sc) =
       Some (1, [\<lparr>ev_type = SFC7120_EV_TX, ev_tx_desc_idx = 3, ev_rx_bytes = 0, ev_raw = 0x2000000000000003\<rparr>], u', sc') \<and>
     user_queue (u', sc') = [0x40]"
proof -
  let ?sc = "example_softc\<lparr>data_evq_ring := all_ones(0 := 0x2000000000000003, 1 := 0x40)\<rparr>"
  have q: "quiet quiet_nic" by (simp add: quiet_def quiet_nic_def)
  let ?r = "data_evq_ring ?sc"
  have "pending (?r(0 := 0, Suc 0 := 0)) 2 512 = []"
    by (rule pending_empty) (simp_all add: all_ones_def ev_is_empty_def)
  then have "pending (?r(0 := 0)) (Suc 0) 512 = [0x40]"
    unfolding pending_full [of "Suc 0", simplified] by (simp add: ev_is_empty_def numeral_2_eq_2 [symmetric])
  then have "user_queue (example_user, ?sc) = [0x2000000000000003, 0x40]"
    unfolding user_queue_def using pending_full [of 0 ?r] by (simp add: example_user_def ev_is_empty_def)
  moreover have "decode_ev 0x2000000000000003 =
      \<lparr>ev_type = SFC7120_EV_TX, ev_tx_desc_idx = 3, ev_rx_bytes = 0, ev_raw = 0x2000000000000003\<rparr>"
    by (simp add: decode_ev_def ev_code_def)
  ultimately show ?thesis
    using user_poll_is_fifo [OF q example_user_ready, of 1 ?sc] by (auto simp: Let_def)
qed

theorem user_ops_confined_witness:
  "\<exists>u' sc'. user_step\<^sup>*\<^sup>* (example_user, example_softc) (u', sc') \<and> unat (u_tx_head u') = 1 \<and>
     user_frame sc' = user_frame example_softc \<and> user_run rx_nic (Poll 5) (u', sc') \<noteq> None"
proof -
  obtain u' sc' where r: "sfc7120_tx_post_paddr_nodbl 0x5000 60 (example_user, example_softc) = Some (0, u', sc')"
    "unat (u_tx_head u') = 1"
    by (simp add: sfc7120_tx_post_paddr_nodbl_def example_user_def tx_desc_put_def ring_set_def unat_next512)
  then have "user_run rx_nic (Tx_post_paddr_nodbl 0x5000 60) (example_user, example_softc) = Some (u', sc')"
    by (simp add: user_run_def)
  from user_step.op [OF rx_nic_fits _ this] have st: "user_step\<^sup>*\<^sup>* (example_user, example_softc) (u', sc')" by simp
  with r(2) show ?thesis
    using user_ops_confined [OF example_user_ready st rx_nic_fits, of "Poll 5"] by auto
qed

theorem user_tx_matches_kernel_witness:
  "\<exists>u' su e req' sk. sfc7120_tx_post (replicate 60 7) 60 (example_user, example_softc) = Some (0, u', su) \<and>
     sfc7120_tx tx_nic tx_example example_softc = Some (e, req', sk) \<and> tx_desc_ring su = tx_desc_ring sk"
proof -
  have "tx_length tx_example = 60" "tx_valid tx_example"
    by (simp_all add: tx_valid_def tx_example_def user_frame_cap_def)
  moreover have "ne_copyin tx_nic (trace example_softc) = (OK, replicate 60 7)" by (simp add: tx_nic_def)
  moreover have "u_tx_head example_user = tx_head example_softc"
    "vi_tx_buffer_paddr (u_vi_info example_user) = db_pa (tx_buf_dma example_softc)"
    by (simp_all add: example_user_def example_vi_def get_vi_info_def)
  ultimately show ?thesis
    using user_tx_matches_kernel [of example_user example_softc tx_example tx_nic "replicate 60 7"] by auto
qed

end
