(* ===== verification/Lifecycle.thy ===== *)
theory Lifecycle
  imports Driver
begin

text \<open>
  Resource accounting over the life of the device: what allocation failures, failed bring-up,
  failed attach and detach leave behind, the order in which detach gives things back, and what the
  region table that attach publishes means for the CAPIO layer.
\<close>

section \<open>DMA buffers\<close>

definition dma_held :: "dmabuf \<Rightarrow> bool" where
  "dma_held d \<longleftrightarrow> db_tag d \<and> db_va d \<noteq> 0 \<and> db_pa d \<noteq> 0"

lemma alloc_dmabuf_cases:
  fixes sc :: softc
  assumes "bus_dma_documented env"
  obtains e d tr where "sfc7120_alloc_dmabuf env len dmabuf_null sc = (e, d, io tr sc)"
    "if e = OK then dma_held d else d = dmabuf_null"
proof (cases "e_dma_tag env (trace sc) = OK")
  case False
  then show thesis using that [of "e_dma_tag env (trace sc)" dmabuf_null "[DmaTagCreate len]"]
    by (simp add: sfc7120_alloc_dmabuf_def)
next
  case True
  let ?s1 = "io [DmaTagCreate len] sc"
  have doc: "e_dma_mem env tr \<noteq> Inr 0" "e_dma_mem env tr \<noteq> Inl OK"
    "fst (e_dma_load env tr) \<noteq> OK \<Longrightarrow> snd (e_dma_load env tr) = 0" for tr
    using assms by (auto simp: bus_dma_documented_def)
  show thesis
  proof (cases "e_dma_mem env (trace ?s1)")
    case (Inl e2)
    with doc(2) have "e2 \<noteq> OK" by metis
    then show thesis
      using that [of e2 dmabuf_null "[DmaTagCreate len, DmaMemAlloc len, DmaTagDestroy]"] True Inl
      by (simp add: sfc7120_alloc_dmabuf_def io_def dmabuf_null_def)
  next
    case (Inr va)
    with doc(1) have va: "va \<noteq> 0" by metis
    let ?t = "trace (io [DmaMemAlloc len] ?s1)"
    obtain e3 pa where ld: "e_dma_load env ?t = (e3, pa)" by fastforce
    show thesis
    proof (cases "e3 \<noteq> OK \<or> pa = 0")
      case True
      with doc(3) [of ?t] ld have pa: "pa = 0" by auto
      let ?tr = "[DmaTagCreate len, DmaMemAlloc len, DmaMapLoad len, DmaMemFree, DmaTagDestroy]"
      show thesis
        using that [of "if e3 \<noteq> OK then e3 else ENOMEM" dmabuf_null ?tr] True pa ld Inr
          \<open>e_dma_tag env (trace sc) = OK\<close>
        by (simp add: sfc7120_alloc_dmabuf_def io_def dmabuf_null_def)
    next
      case False
      let ?d = "\<lparr>db_tag = True, db_va = va, db_pa = pa\<rparr>"
      show thesis
        using that [of OK ?d "[DmaTagCreate len, DmaMemAlloc len, DmaMapLoad len]"] False ld Inr va
          \<open>e_dma_tag env (trace sc) = OK\<close>
        by (simp add: sfc7120_alloc_dmabuf_def io_def dmabuf_null_def dma_held_def)
    qed
  qed
qed

lemma alloc_dmabuf_frame:
  fixes sc :: softc
  obtains e d' tr where "sfc7120_alloc_dmabuf env len d sc = (e, d', io tr sc)"
proof -
  have "\<exists>tr. snd (snd (sfc7120_alloc_dmabuf env len d sc)) = io tr sc"
    by (auto simp: sfc7120_alloc_dmabuf_def io_def Let_def split: sum.split prod.split)
  then show thesis using that by (metis prod.collapse)
qed

definition free_events :: "dmabuf \<Rightarrow> io list" where
  "free_events d = (if db_pa d \<noteq> 0 then [DmaMapUnload] else []) @
     (if db_va d \<noteq> 0 then [DmaMemFree] else []) @ (if db_tag d then [DmaTagDestroy] else [])"

lemma free_dmabuf_eq [simp]:
  fixes sc :: softc
  shows "sfc7120_free_dmabuf d sc = (dmabuf_null, io (free_events d) sc)"
  by (cases d) (auto simp: sfc7120_free_dmabuf_def free_events_def io_def dmabuf_null_def)

lemmas free_label_defs = free_evq_def free_data_evq_def free_txd_def free_rxd_def free_txb_def free_rxb_def

definition dma_clear :: "softc \<Rightarrow> bool" where
  "dma_clear sc \<longleftrightarrow> evq_dma sc = dmabuf_null \<and> data_evq_dma sc = dmabuf_null \<and>
     tx_desc_dma sc = dmabuf_null \<and> rx_desc_dma sc = dmabuf_null \<and>
     tx_buf_dma sc = dmabuf_null \<and> rx_buf_dma sc = dmabuf_null"

definition rings_held :: "softc \<Rightarrow> bool" where
  "rings_held sc \<longleftrightarrow> dma_held (evq_dma sc) \<and> dma_held (data_evq_dma sc) \<and>
     dma_held (tx_desc_dma sc) \<and> dma_held (rx_desc_dma sc) \<and>
     dma_held (tx_buf_dma sc) \<and> dma_held (rx_buf_dma sc)"

text \<open>Everything but the DMA buffers, their contents and the trace.\<close>

definition dma_frame :: "softc \<Rightarrow> softc" where
  "dma_frame sc = sc\<lparr>trace := [], evq_dma := dmabuf_null, data_evq_dma := dmabuf_null,
     tx_desc_dma := dmabuf_null, rx_desc_dma := dmabuf_null, tx_buf_dma := dmabuf_null,
     rx_buf_dma := dmabuf_null, stats_dma := dmabuf_null, evq_ring := all_ones, data_evq_ring := all_ones,
     tx_desc_ring := (\<lambda>_. 0), rx_desc_ring := (\<lambda>_. 0), tx_buffer := (\<lambda>_. 0), rx_buffer := (\<lambda>_. 0)\<rparr>"

lemma dma_frame_io [simp]: "dma_frame (io tr sc) = dma_frame sc"
  by (simp add: dma_frame_def io_def)

lemma dma_frame_upd [simp]:
  "dma_frame (sc\<lparr>evq_dma := d\<rparr>) = dma_frame sc" "dma_frame (sc\<lparr>data_evq_dma := d\<rparr>) = dma_frame sc"
  "dma_frame (sc\<lparr>tx_desc_dma := d\<rparr>) = dma_frame sc" "dma_frame (sc\<lparr>rx_desc_dma := d\<rparr>) = dma_frame sc"
  "dma_frame (sc\<lparr>tx_buf_dma := d\<rparr>) = dma_frame sc" "dma_frame (sc\<lparr>rx_buf_dma := d\<rparr>) = dma_frame sc"
  "dma_frame (sc\<lparr>stats_dma := d\<rparr>) = dma_frame sc"
  "dma_frame (sc\<lparr>evq_ring := r\<rparr>) = dma_frame sc" "dma_frame (sc\<lparr>data_evq_ring := r\<rparr>) = dma_frame sc"
  "dma_frame (sc\<lparr>tx_desc_ring := r\<rparr>) = dma_frame sc" "dma_frame (sc\<lparr>rx_desc_ring := r\<rparr>) = dma_frame sc"
  "dma_frame (sc\<lparr>tx_buffer := b\<rparr>) = dma_frame sc" "dma_frame (sc\<lparr>rx_buffer := b\<rparr>) = dma_frame sc"
  by (simp_all add: dma_frame_def)

lemma io_dma_simps [simp]:
  "evq_dma (io tr sc) = evq_dma sc" "data_evq_dma (io tr sc) = data_evq_dma sc"
  "tx_desc_dma (io tr sc) = tx_desc_dma sc" "rx_desc_dma (io tr sc) = rx_desc_dma sc"
  "tx_buf_dma (io tr sc) = tx_buf_dma sc" "rx_buf_dma (io tr sc) = rx_buf_dma sc"
  "stats_dma (io tr sc) = stats_dma sc"
  by (simp_all add: io_def)

lemma free_dma_resources_spec:
  "dma_clear (sfc7120_free_dma_resources sc)"
  "dma_frame (sfc7120_free_dma_resources sc) = dma_frame sc"
  "stats_dma (sfc7120_free_dma_resources sc) = stats_dma sc"
  by (simp_all add: sfc7120_free_dma_resources_def free_label_defs dma_clear_def)

lemma alloc_dma_resources_spec:
  assumes doc: "bus_dma_documented env" and clr: "dma_clear sc"
  obtains e sc' where "sfc7120_alloc_dma_resources env sc = (e, sc')" "dma_frame sc' = dma_frame sc"
    "if e = OK then rings_held sc' else dma_clear sc'"
proof -
  note st = clr [unfolded dma_clear_def]
  obtain e1 d1 t1 where 1: "sfc7120_alloc_dmabuf env (512 * 8) dmabuf_null sc = (e1, d1, io t1 sc)"
    "if e1 = OK then dma_held d1 else d1 = dmabuf_null" by (rule alloc_dmabuf_cases [OF doc])
  define s1 where "s1 = (io t1 sc)\<lparr>evq_dma := d1, evq_ring := all_ones\<rparr>"
  obtain e2 d2 t2 where 2: "sfc7120_alloc_dmabuf env (512 * 8) dmabuf_null s1 = (e2, d2, io t2 s1)"
    "if e2 = OK then dma_held d2 else d2 = dmabuf_null" by (rule alloc_dmabuf_cases [OF doc])
  define s2 where "s2 = (io t2 s1)\<lparr>data_evq_dma := d2, data_evq_ring := all_ones\<rparr>"
  obtain e3 d3 t3 where 3: "sfc7120_alloc_dmabuf env (512 * 8) dmabuf_null s2 = (e3, d3, io t3 s2)"
    "if e3 = OK then dma_held d3 else d3 = dmabuf_null" by (rule alloc_dmabuf_cases [OF doc])
  define s3 where "s3 = (io t3 s2)\<lparr>tx_desc_dma := d3, tx_desc_ring := (\<lambda>_. 0)\<rparr>"
  obtain e4 d4 t4 where 4: "sfc7120_alloc_dmabuf env (512 * 8) dmabuf_null s3 = (e4, d4, io t4 s3)"
    "if e4 = OK then dma_held d4 else d4 = dmabuf_null" by (rule alloc_dmabuf_cases [OF doc])
  define s4 where "s4 = (io t4 s3)\<lparr>rx_desc_dma := d4, rx_desc_ring := (\<lambda>_. 0)\<rparr>"
  obtain e5 d5 t5 where 5: "sfc7120_alloc_dmabuf env (512 * 2048) dmabuf_null s4 = (e5, d5, io t5 s4)"
    "if e5 = OK then dma_held d5 else d5 = dmabuf_null" by (rule alloc_dmabuf_cases [OF doc])
  define s5 where "s5 = (io t5 s4)\<lparr>tx_buf_dma := d5, tx_buffer := (\<lambda>_. 0)\<rparr>"
  obtain e6 d6 t6 where 6: "sfc7120_alloc_dmabuf env (512 * 2048) dmabuf_null s5 = (e6, d6, io t6 s5)"
    "if e6 = OK then dma_held d6 else d6 = dmabuf_null" by (rule alloc_dmabuf_cases [OF doc])
  define s6 where "s6 = (io t6 s5)\<lparr>rx_buf_dma := d6, rx_buffer := (\<lambda>_. 0)\<rparr>"
  obtain e7 d7 t7 where 7: "sfc7120_alloc_dmabuf env 4096 (stats_dma s6) s6 = (e7, d7, io t7 s6)"
    by (rule alloc_dmabuf_frame)
  note ss = s1_def s2_def s3_def s4_def s5_def s6_def
  have eq: "sfc7120_alloc_dma_resources env sc =
     (if e1 \<noteq> OK then (e1, (io t1 sc)\<lparr>evq_dma := d1\<rparr>)
      else if e2 \<noteq> OK then (e2, free_evq ((io t2 s1)\<lparr>data_evq_dma := d2\<rparr>))
      else if e3 \<noteq> OK then (e3, free_evq (free_data_evq ((io t3 s2)\<lparr>tx_desc_dma := d3\<rparr>)))
      else if e4 \<noteq> OK then (e4, free_evq (free_data_evq (free_txd ((io t4 s3)\<lparr>rx_desc_dma := d4\<rparr>))))
      else if e5 \<noteq> OK then (e5, free_evq (free_data_evq (free_txd (free_rxd ((io t5 s4)\<lparr>tx_buf_dma := d5\<rparr>)))))
      else if e6 \<noteq> OK then (e6, free_evq (free_data_evq (free_txd (free_rxd (free_txb
              ((io t6 s5)\<lparr>rx_buf_dma := d6\<rparr>))))))
      else (OK, if e7 \<noteq> OK then (io t7 s6)\<lparr>stats_dma := d7\<lparr>db_va := 0\<rparr>\<rparr>
                else (io t7 s6)\<lparr>stats_dma := d7\<rparr>))"
    using 1(1) 2(1) 3(1) 4(1) 5(1) 6(1) 7(1) st
    by (simp add: sfc7120_alloc_dma_resources_def ss)
  have fr: "dma_frame (snd (sfc7120_alloc_dma_resources env sc)) = dma_frame sc"
    unfolding eq ss by (simp add: free_label_defs)
  have "let r = sfc7120_alloc_dma_resources env sc in if fst r = OK then rings_held (snd r) else dma_clear (snd r)"
    using 1(2) 2(2) 3(2) 4(2) 5(2) 6(2) st
    unfolding eq ss by (simp add: free_label_defs dma_clear_def rings_held_def Let_def)
  then show thesis
    using fr that [of "fst (sfc7120_alloc_dma_resources env sc)" "snd (sfc7120_alloc_dma_resources env sc)"]
    by (simp add: Let_def)
qed

text \<open>
  DMA resources are all or nothing. From a device without DMA buffers,
  \<open>sfc7120_alloc_dma_resources\<close> either succeeds with all six rings and packet buffers allocated and
  loaded, or fails with none of them left, whichever of the 18 bus_dma calls fails; it changes
  nothing else of the device. Afterwards \<open>sfc7120_free_dma_resources\<close> returns all six.
\<close>

theorem alloc_dma_all_or_nothing:
  assumes "bus_dma_documented env" "dma_clear sc"
  shows "case sfc7120_alloc_dma_resources env sc of (e, sc') \<Rightarrow>
    dma_frame sc' = dma_frame sc \<and> (if e = OK then rings_held sc' else dma_clear sc') \<and>
    dma_clear (sfc7120_free_dma_resources sc')"
  by (rule alloc_dma_resources_spec [OF assms]) (simp add: free_dma_resources_spec)

definition flaky_dma :: env where
  "flaky_dma = live_mc\<lparr>e_dma_mem := (\<lambda>tr. if length (filter (\<lambda>e. e = DmaMemAlloc 4096) tr) = 3
     then Inl ENOMEM else Inr 0x7000)\<rparr>"

text \<open>The fourth ring cannot be allocated.\<close>

theorem alloc_dma_all_or_nothing_witness:
  "fst (sfc7120_alloc_dma_resources flaky_dma zero_softc) = ENOMEM \<and>
   dma_clear (snd (sfc7120_alloc_dma_resources flaky_dma zero_softc))"
proof -
  have doc: "bus_dma_documented flaky_dma"
    by (simp add: bus_dma_documented_def flaky_dma_def live_mc_def echo_mc_def silent_mc_def)
  have "fst (sfc7120_alloc_dma_resources flaky_dma zero_softc) = ENOMEM"
    by (simp add: sfc7120_alloc_dma_resources_def sfc7120_alloc_dmabuf_def flaky_dma_def live_mc_def
        echo_mc_def silent_mc_def zero_softc_def io_def dmabuf_null_def)
  moreover have "dma_clear zero_softc"
    by (simp add: zero_softc_def dma_clear_def)
  ultimately show ?thesis
    using alloc_dma_all_or_nothing [OF doc, of zero_softc]
    by (cases "sfc7120_alloc_dma_resources flaky_dma zero_softc") simp
qed

section \<open>Detach\<close>




definition intr_clear :: "softc \<Rightarrow> bool" where
  "intr_clear sc \<longleftrightarrow> \<not> msix_bar sc \<and> msix_nvec sc \<le> 0 \<and> \<not> irq_resource sc \<and> \<not> irq_handle sc \<and>
     \<not> intr_initialized sc"

text \<open>An installed handler comes with its resource and the flag that teardown tests.\<close>

definition intr_ok :: "softc \<Rightarrow> bool" where
  "intr_ok sc \<longleftrightarrow> (irq_handle sc \<longrightarrow> irq_resource sc \<and> intr_initialized sc)"

definition intr_frame :: "softc \<Rightarrow> softc" where
  "intr_frame sc = sc\<lparr>trace := [], msix_bar := False, msix_nvec := 0, irq_resource := False,
     irq_handle := False, intr_initialized := False\<rparr>"

definition intr_events :: "softc \<Rightarrow> io list" where
  "intr_events sc = (if intr_initialized sc \<and> irq_resource sc \<and> irq_handle sc then [IrqTeardown] else []) @
     (if irq_resource sc then [BusRelease 1] else []) @ (if msix_nvec sc > 0 then [MsixRelease] else []) @
     (if msix_bar sc then [BusRelease 4] else [])"

lemma intr_teardown_spec:
  "trace (sfc7120_intr_teardown sc) = trace sc @ intr_events sc"
  "intr_frame (sfc7120_intr_teardown sc) = intr_frame sc"
  "intr_ok sc \<Longrightarrow> intr_clear (sfc7120_intr_teardown sc)"
  by (auto simp: sfc7120_intr_teardown_def intr_events_def intr_frame_def intr_clear_def intr_ok_def
      io_def Let_def)

lemma intr_setup_spec:
  assumes "intr_clear sc"
  shows "case sfc7120_intr_setup env sc of (e, sc') \<Rightarrow>
    intr_frame sc' = intr_frame sc \<and>
    (if e = OK then irq_handle sc' \<and> intr_ok sc' \<and> msix_bar sc' \<and> msix_nvec sc' = 1 else intr_clear sc')"
  using assms
  by (auto simp: sfc7120_intr_setup_def intr_frame_def intr_clear_def intr_ok_def io_def Let_def
      split: prod.splits)

text \<open>
  Interrupt resources are all or nothing. From a device without interrupt resources,
  \<open>sfc7120_intr_setup\<close> either installs the handler on the one MSI-X vector it allocated, or returns
  an error with the BAR, the vectors and the IRQ released; \<open>sfc7120_intr_teardown\<close> undoes a
  successful setup completely. Neither changes anything else of the device.
\<close>

theorem intr_setup_all_or_nothing:
  assumes "intr_clear sc"
  shows "case sfc7120_intr_setup env sc of (e, sc') \<Rightarrow>
    intr_frame sc' = intr_frame sc \<and>
    (if e = OK then irq_handle sc' \<and> intr_ok sc' \<and> msix_bar sc' \<and> msix_nvec sc' = 1 \<and>
       intr_clear (sfc7120_intr_teardown sc') \<and> intr_frame (sfc7120_intr_teardown sc') = intr_frame sc
     else intr_clear sc')"
  using intr_setup_spec [OF assms, of env] intr_teardown_spec by (auto split: prod.splits)

definition two_vectors :: drv_env where
  "two_vectors = env.extend live_mc \<lparr>e_bar2 = (\<lambda>_. Some (0x90000000, 0x800000)), e_bar4 = (\<lambda>_. True),
     e_msix_count = (\<lambda>_. 8), e_msix_alloc = (\<lambda>_. (OK, 2)), e_irq = (\<lambda>_. True), e_setup_intr = (\<lambda>_. OK),
     e_make_dev = (\<lambda>_. True), e_root_sealcap = example_root\<rparr>"

text \<open>The bus grants two vectors instead of one.\<close>

theorem intr_setup_all_or_nothing_witness:
  "fst (sfc7120_intr_setup two_vectors zero_softc) = ENXIO \<and>
   intr_clear (snd (sfc7120_intr_setup two_vectors zero_softc))"
proof -
  have "intr_clear zero_softc" by (simp add: intr_clear_def zero_softc_def)
  moreover have "fst (sfc7120_intr_setup two_vectors zero_softc) = ENXIO"
    by (simp add: sfc7120_intr_setup_def two_vectors_def drv_env.defs env.defs zero_softc_def io_def)
  ultimately show ?thesis
    using intr_setup_all_or_nothing [of zero_softc two_vectors]
    by (cases "sfc7120_intr_setup two_vectors zero_softc") simp
qed

definition fini_events :: "'a mcdi_sc_scheme \<Rightarrow> io list" where
  "fini_events sc = (if mcdi_initialized sc
     then (if mcdi_buf_paddr sc \<noteq> 0 then [DmaMapUnload] else []) @
          (if mcdi_buf_va sc \<noteq> 0 then [DmaMemFree] else []) @ (if mcdi_dtag sc then [DmaTagDestroy] else [])
     else [])"

lemma mcdi_fini_trace: "trace (sfc7120_mcdi_fini sc) = trace sc @ fini_events sc"
  by (simp add: sfc7120_mcdi_fini_def sfc7120_mcdi_free_buf_def fini_events_def io_def Let_def)

definition release_events :: "softc \<Rightarrow> io list" where
  "release_events sc = free_events (rx_buf_dma sc) @ free_events (tx_buf_dma sc) @
     free_events (rx_desc_dma sc) @ free_events (tx_desc_dma sc) @ free_events (data_evq_dma sc) @
     free_events (evq_dma sc)"

lemma free_dma_resources_trace:
  "trace (sfc7120_free_dma_resources sc) = trace sc @ release_events sc"
  by (simp add: sfc7120_free_dma_resources_def free_label_defs release_events_def io_def)

text \<open>\<open>sfc7120_hw_teardown\<close> as the life cycle sees it.\<close>

lemma hw_teardown_spec:
  obtains sc' tr where "sfc7120_hw_teardown env sc = Some sc'" "hw_sc.more sc' = hw_sc.more sc"
    "trace sc' = trace sc @ tr @ fini_events sc" "\<forall>e \<in> set tr. mc_event e"
    "concat (map request_of tr) = (if mcdi_initialized sc then teardown_requests sc else [])"
    "\<not> mcdi_initialized sc'" "mcdi_res_ok sc \<longrightarrow> mcdi_res_clear sc'"
proof -
  obtain s where s: "sfc7120_hw_teardown env sc = Some (sfc7120_mcdi_fini s)"
    "mc_ran (teardown_requests sc) sc s" by (rule teardown_commands)
  from s(2) obtain tr where tr: "trace s = trace sc @ tr" "\<forall>e \<in> set tr. mc_event e"
    "concat (map request_of tr) = (if mcdi_initialized sc then teardown_requests sc else [])"
    and same: "hw_sc.more s = hw_sc.more sc" "fini_events s = fini_events sc"
    by (auto simp: mc_ran_def fini_events_def)
  show thesis
    using that [OF s(1) _ _ tr(2,3)] tr(1) same mcdi_fini_closed [of s] mc_ran_res_ok [OF s(2)]
    by (simp add: mcdi_fini_trace)
qed

lemma more_eqD:
  fixes sc sc' :: softc
  assumes "hw_sc.more sc' = hw_sc.more sc"
  shows "intr_clear sc' = intr_clear sc" "intr_ok sc' = intr_ok sc" "release_events sc' = release_events sc"
    "mem_resource sc' = mem_resource sc" "cdev sc' = cdev sc" "dying sc' = dying sc"
    "dma_clear sc' = dma_clear sc" "rings_held sc' = rings_held sc" "capio sc' = capio sc"
    "device_attached sc' = device_attached sc"
  using assms
  by (cases sc; cases sc'; simp add: intr_clear_def intr_ok_def release_events_def dma_clear_def
      rings_held_def)+

lemma intr_frame_proj:
  "release_events (intr_frame sc) = release_events sc" "fini_events (intr_frame sc) = fini_events sc"
  "teardown_requests (intr_frame sc) = teardown_requests sc" "mcdi_res_ok (intr_frame sc) = mcdi_res_ok sc"
  "mcdi_initialized (intr_frame sc) = mcdi_initialized sc" "mem_resource (intr_frame sc) = mem_resource sc"
  "cdev (intr_frame sc) = cdev sc" "dying (intr_frame sc) = dying sc"
  "device_attached (intr_frame sc) = device_attached sc" "dma_clear (intr_frame sc) = dma_clear sc"
  "rings_held (intr_frame sc) = rings_held sc" "capio (intr_frame sc) = capio sc"
  by (simp_all add: intr_frame_def release_events_def fini_events_def teardown_requests_def
      mcdi_res_ok_def mcdi_res_held_def mcdi_res_clear_def dma_clear_def rings_held_def)

lemma dma_frame_proj:
  "intr_clear (dma_frame sc) = intr_clear sc" "intr_ok (dma_frame sc) = intr_ok sc"
  "mcdi_res_ok (dma_frame sc) = mcdi_res_ok sc" "mcdi_res_clear (dma_frame sc) = mcdi_res_clear sc"
  "mcdi_initialized (dma_frame sc) = mcdi_initialized sc" "mem_resource (dma_frame sc) = mem_resource sc"
  "cdev (dma_frame sc) = cdev sc" "dying (dma_frame sc) = dying sc"
  "device_attached (dma_frame sc) = device_attached sc" "capio (dma_frame sc) = capio sc"
  "flags_of (dma_frame sc) = flags_of sc" "mac_addr (dma_frame sc) = mac_addr sc"
  by (simp_all add: dma_frame_def intr_clear_def intr_ok_def mcdi_res_ok_def mcdi_res_held_def
      mcdi_res_clear_def flags_of_def)

lemma intr_frame_eqD:
  assumes "intr_frame sc' = intr_frame sc"
  shows "release_events sc' = release_events sc" "fini_events sc' = fini_events sc"
    "teardown_requests sc' = teardown_requests sc" "mcdi_res_ok sc' = mcdi_res_ok sc"
    "mcdi_initialized sc' = mcdi_initialized sc" "mem_resource sc' = mem_resource sc"
    "cdev sc' = cdev sc" "dying sc' = dying sc" "device_attached sc' = device_attached sc"
    "dma_clear sc' = dma_clear sc" "rings_held sc' = rings_held sc" "capio sc' = capio sc"
  using assms intr_frame_proj [of sc] intr_frame_proj [of sc'] by simp_all

lemma dma_frame_eqD:
  assumes "dma_frame sc' = dma_frame sc"
  shows "intr_clear sc' = intr_clear sc" "intr_ok sc' = intr_ok sc" "mcdi_res_ok sc' = mcdi_res_ok sc"
    "mcdi_res_clear sc' = mcdi_res_clear sc" "mcdi_initialized sc' = mcdi_initialized sc"
    "mem_resource sc' = mem_resource sc" "cdev sc' = cdev sc" "dying sc' = dying sc"
    "device_attached sc' = device_attached sc" "capio sc' = capio sc" "flags_of sc' = flags_of sc"
    "mac_addr sc' = mac_addr sc"
  using assms dma_frame_proj [of sc] dma_frame_proj [of sc'] by simp_all

text \<open>The common tail of detach and of a failed attach: interrupts, firmware, rings.\<close>

lemma release_spec:
  assumes "mcdi_res_ok sc" "intr_ok sc"
  obtains s tr where "sfc7120_hw_teardown env (sfc7120_intr_teardown sc) = Some s"
    "trace (sfc7120_free_dma_resources s) = trace sc @ intr_events sc @ tr @ fini_events sc @ release_events sc"
    "\<forall>e \<in> set tr. mc_event e"
    "concat (map request_of tr) = (if mcdi_initialized sc then teardown_requests sc else [])"
    "dma_clear (sfc7120_free_dma_resources s)" "intr_clear (sfc7120_free_dma_resources s)"
    "mcdi_res_clear (sfc7120_free_dma_resources s)" "\<not> mcdi_initialized (sfc7120_free_dma_resources s)"
    "mem_resource (sfc7120_free_dma_resources s) = mem_resource sc"
    "cdev (sfc7120_free_dma_resources s) = cdev sc" "dying (sfc7120_free_dma_resources s) = dying sc"
    "device_attached (sfc7120_free_dma_resources s) = device_attached sc"
proof -
  let ?s1 = "sfc7120_intr_teardown sc"
  note f1 = intr_frame_eqD [OF intr_teardown_spec(2) [of sc]]
  obtain s2 tr where 2: "sfc7120_hw_teardown env ?s1 = Some s2" "hw_sc.more s2 = hw_sc.more ?s1"
    "trace s2 = trace ?s1 @ tr @ fini_events ?s1" "\<forall>e \<in> set tr. mc_event e"
    "concat (map request_of tr) = (if mcdi_initialized ?s1 then teardown_requests ?s1 else [])"
    "\<not> mcdi_initialized s2" "mcdi_res_ok ?s1 \<longrightarrow> mcdi_res_clear s2"
    by (rule hw_teardown_spec)
  note f2 = more_eqD [OF 2(2)]
  note f3 = dma_frame_eqD [OF free_dma_resources_spec(2) [of s2]]
  show thesis
    using that [OF 2(1) _ 2(4)] 2(3,5-7) assms(1) intr_teardown_spec(1,3) [of sc] assms(2)
      free_dma_resources_spec(1) [of s2]
    by (simp add: f1 f2 f3 free_dma_resources_trace)
qed



lemma no_free_before:
  "\<forall>e \<in> set tr. mc_event e \<Longrightarrow> DmaMemFree \<notin> set tr" "DmaMemFree \<notin> set (intr_events sc)"
  by (auto simp: mc_event_def intr_events_def)

lemma detach_spec:
  assumes "mcdi_res_ok sc" "intr_ok sc"
  obtains sc' tr where "sfc7120_fbsd_detach env sc = Some (OK, sc')"
    "trace sc' = trace sc @ (if cdev sc then [DevDestroy] else []) @ intr_events sc @ tr @ fini_events sc @
       release_events sc @ (if mem_resource sc \<noteq> None then [BusRelease 2] else [])"
    "\<forall>e \<in> set tr. mc_event e"
    "concat (map request_of tr) = (if mcdi_initialized sc then teardown_requests sc else [])"
    "dma_clear sc'" "intr_clear sc'" "mcdi_res_clear sc'" "\<not> mcdi_initialized sc'"
    "mem_resource sc' = None" "\<not> cdev sc'" "dying sc'" "\<not> device_attached sc'"
proof -
  let ?s0 = "sc\<lparr>device_attached := False, dying := True\<rparr>"
  define s1 where "s1 = (if cdev ?s0 then (io [DevDestroy] ?s0)\<lparr>cdev := False\<rparr> else ?s0)"
  have s1: "mcdi_res_ok s1" "intr_ok s1" "intr_events s1 = intr_events sc" "fini_events s1 = fini_events sc"
    "release_events s1 = release_events sc" "teardown_requests s1 = teardown_requests sc"
    "mcdi_initialized s1 = mcdi_initialized sc" "mem_resource s1 = mem_resource sc" "\<not> cdev s1"
    "dying s1" "\<not> device_attached s1" "trace s1 = trace sc @ (if cdev sc then [DevDestroy] else [])"
    using assms by (auto simp: s1_def io_def mcdi_res_ok_def mcdi_res_held_def mcdi_res_clear_def intr_ok_def
        intr_events_def fini_events_def release_events_def teardown_requests_def)
  obtain s tr where s: "sfc7120_hw_teardown env (sfc7120_intr_teardown s1) = Some s"
    "trace (sfc7120_free_dma_resources s) = trace s1 @ intr_events s1 @ tr @ fini_events s1 @ release_events s1"
    "\<forall>e \<in> set tr. mc_event e"
    "concat (map request_of tr) = (if mcdi_initialized s1 then teardown_requests s1 else [])"
    "dma_clear (sfc7120_free_dma_resources s)" "intr_clear (sfc7120_free_dma_resources s)"
    "mcdi_res_clear (sfc7120_free_dma_resources s)" "\<not> mcdi_initialized (sfc7120_free_dma_resources s)"
    "mem_resource (sfc7120_free_dma_resources s) = mem_resource s1"
    "cdev (sfc7120_free_dma_resources s) = cdev s1" "dying (sfc7120_free_dma_resources s) = dying s1"
    "device_attached (sfc7120_free_dma_resources s) = device_attached s1"
    by (rule release_spec [OF s1(1,2)])
  define s3 where "s3 = sfc7120_free_dma_resources s"
  define s4 where "s4 = (if mem_resource s3 \<noteq> None then (io [BusRelease 2] s3)\<lparr>mem_resource := None\<rparr> else s3)"
  note s3 = s(2,5-12) [unfolded s1, folded s3_def]
  have "sfc7120_fbsd_detach env sc = Some (OK, s4)"
    unfolding sfc7120_fbsd_detach_def Let_def s1_def [symmetric] s(1) s4_def s3_def by simp
  moreover have "dma_clear s4" "intr_clear s4" "mcdi_res_clear s4" "\<not> mcdi_initialized s4"
    "\<not> cdev s4" "dying s4" "\<not> device_attached s4"
    using s3(2-9) s1(9-11)
    by (simp_all add: s4_def io_def dma_clear_def intr_clear_def mcdi_res_clear_def)
  moreover have "mem_resource s4 = None" by (cases "mem_resource s3") (simp_all add: s4_def)
  moreover have "trace s4 = trace s3 @ (if mem_resource sc \<noteq> None then [BusRelease 2] else [])"
    using s3(6) by (simp add: s4_def io_def)
  ultimately show thesis
    using that [of s4 tr] s(3) s(4) [unfolded s1] s3(1) s1(12) by simp
qed



lemma count_free_zero: "DmaMemFree \<notin> set tr \<Longrightarrow> count_list tr DmaMemFree = 0"
  by (simp add: count_list_0_iff)

text \<open>
  C38: The statistics buffer leaks. When a device with all its rings and the mailbox is detached,
  exactly seven blocks of DMA memory are freed, the six rings and packet buffers and the mailbox;
  the eighth, the MAC statistics buffer that \<open>sfc7120_alloc_dma_resources\<close> allocated, is not among
  them.
\<close>

theorem detach_frees_seven_buffers:
  assumes "mcdi_initialized sc" "mcdi_res_ok sc" "intr_ok sc" "rings_held sc" "dma_held (stats_dma sc)"
  shows "\<exists>sc' tr. sfc7120_fbsd_detach env sc = Some (OK, sc') \<and> trace sc' = trace sc @ tr \<and>
    count_list tr DmaMemFree = 7 \<and> dma_clear sc' \<and> mcdi_res_clear sc'"
proof -
  obtain sc' tr where d: "sfc7120_fbsd_detach env sc = Some (OK, sc')"
    "trace sc' = trace sc @ (if cdev sc then [DevDestroy] else []) @ intr_events sc @ tr @ fini_events sc @
       release_events sc @ (if mem_resource sc \<noteq> None then [BusRelease 2] else [])"
    "\<forall>e \<in> set tr. mc_event e" "dma_clear sc'" "mcdi_res_clear sc'"
    by (rule detach_spec [OF assms(2,3)])
  have "count_list (fini_events sc) DmaMemFree = 1"
    using assms(1,2) by (simp add: fini_events_def mcdi_res_ok_def mcdi_res_held_def)
  moreover have "count_list (release_events sc) DmaMemFree = 6"
    using assms(4) by (simp add: release_events_def free_events_def rings_held_def dma_held_def)
  moreover have "count_list tr DmaMemFree = 0" "count_list (intr_events sc) DmaMemFree = 0"
    using d(3) by (simp_all add: count_free_zero no_free_before)
  ultimately show ?thesis
    using d by (intro exI conjI) (assumption | simp)+
qed

theorem detach_frees_seven_buffers_witness:
  "\<exists>sc'. sfc7120_fbsd_detach silent_mc example_softc = Some (OK, sc') \<and>
     count_list (trace sc') DmaMemFree = 7"
proof -
  have "intr_ok example_softc" "rings_held example_softc" "dma_held (stats_dma example_softc)"
    by (simp_all add: intr_ok_def rings_held_def dma_held_def held_dma_def example_softc_def)
  then show ?thesis using detach_frees_seven_buffers [of example_softc silent_mc] by auto
qed

section \<open>Hardware bring-up\<close>

definition ends :: "(errno \<times> softc) option \<Rightarrow> (errno \<Rightarrow> softc \<Rightarrow> bool) \<Rightarrow> bool" where
  "ends r P \<longleftrightarrow> (\<exists>e sc. r = Some (e, sc) \<and> P e sc)"

lemma ends_attempt:
  assumes "mc_any r sc Q"
    and "\<And>e s rq. \<lbrakk>mc_ran rq sc s; Q e s; e \<noteq> OK\<rbrakk> \<Longrightarrow> ends (fail e s) P"
    and "\<And>s rq. \<lbrakk>mc_ran rq sc s; Q OK s\<rbrakk> \<Longrightarrow> ends (k s) P"
  shows "ends (attempt r fail k) P"
proof -
  obtain e s rq where "r = Some (e, s)" "mc_ran rq sc s" "Q e s"
    using assms(1) by (auto simp: mc_any_def mc_ok_def)
  then show ?thesis using assms(2,3) by (cases "e = OK") (auto simp: attempt_def)
qed

text \<open>The channel is open and nothing outside the hardware layer has changed since \<open>sc0\<close>.\<close>

definition chan_open :: "softc \<Rightarrow> softc \<Rightarrow> bool" where
  "chan_open sc0 sc \<longleftrightarrow> mcdi_initialized sc \<and> mcdi_res_ok sc \<and> hw_sc.more sc = hw_sc.more sc0"

lemma chan_open_ran: "\<lbrakk>chan_open sc0 sc; mc_ran rq sc s\<rbrakk> \<Longrightarrow> chan_open sc0 s"
  using mc_ran_res_ok [of rq sc s] by (auto simp: chan_open_def mc_ran_def)

lemma chan_open_wait [simp]:
  "chan_open sc0 (io tr sc) = chan_open sc0 sc" "flags_of (io tr sc :: softc) = flags_of sc"
  "mac_addr (io tr sc :: softc) = mac_addr sc"
  by (simp_all add: chan_open_def io_def mcdi_res_ok_def mcdi_res_held_def mcdi_res_clear_def flags_of_def)

definition init_post :: "softc \<Rightarrow> errno \<Rightarrow> softc \<Rightarrow> bool" where
  "init_post sc0 e sc \<longleftrightarrow> hw_sc.more sc = hw_sc.more sc0 \<and> mcdi_res_ok sc \<and>
     mcdi_initialized sc = (e = OK) \<and>
     (e = OK \<longrightarrow> drv_attached sc \<and> vis_allocated sc \<and> vadaptor_allocated sc \<and> length (mac_addr sc) = 6)"

lemma fail_mcdi_post:
  assumes "chan_open sc0 sc" "e \<noteq> OK"
  shows "ends (fail_mcdi e sc) (init_post sc0)"
proof -
  have "mcdi_res_clear (sfc7120_mcdi_fini sc)" "\<not> mcdi_initialized (sfc7120_mcdi_fini sc)"
    using mcdi_fini_closed [of sc] assms by (simp_all add: chan_open_def)
  then show ?thesis
    using assms by (simp add: ends_def fail_mcdi_def init_post_def chan_open_def mcdi_res_ok_def)
qed

lemma fail_attach_post:
  assumes "chan_open sc0 sc" "e \<noteq> OK"
  shows "ends (fail_attach env e sc) (init_post sc0)"
proof -
  obtain r s rq where "sfc7120_mcdi_drv_detach env sc = Some (r, s)" "mc_ran rq sc s"
    by (rule ran_step [OF drv_detach_ok]) auto
  then show ?thesis
    using fail_mcdi_post [of sc0 s e] chan_open_ran [OF assms(1)] assms(2) by (simp add: fail_attach_def)
qed

lemma ends_init:
  assumes "mc_any r sc Q" "chan_open sc0 sc"
    and "\<And>s. \<lbrakk>chan_open sc0 s; Q OK s\<rbrakk> \<Longrightarrow> ends (k s) (init_post sc0)"
  shows "ends (attempt r fail_mcdi k) (init_post sc0)" "ends (attempt r (fail_attach env) k) (init_post sc0)"
    "ends (attempt r (\<lambda>e s. fail_attach env e (sfc7120_mcdi_log_mc_state env' s)) k) (init_post sc0)"
proof -
  have log: "chan_open sc0 (sfc7120_mcdi_log_mc_state env' s) = chan_open sc0 s" for s
    by (simp add: sfc7120_mcdi_log_mc_state_def SFC7120_READ_REG_def Let_def)
  show "ends (attempt r fail_mcdi k) (init_post sc0)"
    by (rule ends_attempt [OF assms(1)])
      (blast intro: fail_mcdi_post chan_open_ran assms(2), blast intro: assms(2,3) chan_open_ran)
  show "ends (attempt r (fail_attach env) k) (init_post sc0)"
    by (rule ends_attempt [OF assms(1)])
      (blast intro: fail_attach_post chan_open_ran assms(2), blast intro: assms(2,3) chan_open_ran)
  show "ends (attempt r (\<lambda>e s. fail_attach env e (sfc7120_mcdi_log_mc_state env' s)) k) (init_post sc0)"
    by (rule ends_attempt [OF assms(1)])
      (rule fail_attach_post, unfold log, blast intro: chan_open_ran assms(2), assumption,
       blast intro: assms(2,3) chan_open_ran)
qed

lemma ends_bind:
  assumes "mc_any r sc Q" "chan_open sc0 sc"
    and "\<And>e s. \<lbrakk>chan_open sc0 s; Q e s\<rbrakk> \<Longrightarrow> ends (k (e, s)) P"
  shows "ends (r \<bind> k) P"
  using assms chan_open_ran by (fastforce simp: mc_any_def mc_ok_def)

definition ready :: "softc \<Rightarrow> bool" where
  "ready sc \<longleftrightarrow> drv_attached sc \<and> vis_allocated sc \<and> vadaptor_allocated sc \<and> length (mac_addr sc) = 6"

lemma ready_same: "mc_same sc e s \<Longrightarrow> ready s = ready sc"
  by (simp add: mc_same_def ready_def flags_eq_iff)

lemma ready_io [simp]: "ready (io tr sc) = ready sc"
  by (simp add: ready_def io_def)

lemma ready_post: "\<lbrakk>chan_open sc0 sc; ready sc\<rbrakk> \<Longrightarrow> ends (Some (OK, sc)) (init_post sc0)"
  by (simp add: ends_def init_post_def chan_open_def ready_def)

lemma link_poll_post:
  assumes "chan_open sc0 sc" "ready sc"
  shows "ends (link_poll env n (fail_attach env) sc) (init_post sc0)"
  using assms
proof (induction n arbitrary: sc)
  case 0
  then show ?case by (simp add: ready_post)
next
  case (Suc n)
  have "ends (if link_up s then Some (OK, s) else link_poll env n (fail_attach env) (io [Delay 100000] s))
      (init_post sc0)" if "chan_open sc0 s" "ready s" for s
    using Suc.IH [of "io [Delay 100000] s"] that by (simp add: ready_post)
  then show ?case
    using Suc.prems ready_same by (auto intro!: ends_init(2) [OF get_link_any])
qed

lemma hw_init_post:
  assumes "bus_dma_documented env" "\<not> mcdi_initialized sc" "mcdi_res_clear sc"
  shows "ends (sfc7120_hw_init env sc) (init_post sc)"
proof -
  obtain e sc1 where init: "sfc7120_mcdi_init env sc = Some (e, sc1)" "mcdi_res_ok sc1"
    "mcdi_initialized sc1 = (e = OK)" "mcdi_sc.more sc1 = mcdi_sc.more sc"
    using mcdi_init_spec [OF assms] by blast
  have more: "hw_sc.more sc1 = hw_sc.more sc" using init(4) by (cases sc; cases sc1) simp
  show ?thesis
  proof (cases "e = OK")
    case False
    with init more show ?thesis by (simp add: sfc7120_hw_init_def attempt_def ends_def init_post_def)
  next
    case True
    then have op: "chan_open sc sc1" using init more by (simp add: chan_open_def)
    define up where "up s \<longleftrightarrow> chan_open sc s \<and> drv_attached s" for s
    define k1 where "k1 = (\<lambda>s. attempt (sfc7120_mcdi_vadaptor_alloc env s)
       (\<lambda>error sc. fail_attach env error (sfc7120_mcdi_log_mc_state env sc)) (\<lambda>sc.
       attempt (sfc7120_mcdi_get_phy_cfg env sc) (fail_attach env) (\<lambda>sc.
       attempt (sfc7120_mcdi_set_mac env sc) (fail_attach env) (\<lambda>sc.
       attempt (sfc7120_mcdi_set_link env sc) (fail_attach env) (\<lambda>sc.
       link_poll env 30 (fail_attach env) sc)))))"
    have k1: "ends (k1 s) (init_post sc)" if "up s" "vis_allocated s" "length (mac_addr s) = 6" for s
      using that unfolding k1_def up_def
      by (intro ends_init(3) [OF vadaptor_alloc_any] ends_init(2) [OF get_phy_cfg_any]
          ends_init(2) [OF set_mac_any] ends_init(2) [OF set_link_any] link_poll_post)
        (auto simp: mc_same_def ready_def flags_eq_iff)
    define k2 where "k2 = (\<lambda>s. sfc7120_mcdi_dump_func_info env s \<bind> (\<lambda>(_, sc).
       attempt (sfc7120_mcdi_alloc_vis env 1 32 sc)
         (\<lambda>error sc. fail_attach env error (sfc7120_mcdi_log_mc_state env sc)) k1))"
    have k2: "ends (k2 s) (init_post sc)" if "up s" "length (mac_addr s) = 6" for s
    proof -
      have "ends (attempt (sfc7120_mcdi_alloc_vis env 1 32 s)
         (\<lambda>error sc. fail_attach env error (sfc7120_mcdi_log_mc_state env sc)) k1) (init_post sc)"
        if "up s" "length (mac_addr s) = 6" for s
        using that unfolding up_def
        by (intro ends_init(3) [OF alloc_vis_any] k1) (auto simp: up_def flags_eq_iff)
      with that show ?thesis
        unfolding k2_def up_def
        by (intro ends_bind [OF dump_func_info_any]) (auto simp: up_def mc_same_def flags_eq_iff)
    qed
    have "sfc7120_hw_init env sc = attempt (sfc7120_mcdi_get_version env sc1) fail_mcdi (\<lambda>sc.
       attempt (sfc7120_mcdi_drv_attach env sc) fail_mcdi (\<lambda>sc.
       attempt (sfc7120_mcdi_clear_assertions env sc) fail_mcdi (\<lambda>sc.
       attempt (sfc7120_mcdi_entity_reset env sc) (fail_attach env) (\<lambda>sc.
       attempt (sfc7120_mcdi_get_mac env sc) (fail_attach env) k2))))"
      unfolding sfc7120_hw_init_def init(1) attempt_def [of "Some _"] k1_def k2_def by (simp add: True)
    also have "ends \<dots> (init_post sc)"
      using op
      by (intro ends_init(1) [OF get_version_any] ends_init(1) [OF drv_attach_any]
          ends_init(1) [OF clear_assertions_any] ends_init(2) [OF entity_reset_any]
          ends_init(2) [OF get_mac_any] k2)
        (auto simp: mc_same_def flags_eq_iff up_def)
    finally show ?thesis .
  qed
qed

section \<open>Attach\<close>

text \<open>
  A failed attach: mailbox, rings, packet buffers and interrupt resources are freed, and releasing the
  BAR, if it was allocated, was the last thing done (the pointer to it is not reset). The
  statistics buffer is not mentioned: \<open>sfc7120_free_dma_resources\<close> does not free it.
\<close>

definition released :: "errno \<Rightarrow> softc \<Rightarrow> bool" where
  "released e sc \<longleftrightarrow> e \<noteq> OK \<and> mcdi_res_clear sc \<and> \<not> mcdi_initialized sc \<and> dma_clear sc \<and>
     intr_clear sc \<and> \<not> device_attached sc \<and> \<not> cdev sc \<and>
     (mem_resource sc \<noteq> None \<longrightarrow> last (trace sc) = BusRelease 2)"

definition attached :: "capio_softc_t \<Rightarrow> softc \<Rightarrow> bool" where
  "attached c sc \<longleftrightarrow> device_attached sc \<and> cdev sc \<and> mcdi_initialized sc \<and> mcdi_res_ok sc \<and> rings_held sc \<and>
     irq_handle sc \<and> intr_ok sc \<and>
     flags_of sc = \<lparr>hf_drv = True, hf_vis = True, hf_evq = True, hf_data_evq = True, hf_vadaptor = True,
       hf_rxq = True, hf_txq = True, hf_filter = True\<rparr> \<and> capio sc = c"

definition attach_post :: "'e drv_env_scheme \<Rightarrow> capio_softc_t \<Rightarrow> errno \<Rightarrow> softc \<Rightarrow> bool" where
  "attach_post env c e sc \<longleftrightarrow>
     (if e = OK then \<exists>bar_start bar_size. mem_resource sc = Some (bar_start, bar_size) \<and>
        attached (init_capio_sc (e_root_sealcap env)
          (sfc7120_smem (tunable env ''hw.sfc7120pol.ablation'' 0) bar_start bar_size sc) c) sc
      else released e sc)"

text \<open>Steps 3 and later of attach start with everything but the queues.\<close>

definition powered :: "nat \<times> nat \<Rightarrow> capio_softc_t \<Rightarrow> softc \<Rightarrow> bool" where
  "powered b c sc \<longleftrightarrow> mcdi_initialized sc \<and> mcdi_res_ok sc \<and> rings_held sc \<and> irq_handle sc \<and> intr_ok sc \<and>
     mem_resource sc = Some b \<and> capio sc = c \<and> \<not> device_attached sc \<and> \<not> cdev sc"

lemma powered_ran:
  assumes "powered b c sc" "mc_ran rq sc s"
  shows "powered b c s"
proof -
  have "hw_sc.more s = hw_sc.more sc" using assms(2) by (simp add: mc_ran_def)
  then have "irq_handle s = irq_handle sc" by (cases sc; cases s) simp
  then show ?thesis
    using assms mc_ran_res_ok [OF assms(2)] more_eqD [OF \<open>hw_sc.more s = hw_sc.more sc\<close>]
    by (simp add: powered_def mc_ran_def)
qed

lemma fail_dma_post:
  assumes "mcdi_res_ok sc" "intr_ok sc" "\<not> device_attached sc" "\<not> cdev sc" "e \<noteq> OK"
  shows "ends (fail_dma env e sc) released"
proof -
  obtain s where "sfc7120_hw_teardown env (sfc7120_intr_teardown sc) = Some s"
    "dma_clear (sfc7120_free_dma_resources s)" "intr_clear (sfc7120_free_dma_resources s)"
    "mcdi_res_clear (sfc7120_free_dma_resources s)" "\<not> mcdi_initialized (sfc7120_free_dma_resources s)"
    "device_attached (sfc7120_free_dma_resources s) = device_attached sc"
    "cdev (sfc7120_free_dma_resources s) = cdev sc"
    by (rule release_spec [OF assms(1,2)])
  then show ?thesis
    using assms(3-5)
    by (simp add: fail_dma_def fail_bar_def ends_def released_def io_def mcdi_res_clear_def dma_clear_def
        intr_clear_def)
qed

lemma ends_mono: "\<lbrakk>ends r P; \<And>e s. P e s \<Longrightarrow> Q e s\<rbrakk> \<Longrightarrow> ends r Q"
  by (auto simp: ends_def)

lemma released_post: "released e sc \<Longrightarrow> attach_post env c e sc"
  by (auto simp: released_def attach_post_def)

lemma ends_powered:
  assumes "mc_any r sc Q" "powered b c sc"
    and "\<And>s. \<lbrakk>powered b c s; Q OK s\<rbrakk> \<Longrightarrow> ends (k s) (attach_post env c)"
  shows "ends (attempt r (fail_dma env') k) (attach_post env c)"
proof (rule ends_attempt [OF assms(1)])
  fix e s rq assume "mc_ran rq sc s" "e \<noteq> OK"
  then have "ends (fail_dma env' e s) released"
    using powered_ran [OF assms(2)] by (intro fail_dma_post) (auto simp: powered_def)
  then show "ends (fail_dma env' e s) (attach_post env c)" by (rule ends_mono) (rule released_post)
qed (use assms(2,3) powered_ran in blast)

lemma attach_cdev_post:
  assumes "powered (bar_start, bar_size) c sc"
    and "flags_of sc = \<lparr>hf_drv = True, hf_vis = True, hf_evq = True, hf_data_evq = True,
       hf_vadaptor = True, hf_rxq = True, hf_txq = True, hf_filter = True\<rparr>"
  shows "ends (attach_cdev env bar_start bar_size sc) (attach_post env c)"
proof (cases "e_make_dev env (trace sc)")
  case True
  show ?thesis
    using True assms
    by (simp add: attach_cdev_def ends_def attach_post_def attached_def powered_def SFC7120_READ_REG_def
        sfc7120_smem_def io_def mcdi_res_ok_def mcdi_res_held_def rings_held_def intr_ok_def flags_of_def)
      (auto simp: mcdi_res_held_def)
next
  case False
  let ?s = "(io [DevMake] sc)\<lparr>cdev := False\<rparr>"
  have "mcdi_res_ok ?s = mcdi_res_ok sc" "intr_ok ?s = intr_ok sc" "device_attached ?s = device_attached sc" "\<not> cdev ?s"
    by (simp_all add: io_def mcdi_res_ok_def mcdi_res_held_def mcdi_res_clear_def intr_ok_def)
  then have "ends (fail_dma env ENOMEM ?s) released"
    using assms(1) by (intro fail_dma_post) (simp_all add: powered_def)
  then show ?thesis
    using False by (auto simp: attach_cdev_def intro: ends_mono released_post)
qed

lemma powered_upd [simp]:
  "powered b c (sc\<lparr>evq_initialized := v\<rparr>) = powered b c sc"
  "powered b c (sc\<lparr>data_evq_initialized := v\<rparr>) = powered b c sc"
  "powered b c (sfc7120_post_rx_buffers sc) = powered b c sc"
  "flags_of (sfc7120_post_rx_buffers sc) = flags_of sc" "mac_addr (sfc7120_post_rx_buffers sc) = mac_addr sc"
  by (simp_all add: powered_def mcdi_res_ok_def mcdi_res_held_def mcdi_res_clear_def rings_held_def
      intr_ok_def sfc7120_post_rx_buffers_def SFC7120_WRITE_REG_def io_def flags_of_def Let_def)

lemma attach_queues_post:
  assumes "powered (bar_start, bar_size) c sc" "drv_attached sc" "vis_allocated sc" "vadaptor_allocated sc"
    "length (mac_addr sc) = 6"
  shows "ends (attach_queues env bar_start bar_size sc) (attach_post env c)"
  using assms unfolding attach_queues_def Let_def
  by (intro ends_powered [OF mc_anyI [OF init_evq_ok]] ends_powered [OF mc_anyI [OF init_rxq_ok]]
      ends_powered [OF mc_anyI [OF init_txq_ok]] ends_powered [OF filter_insert_any] attach_cdev_post)
    (auto simp: flags_eq_iff)

lemma ends_total:
  assumes "\<And>e s. r = Some (e, s) \<Longrightarrow> Q e s" "r \<noteq> None"
    and "\<And>e s. \<lbrakk>Q e s; e \<noteq> OK\<rbrakk> \<Longrightarrow> ends (fail e s) P" "\<And>s. Q OK s \<Longrightarrow> ends (k s) P"
  shows "ends (attempt r fail k) P"
  using assms by (cases r) (auto simp: attempt_def)

lemma fail_bar_post:
  assumes "e \<noteq> OK" "mcdi_res_clear sc" "\<not> mcdi_initialized sc" "dma_clear sc" "intr_clear sc"
    "\<not> device_attached sc" "\<not> cdev sc"
  shows "ends (fail_bar e sc) (attach_post env c)"
  using assms
  by (simp add: ends_def fail_bar_def attach_post_def released_def io_def mcdi_res_clear_def
      dma_clear_def intr_clear_def)

lemma fail_hw_post:
  assumes "e \<noteq> OK" "mcdi_res_ok sc" "dma_clear sc" "intr_clear sc" "\<not> device_attached sc" "\<not> cdev sc"
  shows "ends (fail_hw env' e sc) (attach_post env c)"
proof -
  obtain s where s: "sfc7120_hw_teardown env' sc = Some s" "hw_sc.more s = hw_sc.more sc"
    "\<not> mcdi_initialized s" "mcdi_res_ok sc \<longrightarrow> mcdi_res_clear s"
    by (rule hw_teardown_spec)
  have "ends (fail_bar e s) (attach_post env c)"
    using s assms more_eqD [OF s(2)] by (intro fail_bar_post) simp_all
  then show ?thesis by (simp add: fail_hw_def s(1))
qed

lemma attach_powered:
  assumes doc: "bus_dma_documented env" and hw: "init_post s0 OK s"
    and s0: "dma_clear s0" "intr_clear s0" "\<not> device_attached s0" "mem_resource s0 = Some (bar_start, bar_size)" "\<not> cdev s0"
  shows "ends (attempt (Some (sfc7120_alloc_dma_resources env s)) (fail_hw env) (\<lambda>sc.
    attempt (Some (sfc7120_intr_setup env sc)) (fail_dma env) (attach_queues env bar_start bar_size)))
    (attach_post env (capio s0))"
proof -
  have "hw_sc.more s = hw_sc.more s0" using hw by (simp add: init_post_def)
  note m = more_eqD [OF this]
  have s: "mcdi_res_ok s" "mcdi_initialized s" "ready s" using hw by (simp_all add: init_post_def ready_def)
  obtain e1 s1 where 1: "sfc7120_alloc_dma_resources env s = (e1, s1)" "dma_frame s1 = dma_frame s"
    "if e1 = OK then rings_held s1 else dma_clear s1"
    using alloc_dma_resources_spec [OF doc] m s0 by metis
  note f1 = dma_frame_eqD [OF 1(2)]
  obtain e2 s2 where 2: "sfc7120_intr_setup env s1 = (e2, s2)" by fastforce
  have i2: "intr_frame s2 = intr_frame s1"
    "if e2 = OK then irq_handle s2 \<and> intr_ok s2 \<and> msix_bar s2 \<and> msix_nvec s2 = 1 else intr_clear s2"
    using intr_setup_spec [of s1 env] 2 f1 m s0 by auto
  note f2 = intr_frame_eqD [OF i2(1)]
  show ?thesis
  proof (cases "e1 = OK")
    case False
    then show ?thesis
      using 1 s f1 m s0 by (simp add: attempt_def fail_hw_post)
  next
    case e1: True
    have "ready s2 = ready (intr_frame s2)" "ready (intr_frame s1) = ready s1" "ready s1 = ready (dma_frame s1)"
      "ready (dma_frame s) = ready s" by (simp_all add: ready_def intr_frame_def dma_frame_def)
    then have "ready s2" using s(3) i2(1) 1(2) by simp
    moreover have "ends (fail_dma env e2 s2) (attach_post env (capio s0))" if "e2 \<noteq> OK"
      using that i2(2) f2 f1 s m s0
      by (intro ends_mono [OF fail_dma_post released_post]) (simp_all add: intr_ok_def intr_clear_def)
    moreover have "powered (bar_start, bar_size) (capio s0) s2" if "e2 = OK"
      using that i2(2) f2 f1 s m s0 1(3) e1 by (simp add: powered_def)
    ultimately show ?thesis
      using attach_queues_post [of bar_start bar_size "capio s0" s2 env] 1(1) 2 e1
      by (auto simp: attempt_def ready_def)
  qed
qed

lemma attach_total:
  assumes doc: "bus_dma_documented env"
    and fresh: "\<not> mcdi_initialized sc" "mcdi_res_clear sc" "dma_clear sc" "intr_clear sc" "\<not> cdev sc"
  shows "ends (sfc7120_fbsd_attach env sc) (attach_post env (capio sc))"
proof -
  define s0 where "s0 = (io [BusAlloc 2] (sc\<lparr>dying := False, device_attached := False\<rparr>))
    \<lparr>mem_resource := e_bar2 env (trace sc)\<rparr>"
  have s0: "\<not> mcdi_initialized s0" "mcdi_res_clear s0" "dma_clear s0" "intr_clear s0" "\<not> device_attached s0"
    "capio s0 = capio sc" "mem_resource s0 = e_bar2 env (trace sc)" "\<not> cdev s0"
    using fresh by (simp_all add: s0_def io_def mcdi_res_clear_def dma_clear_def intr_clear_def)
  show ?thesis
  proof (cases "e_bar2 env (trace sc)")
    case None
    then have "sfc7120_fbsd_attach env sc = Some (ENXIO, s0)"
      by (simp add: sfc7120_fbsd_attach_def s0_def)
    with s0 None show ?thesis by (simp add: ends_def attach_post_def released_def)
  next
    case (Some b)
    obtain bar_start bar_size where b: "b = (bar_start, bar_size)" by (cases b)
    obtain e s where s: "sfc7120_hw_init env s0 = Some (e, s)" "init_post s0 e s"
      using hw_init_post [OF doc s0(1,2)] by (auto simp: ends_def)
    have "sfc7120_fbsd_attach env sc = attempt (Some (e, s)) fail_bar (\<lambda>sc.
          attempt (Some (sfc7120_alloc_dma_resources env sc)) (fail_hw env) (\<lambda>sc.
          attempt (Some (sfc7120_intr_setup env sc)) (fail_dma env)
            (attach_queues env bar_start bar_size)))"
      using Some b s(1) by (simp add: sfc7120_fbsd_attach_def s0_def)
    moreover have "ends (fail_bar e s) (attach_post env (capio sc))" if "e \<noteq> OK"
      using s(2) that s0 more_eqD [of s s0]
      by (intro fail_bar_post) (simp_all add: init_post_def mcdi_res_ok_def)
    ultimately show ?thesis
      using attach_powered [OF doc, of s0 s] s(2) s0 Some b by (auto simp: attempt_def)
  qed
qed

text \<open>
  C10: Attach comes up or cleans up. For a freshly probed device, whatever the firmware, bus_dma and
  newbus answer, \<open>sfc7120_fbsd_attach\<close> terminates without a fault. On success the channel is open,
  all rings are allocated, the interrupt handler is installed, driver, VIs, vAdaptor, both event
  queues, both packet queues and the filter are up, and CAPIO has been initialised with the region
  table over the allocated buffers. On any failure it returns an error with the mailbox, the six rings and
  packet buffers and the interrupt resources freed, no device node, and BAR2 released if it was allocated. Two
  things are not part of the clean-up and not claimed: the MAC statistics buffer, which is
  never freed, and the driver-attach state in the firmware.
\<close>

theorem attach_up_or_released:
  assumes "bus_dma_documented env"
    and "\<not> mcdi_initialized sc" "mcdi_res_clear sc" "dma_clear sc" "intr_clear sc" "\<not> cdev sc"
  shows "\<exists>e sc'. sfc7120_fbsd_attach env sc = Some (e, sc') \<and>
    (if e = OK then \<exists>bar_start bar_size. mem_resource sc' = Some (bar_start, bar_size) \<and>
       attached (init_capio_sc (e_root_sealcap env)
         (sfc7120_smem (tunable env ''hw.sfc7120pol.ablation'' 0) bar_start bar_size sc') (capio sc)) sc'
     else released e sc')"
  using attach_total [OF assms] by (auto simp: ends_def attach_post_def split: if_splits)

theorem attach_up_or_released_witness:
  "\<exists>e sc'. sfc7120_fbsd_attach two_vectors zero_softc = Some (e, sc') \<and>
     (if e = OK then irq_handle sc' else dma_clear sc')"
proof -
  have "bus_dma_documented two_vectors"
    by (simp add: bus_dma_documented_def two_vectors_def drv_env.defs env.defs live_mc_def echo_mc_def
        silent_mc_def)
  moreover have "\<not> mcdi_initialized zero_softc" "mcdi_res_clear zero_softc" "dma_clear zero_softc"
    "intr_clear zero_softc" "\<not> cdev zero_softc"
    by (simp_all add: zero_softc_def mcdi_res_clear_def dma_clear_def intr_clear_def)
  ultimately obtain e sc' where "sfc7120_fbsd_attach two_vectors zero_softc = Some (e, sc')"
    "if e = OK then \<exists>bar_start bar_size. mem_resource sc' = Some (bar_start, bar_size) \<and>
       attached (init_capio_sc (e_root_sealcap two_vectors)
         (sfc7120_smem (tunable two_vectors ''hw.sfc7120pol.ablation'' 0) bar_start bar_size sc')
         (capio zero_softc)) sc'
     else released e sc'"
    using attach_up_or_released [of two_vectors zero_softc] by blast
  then show ?thesis by (cases "e = OK") (auto simp: attached_def released_def)
qed

section \<open>The published region table\<close>

lemma attach_cdev_capio:
  assumes "attach_cdev env bar_start bar_size sc = Some (OK, sc')" "mcdi_res_ok sc" "intr_ok sc"
    "\<not> device_attached sc"
  shows "capio sc' = init_capio_sc (e_root_sealcap env)
      (sfc7120_smem (tunable env ''hw.sfc7120pol.ablation'' 0) bar_start bar_size sc) (capio sc)"
    "mem_resource sc' = mem_resource sc"
proof -
  have dev: "e_make_dev env (trace sc)"
  proof (rule ccontr)
    assume "\<not> e_make_dev env (trace sc)"
    let ?s = "(io [DevMake] sc)\<lparr>cdev := False\<rparr>"
    have "mcdi_res_ok ?s = mcdi_res_ok sc" "intr_ok ?s = intr_ok sc" "device_attached ?s = device_attached sc" "\<not> cdev ?s"
      by (simp_all add: io_def mcdi_res_ok_def mcdi_res_held_def mcdi_res_clear_def intr_ok_def)
    then have "ends (fail_dma env ENOMEM ?s) released" using assms(2-4) by (intro fail_dma_post) simp_all
    with assms(1) \<open>\<not> e_make_dev env (trace sc)\<close> show False
      by (auto simp: attach_cdev_def ends_def released_def)
  qed
  show "capio sc' = init_capio_sc (e_root_sealcap env)
      (sfc7120_smem (tunable env ''hw.sfc7120pol.ablation'' 0) bar_start bar_size sc) (capio sc)"
    "mem_resource sc' = mem_resource sc"
    using assms(1) dev
    by (auto simp: attach_cdev_def SFC7120_READ_REG_def io_def Let_def sfc7120_smem_def)
qed

lemma smem_types: "map smr_type (sfc7120_smem a s z sc) = [0, 1, 2, 3, 4, 5, 6]"
  by (simp add: sfc7120_smem_def smem_entry_def)

text \<open>
  C12: The registers are reachable only through slices. When attach publishes the region table and the
  \<^verbatim>\<open>hw.sfc7120pol.ablation\<close> tunable is off, then in every state the CAPIO layer can reach from
  there, on any interleaving and with overlapping mmap calls, no VM object exists for the unsliced view of BAR2, and the one other physical region, the
  MMIO region, is sliced by the register manifest \<open>sfc7120_reg_slices\<close>.
\<close>

theorem bar_only_through_slices:
  assumes "attach_cdev env bar_start bar_size sc = Some (OK, sc')" "mcdi_res_ok sc" "intr_ok sc"
    "\<not> device_attached sc" "capio sc = capio_softc_zero"
    and "tunable env ''hw.sfc7120pol.ablation'' 0 = 0"
    and "w_sc w = capio sc'" "w_table w = shared_mem_regs (capio sc')" "w_objs w = []" "w_pending w = []"
    and "(capio_step drv)\<^sup>*\<^sup>* w w'"
  shows "SFC7120_MMIO_REGION_UNSLICED \<notin> set (live_types w') \<and>
    (\<forall>r \<in> set (w_table w'). smr_is_physical r \<and> smr_type r \<noteq> SFC7120_MMIO_REGION_UNSLICED \<longrightarrow>
       smr_type r = SFC7120_MMIO_REGION \<and> smr_is_sliced r \<and>
       smr_slice_definitions r = Some sfc7120_reg_slices)"
proof -
  let ?tab = "sfc7120_smem 0 bar_start bar_size sc"
  have tab: "w_table w = ?tab" and cap: "capio sc' = init_capio_sc (e_root_sealcap env) ?tab capio_softc_zero"
    using attach_cdev_capio(1) [OF assms(1-4)] assms(5,6,8) by (simp_all add: init_capio_sc_def)
  have "capio_init w"
    using assms(7-10) tab cap smem_types [of 0 bar_start bar_size sc]
    by (simp add: capio_init_def init_capio_sc_def capio_softc_zero_def)
  then have inv: "capio_inv w'" using assms(11) capio_machine.reachable_inv by blast
  have tab': "w_table w' = ?tab" using capio_step_table [OF assms(11)] tab by simp
  then have "\<exists>r \<in> set (w_table w'). smr_type r = 6 \<and> smr_mapped r"
    by (simp add: sfc7120_smem_def smem_entry_def)
  then have "6 \<in> premarked w'" by (force simp: premarked_def)
  then have "6 \<notin> set (live_types w')" using inv by (auto simp: capio_inv_def)
  then show ?thesis
    unfolding tab' by (auto simp: sfc7120_smem_def smem_entry_def)
qed

definition example_booting :: softc where
  "example_booting = example_softc\<lparr>device_attached := False\<rparr>"

definition example_published :: "nat capio_world" where
  "example_published = \<lparr>w_sc = capio (snd (the (attach_cdev two_vectors 0x90000000 0x800000 example_booting))),
     w_drv = 0, w_objs = [], w_pending = [], w_table = sfc7120_smem 0 0x90000000 0x800000 example_booting\<rparr>"

lemma example_booting_facts:
  "mcdi_res_ok example_booting" "intr_ok example_booting" "\<not> device_attached example_booting"
  "capio example_booting = capio_softc_zero" "mem_resource example_booting = Some (0x90000000, 0x800000)"
  by (simp_all add: example_booting_def example_softc_def zero_softc_def mcdi_res_ok_def
      mcdi_res_held_def intr_ok_def)

lemma example_attach_cdev:
  obtains sc' where "attach_cdev two_vectors 0x90000000 0x800000 example_booting = Some (OK, sc')"
proof -
  have "e_make_dev two_vectors tr" for tr by (simp add: two_vectors_def drv_env.defs env.defs)
  then show thesis using that by (simp add: attach_cdev_def SFC7120_READ_REG_def Let_def)
qed

lemma two_vectors_ablation: "tunable two_vectors ''hw.sfc7120pol.ablation'' 0 = 0"
  by (simp add: tunable_def two_vectors_def drv_env.defs env.defs live_mc_def echo_mc_def silent_mc_def)

theorem bar_only_through_slices_witness:
  "SFC7120_MMIO_REGION_UNSLICED \<notin> set (live_types example_published) \<and>
   (\<exists>r \<in> set (w_table example_published). smr_type r = SFC7120_MMIO_REGION \<and> smr_is_sliced r)"
proof -
  obtain sc' where at: "attach_cdev two_vectors 0x90000000 0x800000 example_booting = Some (OK, sc')"
    by (rule example_attach_cdev)
  have w: "w_sc example_published = capio sc'" "w_table example_published = shared_mem_regs (capio sc')"
    using attach_cdev_capio(1) [OF at example_booting_facts(1-3)]
    by (simp_all add: example_published_def at init_capio_sc_def two_vectors_ablation)
  have "SFC7120_MMIO_REGION_UNSLICED \<notin> set (live_types example_published)"
    using bar_only_through_slices [OF at example_booting_facts(1-4) two_vectors_ablation w, of example_drv]
    by (simp add: example_published_def)
  then show ?thesis by (simp add: example_published_def sfc7120_smem_def smem_entry_def)
qed

text \<open>
  The sizes agree. For every region that attach publishes, the length that
  \<open>sfc7120_get_buffer_size\<close> reports, which the CAPIO mmap handler demands of its caller, is the length
  in the region table, which the CAPIO slice and address callbacks use.
\<close>

theorem buffer_size_matches_table:
  assumes "attach_cdev env bar_start bar_size sc = Some (OK, sc')" "mcdi_res_ok sc" "intr_ok sc"
    "\<not> device_attached sc" "mem_resource sc = Some (bar_start, bar_size)"
    and "find_region t (shared_mem_regs (capio sc')) = Some r"
  shows "sfc7120_get_buffer_size sc' t = smr_len r"
  using assms(6) attach_cdev_capio [OF assms(1-4)] assms(5)
  by (auto simp: sfc7120_get_buffer_size_def init_capio_sc_def sfc7120_smem_def smem_entry_def
      split: if_splits)

theorem buffer_size_matches_table_witness:
  "\<exists>sc'. attach_cdev two_vectors 0x90000000 0x800000 example_booting = Some (OK, sc') \<and>
     sfc7120_get_buffer_size sc' SFC7120_TX_BUFFER = 1048576"
proof -
  obtain sc' where at: "attach_cdev two_vectors 0x90000000 0x800000 example_booting = Some (OK, sc')"
    by (rule example_attach_cdev)
  have "\<exists>r. find_region SFC7120_TX_BUFFER (shared_mem_regs (capio sc')) = Some r \<and> smr_len r = 1048576"
    using attach_cdev_capio(1) [OF at example_booting_facts(1-3)]
    by (simp add: init_capio_sc_def sfc7120_smem_def smem_entry_def)
  then show ?thesis
    using buffer_size_matches_table [OF at example_booting_facts(1-3,5)] at by metis
qed

section \<open>The initial RX ring\<close>

lemma post_rx_loop_nth:
  "post_rx_loop base n ring i =
     (if i < n then ef10_desc 2048 (base + of_nat (i * SFC7120_RX_BUFFER_SIZE)) else ring i)"
  by (induction n) auto

text \<open>
  The initial RX ring. After \<open>sfc7120_post_rx_buffers\<close> each of the 512 RX descriptors decodes to
  a 2048-byte buffer at its own slot of the RX packet buffer, provided the buffer lies in the 48-bit
  bus address range, so the slots the NIC writes are pairwise disjoint and inside the buffer; exactly
  one doorbell write with value 511 hands them to the NIC and the driver's \<open>rx_head\<close> is 0.
\<close>

theorem post_rx_buffers_ring:
  assumes "unat (db_pa (rx_buf_dma sc)) + 512 * 2048 \<le> 2 ^ 48" "i < 512"
  shows "let sc' = sfc7120_post_rx_buffers sc; base = unat (db_pa (rx_buf_dma sc)) in
    desc_byte_cnt (rx_desc_ring sc' i) = 2048 \<and>
    unat (desc_buf_addr (rx_desc_ring sc' i)) = base + i * 2048 \<and>
    base \<le> base + i * 2048 \<and> base + i * 2048 + 2048 \<le> base + 512 * 2048 \<and>
    trace sc' = trace sc @ [RegWr SFC7120_REG_DATA_RX_DESC_DBL 511] \<and> rx_head sc' = 0"
  using slot_desc_addr [OF assms, of 2048] assms(2)
  by (simp add: sfc7120_post_rx_buffers_def post_rx_loop_nth SFC7120_WRITE_REG_def io_def Let_def
      desc_byte_cnt_ef10_desc)

theorem post_rx_buffers_ring_witness:
  "unat (desc_buf_addr (rx_desc_ring (sfc7120_post_rx_buffers example_softc) 511)) = 0x80001000 + 511 * 2048"
proof -
  have "db_pa (rx_buf_dma example_softc) = 0x80001000"
    by (simp add: example_softc_def held_dma_def)
  then show ?thesis using post_rx_buffers_ring [of example_softc 511] by (simp add: Let_def)
qed

end
