(* ===== verification/Session.thy ===== *)
theory Session
  imports UserLib Lifecycle
begin

text \<open>
  User sessions from \<open>sfc7120_init\<close> to \<open>sfc7120_destroy\<close>. What they rely on in the modmap
  driver is the locale \<open>modmap_service\<close>: it reports the sizes CAPIO reports, a map request with
  a valid token for a free region succeeds and marks it, an unmapping frees it. The interpretation
  passes the requests on to the CAPIO callbacks of the model. The theorems show that sessions can
  follow each other for ever, each one starting where the NIC is.
\<close>

section \<open>The region table during a session\<close>

text \<open>A region without the user address, which only modmap and the revocation use.\<close>

definition shape :: "shared_mem_region_t \<Rightarrow> shared_mem_region_t" where
  "shape r = r\<lparr>smr_offset := 0\<rparr>"

definition token_of :: "capio_softc_t \<Rightarrow> capability \<times> capability \<times> capability" where
  "token_of c = (sealing_key c, original_cap c, sealed_cap c)"

text \<open>The mark of region \<open>t\<close> becomes \<open>b\<close>; nothing else of the table, nor the token, changes.\<close>

definition marks :: "int \<Rightarrow> bool \<Rightarrow> capio_softc_t \<Rightarrow> capio_softc_t \<Rightarrow> bool" where
  "marks t b c c' \<longleftrightarrow> token_of c' = token_of c \<and>
     map shape (shared_mem_regs c') = map shape (map (set_mapped t b) (shared_mem_regs c))"

abbreviation session_types :: "int set" where
  "session_types \<equiv> {SFC7120_TX_BUFFER, SFC7120_RX_BUFFER, SFC7120_MMIO_REGION, SFC7120_TX_DESC_RING,
     SFC7120_RX_DESC_RING, SFC7120_EVQ_RING}"

text \<open>An entry of the table as attach publishes it, mapped or not.\<close>

definition entry_ok :: "bool \<Rightarrow> softc \<Rightarrow> int \<Rightarrow> shared_mem_region_t \<Rightarrow> bool" where
  "entry_ok m sc t r \<longleftrightarrow> smr_mapped r = m \<and> smr_len r = sfc7120_get_buffer_size sc t \<and> smr_len r \<noteq> 0 \<and>
     (if t = SFC7120_MMIO_REGION
      then smr_slice_definitions r = Some sfc7120_reg_slices \<and> smr_slice_def_len r = SFC7120_SLICE_COUNT
      else smr_slice_def_len r = 0)"

definition table_ok :: "int set \<Rightarrow> softc \<Rightarrow> bool" where
  "table_ok M sc \<longleftrightarrow> (\<forall>t \<in> session_types. \<exists>r. find_region t (shared_mem_regs (capio sc)) = Some r \<and>
     entry_ok (t \<in> M) sc t r)"

lemma shape_simps [simp]:
  "smr_type (shape r) = smr_type r" "smr_mapped (shape r) = smr_mapped r" "smr_len (shape r) = smr_len r"
  "smr_slice_definitions (shape r) = smr_slice_definitions r" "smr_slice_def_len (shape r) = smr_slice_def_len r"
  "shape (r\<lparr>smr_offset := x\<rparr>) = shape r" "entry_ok m sc t (shape r) = entry_ok m sc t r"
  by (simp_all add: shape_def entry_ok_def)

lemma find_region_shape:
  "(\<exists>r. find_region t (map shape regs) = Some r \<and> entry_ok m sc t r) \<longleftrightarrow>
   (\<exists>r. find_region t regs = Some r \<and> entry_ok m sc t r)"
  by (auto simp: find_region_map)

lemma table_ok_shape:
  "table_ok M sc \<longleftrightarrow> (\<forall>t \<in> session_types. \<exists>r. find_region t (map shape (shared_mem_regs (capio sc))) = Some r \<and>
     entry_ok (t \<in> M) sc t r)"
  unfolding table_ok_def find_region_shape ..

lemma buffer_size_capio: "t \<in> session_types \<Longrightarrow> sfc7120_get_buffer_size (sc\<lparr>capio := c\<rparr>) t = sfc7120_get_buffer_size sc t"
  by (auto simp: sfc7120_get_buffer_size_def)

lemma table_okD:
  "table_ok M sc \<Longrightarrow> t \<in> session_types \<Longrightarrow>
   \<exists>r. find_region t (shared_mem_regs (capio sc)) = Some r \<and> entry_ok (t \<in> M) sc t r"
  unfolding table_ok_def by (rule bspec)

lemma table_ok_marks:
  assumes "table_ok M sc" "marks t b (capio sc) c"
  shows "table_ok (if b then insert t M else M - {t}) (sc\<lparr>capio := c\<rparr>)"
  unfolding table_ok_shape
proof
  fix x assume x: "x \<in> session_types"
  obtain r where r: "find_region x (shared_mem_regs (capio sc)) = Some r" "entry_ok (x \<in> M) sc x r"
    using table_okD [OF assms(1) x] by blast
  have "find_region x (map shape (shared_mem_regs c)) = Some (shape (set_mapped t b r))"
    using assms(2) r(1) by (simp add: marks_def find_region_map set_mapped_def)
  moreover have "entry_ok (x \<in> (if b then insert t M else M - {t})) (sc\<lparr>capio := c\<rparr>) x (set_mapped t b r)"
    using r(2) find_region_Some [OF r(1)] unfolding entry_ok_def buffer_size_capio [OF x]
    by (auto simp: set_mapped_def)
  ultimately show "\<exists>r. find_region x (map shape (shared_mem_regs (capio (sc\<lparr>capio := c\<rparr>)))) = Some r \<and>
      entry_ok (x \<in> (if b then insert t M else M - {t})) (sc\<lparr>capio := c\<rparr>) x r"
    by simp
qed

lemma table_ok_same:
  assumes "table_ok M sc" "map shape (shared_mem_regs c) = map shape (shared_mem_regs (capio sc))"
  shows "table_ok M (sc\<lparr>capio := c\<rparr>)"
  unfolding table_ok_shape
proof
  fix t assume t: "t \<in> session_types"
  have "entry_ok m (sc\<lparr>capio := c\<rparr>) t r = entry_ok m sc t r" for m r
    unfolding entry_ok_def buffer_size_capio [OF t] ..
  moreover obtain r where "find_region t (shared_mem_regs (capio sc)) = Some r" "entry_ok (t \<in> M) sc t r"
    using table_okD [OF assms(1) t] by blast
  ultimately show "\<exists>r. find_region t (map shape (shared_mem_regs (capio (sc\<lparr>capio := c\<rparr>)))) = Some r \<and>
      entry_ok (t \<in> M) (sc\<lparr>capio := c\<rparr>) t r"
    using assms(2) find_region_map [of shape t "shared_mem_regs (capio sc)"] by simp
qed

lemma revoke_loop_shape: "revoke_loop vm i e regs = (e', regs') \<Longrightarrow> map shape regs' = map shape regs"
  by (induction regs arbitrary: i e e' regs') (auto simp: Let_def split: if_splits prod.splits)

lemma check_cap_token_of: "token_of c' = token_of c \<Longrightarrow> check_cap_token c' = check_cap_token c"
  by (rule ext) (simp add: token_of_def check_cap_token_def)

section \<open>The modmap driver\<close>

locale modmap_service =
  fixes env :: user_env
  assumes sizes: "ue_get_slices env t c = Some (capio_slice_length_callback t c)"
    and map_free: "\<lbrakk>check_cap_token (capio sc) (cr_sealed_cap req) = OK; c_tag (cr_user_cap req); \<not> dying sc;
        find_region (mr_map_type req) (shared_mem_regs (capio sc)) = Some r; \<not> smr_mapped r;
        len = smr_len r; len = sfc7120_get_buffer_size sc (mr_map_type req)\<rbrakk> \<Longrightarrow>
      \<exists>c. ue_map env req len sc = (Some (case smr_slice_definitions r of Some sl \<Rightarrow> sl | None \<Rightarrow> []), c) \<and>
        marks (mr_map_type req) True (capio sc) c"
    and unmap: "marks t False c (snd (ue_munmap env t n c))"
begin

lemma map_region_ok:
  assumes "table_ok M sc" "t \<in> session_types" "t \<notin> M" "\<not> dying sc"
    and "check_cap_token (capio sc) (cr_sealed_cap (u_cap_req u)) = OK" "c_tag (cr_user_cap (u_cap_req u))"
    and "ue_calloc env"
  shows "\<exists>c. map_region env t (t = SFC7120_MMIO_REGION) (u, sc) =
      (True, (if t = SFC7120_MMIO_REGION
              then u\<lparr>u_mmio_slices := Some sfc7120_reg_slices, u_mmio_slices_len := SFC7120_SLICE_COUNT\<rparr> else u)
             \<lparr>u_region_maps := (u_region_maps u)(t \<mapsto> sfc7120_get_buffer_size sc t)\<rparr>, sc\<lparr>capio := c\<rparr>) \<and>
    table_ok (insert t M) (sc\<lparr>capio := c\<rparr>) \<and> token_of c = token_of (capio sc)"
proof -
  obtain r where r: "find_region t (shared_mem_regs (capio sc)) = Some r" "entry_ok False sc t r"
    using table_okD [OF assms(1,2)] assms(3) by auto
  let ?sz = "capio_slice_length_callback t (capio sc)"
  have sz: "region_length ?sz = sfc7120_get_buffer_size sc t" "region_length ?sz \<noteq> 0"
    "slice_def_length ?sz = (if t = SFC7120_MMIO_REGION then SFC7120_SLICE_COUNT else 0)"
    using r by (simp_all add: capio_slice_length_callback_def entry_ok_def)
  let ?req = "\<lparr>cr_user_cap = cr_user_cap (u_cap_req u), cr_sealed_cap = cr_sealed_cap (u_cap_req u),
     mr_map_type = t, mr_is_sliced = False,
     mr_slice_definitions = (if t = SFC7120_MMIO_REGION then Some [] else None), mr_slice_def_length = 0\<rparr>"
  have "\<exists>c. ue_map env ?req (region_length ?sz) sc =
      (Some (case smr_slice_definitions r of Some sl \<Rightarrow> sl | None \<Rightarrow> []), c) \<and> marks (mr_map_type ?req) True (capio sc) c"
    by (rule map_free) (use assms(4-6) r sz(1) in \<open>simp_all add: entry_ok_def capio_slice_length_callback_def\<close>)
  then obtain c where c: "ue_map env ?req (region_length ?sz) sc =
      (Some (case smr_slice_definitions r of Some sl \<Rightarrow> sl | None \<Rightarrow> []), c)" "marks t True (capio sc) c" by auto
  have "table_ok (insert t M) (sc\<lparr>capio := c\<rparr>)" using table_ok_marks [OF assms(1) c(2)] by simp
  moreover have "token_of c = token_of (capio sc)" using c(2) by (simp add: marks_def)
  moreover have "t = SFC7120_MMIO_REGION \<Longrightarrow> smr_slice_definitions r = Some sfc7120_reg_slices"
    using r(2) by (simp add: entry_ok_def)
  moreover have "map_region env t (t = SFC7120_MMIO_REGION) (u, sc) = (True,
      (if t = SFC7120_MMIO_REGION
       then u\<lparr>u_mmio_slices := Some (case smr_slice_definitions r of Some sl \<Rightarrow> sl | None \<Rightarrow> []),
              u_mmio_slices_len := SFC7120_SLICE_COUNT\<rparr> else u)
      \<lparr>u_region_maps := (u_region_maps u)(t \<mapsto> sfc7120_get_buffer_size sc t)\<rparr>, sc\<lparr>capio := c\<rparr>)"
    unfolding map_region_def prod.case sizes option.case using c(1) sz assms(7)
    by (cases "t = SFC7120_MMIO_REGION") simp_all
  ultimately show ?thesis by auto
qed

lemma munmap_ok:
  assumes "table_ok M sc"
  shows "\<exists>u' c. munmap_regions env is (u, sc) = (u', sc\<lparr>capio := c\<rparr>) \<and> token_of c = token_of (capio sc) \<and>
    table_ok (M - {t \<in> set is. u_region_maps u t \<noteq> None}) (sc\<lparr>capio := c\<rparr>) \<and>
    u' = u\<lparr>u_region_maps := u_region_maps u'\<rparr>"
  using assms
proof (induction "is" arbitrary: M u sc)
  case Nil
  then show ?case by (intro exI [of _ u] exI [of _ "capio sc"]) simp
next
  case (Cons i "is")
  show ?case
  proof (cases "u_region_maps u i")
    case None
    then have "{t \<in> set (i # is). u_region_maps u t \<noteq> None} = {t \<in> set is. u_region_maps u t \<noteq> None}" by auto
    then show ?thesis using None Cons.IH [OF Cons.prems, of u] by simp
  next
    case (Some len)
    let ?c = "snd (ue_munmap env i len (capio sc))"
    let ?u = "u\<lparr>u_region_maps := (u_region_maps u)(i := None)\<rparr>"
    have m: "marks i False (capio sc) ?c" by (rule unmap)
    have "table_ok (M - {i}) (sc\<lparr>capio := ?c\<rparr>)" using table_ok_marks [OF Cons.prems m] by simp
    from Cons.IH [OF this, of ?u] obtain u' c where
      i: "munmap_regions env is (?u, sc\<lparr>capio := ?c\<rparr>) = (u', sc\<lparr>capio := c\<rparr>)" "token_of c = token_of ?c"
        "table_ok (M - {i} - {t \<in> set is. u_region_maps ?u t \<noteq> None}) (sc\<lparr>capio := c\<rparr>)"
        "u' = ?u\<lparr>u_region_maps := u_region_maps u'\<rparr>" by auto
    have "M - {i} - {t \<in> set is. u_region_maps ?u t \<noteq> None} = M - {t \<in> set (i # is). u_region_maps u t \<noteq> None}"
      using Some by auto
    moreover have "u' = u\<lparr>u_region_maps := u_region_maps u'\<rparr>" using i(4) by simp
    moreover have "token_of c = token_of (capio sc)" using i(2) m by (simp add: marks_def)
    ultimately show ?thesis using i(1,3) Some by auto
  qed
qed

end

section \<open>The ioctls of a session\<close>

lemma drv_ioctl_ok:
  assumes "check_cap_token (capio sc) (cr_sealed_cap req) = OK"
    and "sfc7120_ioctl nic data sc = Some (e, data', sc')" "capio sc' = capio sc"
  shows "sfc_ioctl nic vm (DriverCmd ()) req data sc = Some (e, req, data', sc')"
proof -
  have "sc'\<lparr>capio := capio sc\<rparr> = sc'" using assms(3) by (metis softc.surjective softc.update_convs(1))
  then show ?thesis using assms by (simp add: sfc_ioctl_def capio_ioctl_handler_def drv_ioctl_def)
qed

lemma attach_ioctl_ok:
  assumes "sealed_cap (capio sc) = null_cap" "\<not> cap_is_null (cr_user_cap req)"
  defines "p \<equiv> cr_user_cap req"
  defines "tok \<equiv> cheri_seal p (sealing_key (capio sc))"
  shows "sfc_ioctl nic vm CAPIO_ATTACH req data sc = Some (OK, req\<lparr>cr_sealed_cap := tok\<rparr>, data,
    sc\<lparr>capio := (capio sc)\<lparr>original_cap := p, sealed_cap := tok\<rparr>\<rparr>)"
  using assms by (simp add: sfc_ioctl_def capio_ioctl_handler_def set_cap_token_def Let_def)

lemma goodbye_ioctl_ok:
  assumes "check_cap_token (capio sc) (cr_sealed_cap req) = OK"
  shows "sfc_ioctl nic vm CAPIO_GOODBYE req data sc =
    Some (fst (revoke_cap_token vm (capio sc)), req, data, sc\<lparr>capio := snd (revoke_cap_token vm (capio sc))\<rparr>)"
  using assms by (simp add: sfc_ioctl_def capio_ioctl_handler_def split: prod.split)

lemma prefault_ok: "len \<le> bound \<Longrightarrow> sfc7120_prefault bound len off = Some ()"
proof (induction bound len off rule: sfc7120_prefault.induct)
  case (1 bound len off)
  then show ?case by (subst sfc7120_prefault.simps) simp
qed

section \<open>States of a session\<close>

definition session_ready :: "softc \<Rightarrow> bool" where
  "session_ready sc \<longleftrightarrow> original_cap (capio sc) = null_cap \<and> sealed_cap (capio sc) = null_cap \<and>
     valid_sealing_key (sealing_key (capio sc)) \<and> \<not> dying sc \<and> dp_ok sc \<and> table_ok {} sc"

text \<open>The process opens its devices and has a page to make a token of.\<close>

definition env_ok :: "user_env \<Rightarrow> bool" where
  "env_ok env \<longleftrightarrow> ue_open_dev env \<and> ue_open_modmap env \<and> ue_calloc env \<and>
     (\<exists>p. ue_malloc env = Some p \<and> genuine_cap p \<and> \<not> cap_is_null p)"

text \<open>Between the attachment and the end of the set-up, with the regions \<open>M\<close> mapped.\<close>

definition in_init :: "softc \<Rightarrow> int set \<Rightarrow> ust \<Rightarrow> bool" where
  "in_init sc0 M s \<longleftrightarrow> (case s of (u, sc) \<Rightarrow>
     sc = sc0\<lparr>capio := capio sc\<rparr> \<and> table_ok M sc \<and> token_of (capio sc) = token_of (capio sc0) \<and>
     u_fd u \<and> check_cap_token (capio sc) (cr_sealed_cap (u_cap_req u)) = OK \<and> c_tag (cr_user_cap (u_cap_req u)) \<and>
     \<not> u_used_poll u \<and>
     (\<forall>t. u_region_maps u t = (if t \<in> M then Some (sfc7120_get_buffer_size sc0 t) else None)) \<and>
     (u_tx_buffer u \<longleftrightarrow> 0 \<in> M) \<and> (u_rx_buffer u \<longleftrightarrow> 1 \<in> M) \<and> (u_tx_desc_ring u \<longleftrightarrow> 3 \<in> M) \<and>
     (u_rx_desc_ring u \<longleftrightarrow> 4 \<in> M) \<and> (u_evq_ring u \<longleftrightarrow> 5 \<in> M) \<and>
     (2 \<in> M \<longrightarrow> u_mmio_slices u = Some sfc7120_reg_slices \<and> u_mmio_slices_len u = SFC7120_SLICE_COUNT))"

definition open_session :: "ust \<Rightarrow> bool" where
  "open_session s \<longleftrightarrow> (case s of (u, sc) \<Rightarrow>
     user_ready u \<and> dp_ok sc \<and> \<not> dying sc \<and> table_ok session_types sc \<and> u_fd u \<and> u_vi_info_valid u \<and>
     valid_sealing_key (sealing_key (capio sc)) \<and> check_cap_token (capio sc) (cr_sealed_cap (u_cap_req u)) = OK \<and>
     (\<forall>t \<in> session_types. u_region_maps u t \<noteq> None))"

definition map_flag :: "int \<Rightarrow> user_if \<Rightarrow> user_if" where
  "map_flag t = (if t = 0 then (\<lambda>u. u\<lparr>u_tx_buffer := True\<rparr>) else if t = 1 then (\<lambda>u. u\<lparr>u_rx_buffer := True\<rparr>)
     else if t = 3 then (\<lambda>u. u\<lparr>u_tx_desc_ring := True\<rparr>) else if t = 4 then (\<lambda>u. u\<lparr>u_rx_desc_ring := True\<rparr>)
     else if t = 5 then (\<lambda>u. u\<lparr>u_evq_ring := True\<rparr>) else (\<lambda>u. u))"

lemma prefault_region_ok:
  assumes "in_init sc0 M (u, sc)" "t \<in> M" "len \<le> sfc7120_get_buffer_size sc0 t"
  shows "prefault_region t len u = Some ()"
  using assms by (simp add: in_init_def prefault_region_def prefault_ok)

context modmap_service
begin

lemma map_step:
  assumes "in_init sc0 M (u, sc)" "t \<in> session_types" "t \<notin> M" "\<not> dying sc0" "ue_calloc env"
  obtains u' sc' where "map_or_fail env t (t = SFC7120_MMIO_REGION) (map_flag t) (u, sc) k = k (u', sc')"
    "in_init sc0 (insert t M) (u', sc')"
proof -
  have i: "sc = sc0\<lparr>capio := capio sc\<rparr>" "table_ok M sc" "token_of (capio sc) = token_of (capio sc0)"
    "check_cap_token (capio sc) (cr_sealed_cap (u_cap_req u)) = OK" "c_tag (cr_user_cap (u_cap_req u))"
    using assms(1) by (simp_all add: in_init_def)
  have "dying sc = dying sc0" using arg_cong [OF i(1), of dying] by simp
  with assms(4) have "\<not> dying sc" by simp
  from map_region_ok [OF i(2) assms(2,3) this i(4,5) assms(5)]
  obtain u1 c where m: "map_region env t (t = SFC7120_MMIO_REGION) (u, sc) = (True, u1, sc\<lparr>capio := c\<rparr>)"
    "u1 = (if t = SFC7120_MMIO_REGION
            then u\<lparr>u_mmio_slices := Some sfc7120_reg_slices, u_mmio_slices_len := SFC7120_SLICE_COUNT\<rparr> else u)
          \<lparr>u_region_maps := (u_region_maps u)(t \<mapsto> sfc7120_get_buffer_size sc t)\<rparr>"
    "table_ok (insert t M) (sc\<lparr>capio := c\<rparr>)" "token_of c = token_of (capio sc)" by blast
  have "sfc7120_get_buffer_size sc t = sfc7120_get_buffer_size sc0 t"
    using buffer_size_capio [OF assms(2), of "capio sc" sc0] i(1) by metis
  moreover have "sc\<lparr>capio := c\<rparr> = sc0\<lparr>capio := c\<rparr>" using arg_cong [OF i(1), of "capio_update (\<lambda>_. c)"] by simp
  moreover have "check_cap_token c = check_cap_token (capio sc)" by (rule check_cap_token_of [OF m(4)])
  ultimately have "in_init sc0 (insert t M) (map_flag t u1, sc\<lparr>capio := c\<rparr>)"
    using assms(1) m(2-4) i(3) by (auto simp: in_init_def map_flag_def)
  with m(1) that show thesis by (simp add: map_or_fail_def)
qed

lemma init_vi_ok:
  assumes "in_init sc0 session_types (u, sc)" "dp_ok sc0"
  obtains u' where "init_vi env (u, sc) = Some (0, u', sc)" "in_init sc0 session_types (u', sc)"
    "u_vi_info_valid u'" "u_vi_info u' = get_vi_info sc0" "u_evq_read_ptr u' = data_evq_read_ptr sc0"
    "u_tx_head u' = tx_head sc0" "u_rx_head u' = rx_head sc0"
proof -
  have i: "sc = sc0\<lparr>capio := capio sc\<rparr>" "check_cap_token (capio sc) (cr_sealed_cap (u_cap_req u)) = OK"
    using assms(1) by (simp_all add: in_init_def)
  have "get_vi_info (sc0\<lparr>capio := c\<rparr>) = get_vi_info sc0" for c by (simp add: get_vi_info_def)
  then have vi: "get_vi_info sc = get_vi_info sc0" using i(1) by metis
  define v where "v = u\<lparr>u_vi_info := get_vi_info sc0, u_vi_info_valid := True,
    u_evq_read_ptr := vi_evq_read_ptr (get_vi_info sc0), u_rx_head := vi_rx_head (get_vi_info sc0),
    u_rx_window := rx_window_of (ue_rx_window env), u_tx_head := vi_tx_head (get_vi_info sc0)\<rparr>"
  have g: "sfc_ioctl (ue_nic env) (ue_vm env) (DriverCmd ()) (u_cap_req u) (SFC7120_GET_VI_INFO x) sc =
      Some (OK, u_cap_req u, SFC7120_GET_VI_INFO (get_vi_info sc0), sc)"
    "sfc_ioctl (ue_nic env) (ue_vm env) (DriverCmd ()) (u_cap_req u) (SFC7120_GET_MAC y) sc =
      Some (OK, u_cap_req u, SFC7120_GET_MAC (mac_addr sc), sc)" for x y
    by (rule drv_ioctl_ok [OF i(2)]; simp add: sfc7120_ioctl_def vi)+
  have "init_vi env (u, sc) = Some (0, v\<lparr>u_mac_addr := mac_addr sc\<rparr>, sc)"
    by (simp add: init_vi_def g v_def)
  moreover have "in_init sc0 session_types (v\<lparr>u_mac_addr := mac_addr sc\<rparr>, sc)"
    using assms(1) by (simp add: in_init_def v_def)
  ultimately show thesis by (rule that) (simp_all add: v_def get_vi_info_def)
qed

lemma init_maps_ok:
  assumes "in_init sc0 {} (u, sc)" "dp_ok sc0" "\<not> dying sc0" "ue_calloc env"
  obtains u' sc' where "init_maps env (u, sc) = Some (0, u', sc')" "in_init sc0 session_types (u', sc')"
    "u_vi_info_valid u'" "u_vi_info u' = get_vi_info sc0" "u_evq_read_ptr u' = data_evq_read_ptr sc0"
    "u_tx_head u' = tx_head sc0" "u_rx_head u' = rx_head sc0"
proof -
  note st = map_step [OF _ _ _ assms(3,4)]
  have fl: "(\<lambda>u. u\<lparr>u_tx_buffer := True\<rparr>) = map_flag 0" "(\<lambda>u. u\<lparr>u_rx_buffer := True\<rparr>) = map_flag 1"
    "(\<lambda>u. u\<lparr>u_tx_desc_ring := True\<rparr>) = map_flag 3" "(\<lambda>u. u\<lparr>u_rx_desc_ring := True\<rparr>) = map_flag 4"
    "(\<lambda>u. u\<lparr>u_evq_ring := True\<rparr>) = map_flag 5" "(\<lambda>u. u) = map_flag 2"
    by (simp_all add: map_flag_def)
  define k6 where "k6 = (\<lambda>s. map_or_fail env 2 True (map_flag 2) s (init_vi env))"
  define k5 where "k5 = (\<lambda>s. do { _ \<leftarrow> prefault_region 0 (512 * 2048) (fst s); _ \<leftarrow> prefault_region 1 (512 * 2048) (fst s);
     _ \<leftarrow> prefault_region 3 (512 * 8) (fst s); _ \<leftarrow> prefault_region 4 (512 * 8) (fst s);
     _ \<leftarrow> prefault_region 5 (512 * 8) (fst s); k6 s })"
  define k4 where "k4 = (\<lambda>s. map_or_fail env 5 False (map_flag 5) s k5)"
  define k3 where "k3 = (\<lambda>s. map_or_fail env 4 False (map_flag 4) s k4)"
  define k2 where "k2 = (\<lambda>s. map_or_fail env 3 False (map_flag 3) s k3)"
  define k1 where "k1 = (\<lambda>s. map_or_fail env 1 False (map_flag 1) s k2)"
  have eq: "init_maps env (u, sc) = map_or_fail env 0 False (map_flag 0) (u, sc) k1"
    unfolding init_maps_def fl k1_def k2_def k3_def k4_def k5_def k6_def ..
  obtain u1 s1 where 1: "map_or_fail env 0 (0 = SFC7120_MMIO_REGION) (map_flag 0) (u, sc) k1 = k1 (u1, s1)"
    "in_init sc0 (insert 0 {}) (u1, s1)" by (rule st [OF assms(1), of 0]) simp_all
  obtain u2 s2 where 2: "map_or_fail env 1 (1 = SFC7120_MMIO_REGION) (map_flag 1) (u1, s1) k2 = k2 (u2, s2)"
    "in_init sc0 {1, 0} (u2, s2)" by (rule st [OF 1(2), of 1]) simp_all
  obtain u3 s3 where 3: "map_or_fail env 3 (3 = SFC7120_MMIO_REGION) (map_flag 3) (u2, s2) k3 = k3 (u3, s3)"
    "in_init sc0 {3, 1, 0} (u3, s3)" by (rule st [OF 2(2), of 3]) simp_all
  obtain u4 s4 where 4: "map_or_fail env 4 (4 = SFC7120_MMIO_REGION) (map_flag 4) (u3, s3) k4 = k4 (u4, s4)"
    "in_init sc0 {4, 3, 1, 0} (u4, s4)" by (rule st [OF 3(2), of 4]) simp_all
  obtain u5 s5 where 5: "map_or_fail env 5 (5 = SFC7120_MMIO_REGION) (map_flag 5) (u4, s4) k5 = k5 (u5, s5)"
    "in_init sc0 {5, 4, 3, 1, 0} (u5, s5)" by (rule st [OF 4(2), of 5]) simp_all
  obtain u6 s6 where 6: "map_or_fail env 2 (2 = SFC7120_MMIO_REGION) (map_flag 2) (u5, s5) (init_vi env) = init_vi env (u6, s6)"
    "in_init sc0 {2, 5, 4, 3, 1, 0} (u6, s6)" by (rule st [OF 5(2), of 2]) simp_all
  have pf: "prefault_region 0 (512 * 2048) u5 = Some ()" "prefault_region 1 (512 * 2048) u5 = Some ()"
    "prefault_region 3 (512 * 8) u5 = Some ()" "prefault_region 4 (512 * 8) u5 = Some ()"
    "prefault_region 5 (512 * 8) u5 = Some ()"
    by (rule prefault_region_ok [OF 5(2)]; simp add: sfc7120_get_buffer_size_def)+
  have "init_maps env (u, sc) = init_vi env (u6, s6)"
    using eq 1(1) 2(1) 3(1) 4(1) 5(1) 6(1) pf
    by (simp add: k1_def k2_def k3_def k4_def k5_def k6_def)
  moreover have "{2, 5, 4, 3, 1, 0} = session_types" by auto
  ultimately show thesis using that init_vi_ok [OF _ assms(2), of u6 s6] 6(2) by metis
qed

lemma init_ok:
  assumes "session_ready sc" "env_ok env"
  obtains u' sc' where "sfc7120_init env (u, sc) = Some (0, u', sc')" "open_session (u', sc')" "\<not> u_used_poll u'"
    "u_vi_info u' = get_vi_info sc" "u_evq_read_ptr u' = data_evq_read_ptr sc" "u_tx_head u' = tx_head sc"
    "u_rx_head u' = rx_head sc" "sc' = sc\<lparr>capio := capio sc'\<rparr>"
proof -
  obtain p where p: "ue_malloc env = Some p" "genuine_cap p" "\<not> cap_is_null p"
    and e: "ue_open_dev env" "ue_open_modmap env" "ue_calloc env" using assms(2) by (auto simp: env_ok_def)
  have r: "sealed_cap (capio sc) = null_cap" "valid_sealing_key (sealing_key (capio sc))" "\<not> dying sc" "dp_ok sc"
    "table_ok {} sc" using assms(1) by (simp_all add: session_ready_def)
  let ?tok = "cheri_seal p (sealing_key (capio sc))"
  define sc0 where "sc0 = sc\<lparr>capio := (capio sc)\<lparr>original_cap := p, sealed_cap := ?tok\<rparr>\<rparr>"
  define u0 where "u0 = (init_reset u)\<lparr>u_fd := True, u_modmap_fd := True, u_cap_token := Some p,
    u_cap_req := (u_cap_req u)\<lparr>cr_user_cap := p, cr_sealed_cap := ?tok\<rparr>\<rparr>"
  have "sfc7120_init env (u, sc) = init_maps env (u0, sc0)"
    using e p attach_ioctl_ok [OF r(1), of "(u_cap_req u)\<lparr>cr_user_cap := p\<rparr>"]
    by (simp add: sfc7120_init_def Let_def init_reset_def u0_def sc0_def)
  moreover have "dp_ok sc0" "\<not> dying sc0" using r by (simp_all add: sc0_def dp_ok_def)
  moreover have tok: "check_cap_token (capio sc0) ?tok = OK"
    using cheri.unseal_seal [OF r(2) p(2)] p(3) by (simp add: sc0_def check_cap_token_def cheri_ptr_equal_exact_def)
  have "table_ok {} sc0" unfolding sc0_def by (rule table_ok_same [OF r(5)]) simp
  then have "in_init sc0 {} (u0, sc0)"
    using tok p(2) by (simp add: in_init_def u0_def init_reset_def genuine_cap_def)
  ultimately obtain u' sc' where i: "sfc7120_init env (u, sc) = Some (0, u', sc')" "in_init sc0 session_types (u', sc')"
    "u_vi_info_valid u'" "u_vi_info u' = get_vi_info sc0" "u_evq_read_ptr u' = data_evq_read_ptr sc0"
    "u_tx_head u' = tx_head sc0" "u_rx_head u' = rx_head sc0"
    using init_maps_ok [of sc0 u0 sc0] e(3) by metis
  have sc': "sc' = sc0\<lparr>capio := capio sc'\<rparr>" "sealing_key (capio sc') = sealing_key (capio sc0)"
    using i(2) by (simp_all add: in_init_def token_of_def)
  have "dp_ok sc'" "\<not> dying sc'"
    using r(3,4) arg_cong [OF sc'(1), of dp_ok] arg_cong [OF sc'(1), of dying] by (simp_all add: dp_ok_def sc0_def)
  then have "open_session (u', sc')"
    using i(2,3,5-7) sc'(2) r(2,4) by (simp add: open_session_def in_init_def user_ready_def dp_ok_def sc0_def)
  moreover have "sc' = sc\<lparr>capio := capio sc'\<rparr>" using sc'(1) by (simp add: sc0_def)
  ultimately show thesis
    using i that by (simp add: in_init_def sc0_def get_vi_info_def)
qed

lemma destroy_ok:
  assumes "open_session (u, sc)"
  obtains u' sc' where "sfc7120_destroy env (u, sc) = Some (u', sc')" "session_ready sc'"
    "trace sc' = trace sc"
    "data_evq_read_ptr sc' = (if u_used_poll u then u_evq_read_ptr u else data_evq_read_ptr sc)"
    "tx_head sc' = (if u_used_poll u then u_tx_head u else tx_head sc)"
    "rx_head sc' = (if u_used_poll u then u_rx_head u else rx_head sc)"
proof -
  have o: "user_ready u" "dp_ok sc" "\<not> dying sc" "table_ok session_types sc" "u_fd u" "u_vi_info_valid u"
    "valid_sealing_key (sealing_key (capio sc))" "check_cap_token (capio sc) (cr_sealed_cap (u_cap_req u)) = OK"
    "\<And>t. t \<in> session_types \<Longrightarrow> u_region_maps u t \<noteq> None"
    using assms unfolding open_session_def prod.case by blast+
  obtain u1 c where m: "munmap_regions env [0, 1, 2, 3, 4, 5, 6] (u, sc) = (u1, sc\<lparr>capio := c\<rparr>)"
    "token_of c = token_of (capio sc)"
    "table_ok (session_types - {t \<in> set [0, 1, 2, 3, 4, 5, 6]. u_region_maps u t \<noteq> None}) (sc\<lparr>capio := c\<rparr>)"
    "u1 = u\<lparr>u_region_maps := u_region_maps u1\<rparr>"
    using munmap_ok [OF o(4), of "[0, 1, 2, 3, 4, 5, 6]" u] by blast
  have "session_types - {t \<in> set [0, 1, 2, 3, 4, 5, 6]. u_region_maps u t \<noteq> None} = {}" using o(9) by auto
  with m(3) have free: "table_ok {} (sc\<lparr>capio := c\<rparr>)" by simp
  define s1 where "s1 = (if u_used_poll u
    then sc\<lparr>capio := c, data_evq_read_ptr := u_evq_read_ptr u, tx_head := u_tx_head u, rx_head := u_rx_head u\<rparr>
    else sc\<lparr>capio := c\<rparr>)"
  have u1: "u_fd u1 = u_fd u" "u_vi_info_valid u1 = u_vi_info_valid u" "u_used_poll u1 = u_used_poll u"
    "u_cap_req u1 = u_cap_req u" "sync_req u1 = sync_req u"
    using arg_cong [OF m(4), of u_fd] arg_cong [OF m(4), of u_vi_info_valid] arg_cong [OF m(4), of u_used_poll]
      arg_cong [OF m(4), of u_cap_req] arg_cong [OF m(4), of sync_req] by (simp_all add: sync_req_def)
  have tok: "check_cap_token c (cr_sealed_cap (u_cap_req u)) = OK" "check_cap_token (capio s1) (cr_sealed_cap (u_cap_req u)) = OK"
    using o(8) check_cap_token_of [OF m(2)] by (simp_all add: s1_def)
  have "unat (u_evq_read_ptr u) < 512" "unat (u_tx_head u) < 512" "unat (u_rx_head u) < 512"
    using o(1) by (simp_all add: user_ready_def)
  then have "sfc7120_ioctl nic (SFC7120_SET_EVQ_RPTR (sync_req u)) (sc\<lparr>capio := c\<rparr>) =
      Some (OK, SFC7120_SET_EVQ_RPTR (sync_req u), (sc\<lparr>capio := c, data_evq_read_ptr := u_evq_read_ptr u,
        tx_head := u_tx_head u, rx_head := u_rx_head u\<rparr>))" for nic
    by (simp add: sfc7120_ioctl_def set_evq_rptr_def sync_req_def)
  then have sync: "sfc_ioctl nic vm (DriverCmd ()) (u_cap_req u) (SFC7120_SET_EVQ_RPTR (sync_req u)) (sc\<lparr>capio := c\<rparr>) =
      Some (OK, u_cap_req u, SFC7120_SET_EVQ_RPTR (sync_req u), (sc\<lparr>capio := c, data_evq_read_ptr := u_evq_read_ptr u,
        tx_head := u_tx_head u, rx_head := u_rx_head u\<rparr>))" for nic vm
    by (intro drv_ioctl_ok) (simp_all add: tok)
  obtain e c2 where rv: "revoke_cap_token (ue_vm env) c = (e, c2)" by fastforce
  have c2: "original_cap c2 = null_cap" "sealed_cap c2 = null_cap" "sealing_key c2 = sealing_key c"
    "map shape (shared_mem_regs c2) = map shape (shared_mem_regs c)"
    using revoke_cap_token_fields [OF rv] revoke_loop_shape [OF revoke_regs [OF rv]] by simp_all
  have bye: "sfc_ioctl (ue_nic env) (ue_vm env) CAPIO_GOODBYE (u_cap_req u) d s1 = Some (e, u_cap_req u, d, s1\<lparr>capio := c2\<rparr>)" for d
    using goodbye_ioctl_ok [OF tok(2)] rv by (simp add: s1_def)
  have "\<exists>u'. sfc7120_destroy env (u, sc) = Some (u', s1\<lparr>capio := c2\<rparr>)"
    using m(1) sync bye u1 o(5,6) by (auto simp: sfc7120_destroy_def Let_def s1_def sync_req_def)
  moreover have "table_ok {} (s1\<lparr>capio := c2\<rparr>)"
  proof -
    have "table_ok {} s1" using free by (simp add: s1_def table_ok_def entry_ok_def sfc7120_get_buffer_size_def)
    then show ?thesis by (rule table_ok_same) (simp add: c2(4) s1_def)
  qed
  then have "session_ready (s1\<lparr>capio := c2\<rparr>)"
    using c2 m(2) o(1-3,7) by (simp add: session_ready_def s1_def token_of_def dp_ok_def user_ready_def)
  ultimately show thesis using that [of _ "s1\<lparr>capio := c2\<rparr>"] by (auto simp: s1_def)
qed

lemma open_session_step:
  assumes "open_session (u, sc)" "user_step\<^sup>*\<^sup>* (u, sc) (u', sc')"
  shows "open_session (u', sc')" "data_evq_read_ptr sc' = data_evq_read_ptr sc" "tx_head sc' = tx_head sc"
    "rx_head sc' = rx_head sc"
proof -
  have "user_ready u" using assms(1) by (simp add: open_session_def)
  then have c: "user_ready u'" "confined (u, sc) (u', sc')"
    using user_machine.reachable_inv [OF _ assms(2)] by auto
  have fr: "user_frame sc' = user_frame sc" and se: "sess u' = sess u" using c(2) by (simp_all add: confined_def)
  have k: "capio sc' = capio sc" "dying sc' = dying sc" "mem_resource sc' = mem_resource sc"
    "evq_read_ptr sc' = evq_read_ptr sc"
    using arg_cong [OF fr, of capio] arg_cong [OF fr, of dying] arg_cong [OF fr, of mem_resource]
      arg_cong [OF fr, of evq_read_ptr] by (simp_all add: user_frame_def)
  show p: "data_evq_read_ptr sc' = data_evq_read_ptr sc" "tx_head sc' = tx_head sc" "rx_head sc' = rx_head sc"
    using arg_cong [OF fr, of data_evq_read_ptr] arg_cong [OF fr, of tx_head] arg_cong [OF fr, of rx_head]
    by (simp_all add: user_frame_def)
  have "table_ok M sc' = table_ok M sc" for M
    by (simp add: table_ok_def entry_ok_def sfc7120_get_buffer_size_def k)
  with assms(1) c(1) k p sess_eqD [OF se] show "open_session (u', sc')"
    by (simp add: open_session_def dp_ok_def)
qed

end

section \<open>modmap over the CAPIO callbacks\<close>

text \<open>A modmap that hands the requests to the driver's CAPIO callbacks, with user addresses \<open>va\<close>.\<close>

definition modmap_map :: "(int \<Rightarrow> nat) \<Rightarrow> map_req_t \<Rightarrow> nat \<Rightarrow> softc \<Rightarrow> slice_def_t list option \<times> capio_softc_t" where
  "modmap_map va req len sc =
     (case capio_mmap_single_extra
         \<lparr>me_buffer_size = sfc7120_get_buffer_size sc, me_dying_before = dying sc, me_malloc_ok = True,
          me_pager_ok = True, me_dying_after = dying sc\<rparr>
         \<lparr>ma_extra = Some req, ma_offset = 0, ma_size = len, ma_cap_prot = False\<rparr> (Some (capio sc)) of
        (OK, Some c, Some reply, Some obj, True) \<Rightarrow>
          (Some (case mr_slice_definitions reply of Some sl \<Rightarrow> sl | None \<Rightarrow> []),
           snd (capio_vaddr_callback (va (mr_map_type req)) len (mr_map_type req) c))
      | _ \<Rightarrow> (None, capio sc))"

definition modmap_env :: "nic_env \<Rightarrow> (nat \<Rightarrow> vm_answers) \<Rightarrow> capability \<Rightarrow> (int \<Rightarrow> nat) \<Rightarrow> user_env" where
  "modmap_env nic vm p va = \<lparr>ue_nic = nic, ue_vm = vm, ue_open_dev = True, ue_open_modmap = True,
     ue_malloc = Some p, ue_calloc = True, ue_get_slices = (\<lambda>t c. Some (capio_slice_length_callback t c)),
     ue_map = modmap_map va, ue_munmap = (\<lambda>t len c. (True, capio_pager_dtor t c)), ue_rx_window = None\<rparr>"

lemma vaddr_loop_shape:
  assumes "find_region t regs = Some r" "len = smr_len r"
  shows "map shape (snd (vaddr_loop t va len regs)) = map shape regs"
  using assms by (induction regs) (auto simp: shape_def split: if_splits prod.splits)

interpretation capio_modmap: modmap_service "modmap_env nic vm p va" for nic vm p va
proof
  show "ue_get_slices (modmap_env nic vm p va) t c = Some (capio_slice_length_callback t c)" for t c
    by (simp add: modmap_env_def)
  show "marks t False c (snd (ue_munmap (modmap_env nic vm p va) t n c))" for t c n
    by (simp add: modmap_env_def marks_def pager_dtor_regs token_of_def)
      (simp add: capio_pager_dtor_def split: prod.split)
next
  fix sc :: softc and req :: map_req_t and r len
  assume a: "check_cap_token (capio sc) (cr_sealed_cap req) = OK" "c_tag (cr_user_cap req)" "\<not> dying sc"
    "find_region (mr_map_type req) (shared_mem_regs (capio sc)) = Some r" "\<not> smr_mapped r" "len = smr_len r"
    "len = sfc7120_get_buffer_size sc (mr_map_type req)"
  let ?t = "mr_map_type req" and ?c = "snd (capio_pager_ctor (mr_map_type req) (capio sc))"
  let ?c' = "snd (capio_vaddr_callback (va ?t) len ?t ?c)"
  have "ue_map (modmap_env nic vm p va) req len sc =
      (Some (case smr_slice_definitions r of Some sl \<Rightarrow> sl | None \<Rightarrow> []), ?c')"
    using a by (simp add: modmap_env_def modmap_map_def capio_mmap_single_extra_def mmap_check_def mmap_commit_def Let_def)
  moreover have fr: "find_region ?t (shared_mem_regs ?c) = Some (set_mapped ?t True r)"
    using a(4) by (simp add: pager_ctor_regs find_region_map set_mapped_def)
  have len: "len = smr_len (set_mapped ?t True r)" using a(6) by (simp add: set_mapped_def)
  have "shared_mem_regs ?c' = snd (vaddr_loop ?t (va ?t) len (shared_mem_regs ?c))"
    by (simp add: capio_vaddr_callback_def split_def)
  then have "map shape (shared_mem_regs ?c') = map shape (map (set_mapped ?t True) (shared_mem_regs (capio sc)))"
    using vaddr_loop_shape [OF fr len, of "va ?t"] by (simp add: pager_ctor_regs)
  moreover have "token_of ?c' = token_of (capio sc)"
    by (simp add: capio_vaddr_callback_def token_of_def capio_pager_ctor_def split: prod.split)
  ultimately show "\<exists>c. ue_map (modmap_env nic vm p va) req len sc =
      (Some (case smr_slice_definitions r of Some sl \<Rightarrow> sl | None \<Rightarrow> []), c) \<and> marks ?t True (capio sc) c"
    by (simp add: marks_def)
qed

section \<open>Sessions follow each other\<close>

text \<open>
  C17: Sessions can follow each other for ever. On a device that is ready for a session, with a
  modmap driver that keeps its contract, \<open>sfc7120_init\<close> succeeds with everything mapped and its
  pointers equal to the kernel's. After any sequence of data-path calls (copies into large enough
  buffers, with a NIC that keeps frames within their slots) \<open>sfc7120_destroy\<close> ends and
  leaves the device ready for the next session: no token, all regions free. The kernel's pointers
  are then those of this session if one of its calls set \<open>used_poll\<close>, and otherwise what they were
  before it; the batched posts do not set that flag.
\<close>

theorem sessions_follow:
  assumes "modmap_service env" "env_ok env" "session_ready sc"
  shows "\<exists>u1 sc1. sfc7120_init env (u, sc) = Some (0, u1, sc1) \<and> user_ready u1 \<and>
    u_evq_read_ptr u1 = data_evq_read_ptr sc \<and> u_tx_head u1 = tx_head sc \<and> u_rx_head u1 = rx_head sc \<and>
    (\<forall>u2 sc2. user_step\<^sup>*\<^sup>* (u1, sc1) (u2, sc2) \<longrightarrow>
      (\<exists>u3 sc3. sfc7120_destroy env (u2, sc2) = Some (u3, sc3) \<and> session_ready sc3 \<and>
        (if u_used_poll u2
         then data_evq_read_ptr sc3 = u_evq_read_ptr u2 \<and> tx_head sc3 = u_tx_head u2 \<and> rx_head sc3 = u_rx_head u2
         else data_evq_read_ptr sc3 = data_evq_read_ptr sc \<and> tx_head sc3 = tx_head sc \<and> rx_head sc3 = rx_head sc)))"
proof -
  obtain u1 sc1 where i: "sfc7120_init env (u, sc) = Some (0, u1, sc1)" "open_session (u1, sc1)"
    "u_evq_read_ptr u1 = data_evq_read_ptr sc" "u_tx_head u1 = tx_head sc" "u_rx_head u1 = rx_head sc"
    "sc1 = sc\<lparr>capio := capio sc1\<rparr>"
    by (rule modmap_service.init_ok [OF assms(1,3,2)])
  have k: "data_evq_read_ptr sc1 = data_evq_read_ptr sc" "tx_head sc1 = tx_head sc" "rx_head sc1 = rx_head sc"
    using arg_cong [OF i(6), of data_evq_read_ptr] arg_cong [OF i(6), of tx_head] arg_cong [OF i(6), of rx_head]
    by simp_all
  have "\<exists>u3 sc3. sfc7120_destroy env (u2, sc2) = Some (u3, sc3) \<and> session_ready sc3 \<and>
        (if u_used_poll u2
         then data_evq_read_ptr sc3 = u_evq_read_ptr u2 \<and> tx_head sc3 = u_tx_head u2 \<and> rx_head sc3 = u_rx_head u2
         else data_evq_read_ptr sc3 = data_evq_read_ptr sc \<and> tx_head sc3 = tx_head sc \<and> rx_head sc3 = rx_head sc)"
    if st: "user_step\<^sup>*\<^sup>* (u1, sc1) (u2, sc2)" for u2 sc2
  proof -
    note o = modmap_service.open_session_step [OF assms(1) i(2) st]
    obtain u3 sc3 where "sfc7120_destroy env (u2, sc2) = Some (u3, sc3)" "session_ready sc3"
      "data_evq_read_ptr sc3 = (if u_used_poll u2 then u_evq_read_ptr u2 else data_evq_read_ptr sc2)"
      "tx_head sc3 = (if u_used_poll u2 then u_tx_head u2 else tx_head sc2)"
      "rx_head sc3 = (if u_used_poll u2 then u_rx_head u2 else rx_head sc2)"
      by (rule modmap_service.destroy_ok [OF assms(1) o(1)])
    with o(2-4) k show ?thesis by simp
  qed
  moreover have "user_ready u1" using i(2) by (simp add: open_session_def)
  ultimately show ?thesis using i(1,3-5) by blast
qed

text \<open>A device with the region table that attach publishes, and a process that uses it.\<close>

definition published_softc :: softc where
  "published_softc = example_softc\<lparr>capio :=
     init_capio_sc example_root (sfc7120_smem 0 0x90000000 0x800000 example_softc) capio_softc_zero\<rparr>"

definition example_env_user :: user_env where
  "example_env_user = modmap_env rx_nic (\<lambda>_. example_vm) example_user_cap (\<lambda>_. 0x70000000)"

lemma published_ready: "session_ready published_softc"
proof -
  have "dp_ok published_softc" using example_softc_dp(1) by (simp add: published_softc_def dp_ok_def)
  moreover have "\<not> dying published_softc"
    by (simp add: published_softc_def example_softc_def zero_softc_def)
  moreover have "table_ok {} published_softc"
    by (simp add: table_ok_def entry_ok_def published_softc_def init_capio_sc_def sfc7120_smem_def smem_entry_def
        sfc7120_get_buffer_size_def) (simp add: example_softc_def SFC7120_MMIO_SLICE_COUNT_def)
  ultimately show ?thesis
    by (simp add: session_ready_def published_softc_def token_defs example_defs)
qed

lemma example_env_user_ok: "env_ok example_env_user" "modmap_service example_env_user"
  by (simp add: env_ok_def example_env_user_def modmap_env_def token_defs example_defs)
    (unfold example_env_user_def, rule capio_modmap.modmap_service_axioms)

text \<open>Two sessions after each other: one frame sent over the direct path, then a new start at slot 1.\<close>

theorem sessions_follow_witness:
  "\<exists>u1 sc1 u2 sc2 u3 sc3 u4 sc4. sfc7120_init example_env_user (example_user, published_softc) = Some (0, u1, sc1) \<and>
     sfc7120_tx_post_paddr 0x5000 60 (u1, sc1) = Some (0, u2, sc2) \<and>
     sfc7120_destroy example_env_user (u2, sc2) = Some (u3, sc3) \<and>
     sfc7120_init example_env_user (u3, sc3) = Some (0, u4, sc4) \<and> u_tx_head u4 = 1"
proof -
  note f = sessions_follow [OF example_env_user_ok(2,1)]
  obtain u1 sc1 where 1: "sfc7120_init example_env_user (example_user, published_softc) = Some (0, u1, sc1)"
    "user_ready u1" "u_tx_head u1 = tx_head published_softc"
    "\<And>u2 sc2. user_step\<^sup>*\<^sup>* (u1, sc1) (u2, sc2) \<Longrightarrow> \<exists>u3 sc3. sfc7120_destroy example_env_user (u2, sc2) =
       Some (u3, sc3) \<and> session_ready sc3 \<and> (u_used_poll u2 \<longrightarrow> tx_head sc3 = u_tx_head u2)"
    using f [OF published_ready, of example_user] by (metis (no_types))
  note g = ready_guards [OF 1(2)]
  let ?v = "u1\<lparr>u_used_poll := True\<rparr>"
  have v: "user_ready ?v" using 1(2) by simp
  obtain s where s: "tx_desc_put 60 0x5000 ?v sc1 = Some s" using confined_tx_post [OF v] by blast
  obtain s' where s': "tx_push ?v s = Some s'" using confined_doorbells(2) [OF v] by blast
  let ?u2 = "u1\<lparr>u_used_poll := True, u_tx_head := next512 (u_tx_head u1)\<rparr>"
  have tx: "sfc7120_tx_post_paddr 0x5000 60 (u1, sc1) = Some (0, ?u2, s')"
    using g s s' by (simp add: sfc7120_tx_post_paddr_def Let_def)
  then have "user_run rx_nic (Tx_post_paddr 0x5000 60) (u1, sc1) = Some (?u2, s')" by (simp add: user_run_def)
  from user_step.op [OF rx_nic_fits _ this] have "user_step\<^sup>*\<^sup>* (u1, sc1) (?u2, s')" by simp
  from 1(4) [OF this] obtain u3 sc3 where 3: "sfc7120_destroy example_env_user (?u2, s') = Some (u3, sc3)"
    "session_ready sc3" "tx_head sc3 = next512 (u_tx_head u1)" by auto
  obtain u4 sc4 where 4: "sfc7120_init example_env_user (u3, sc3) = Some (0, u4, sc4)" "u_tx_head u4 = tx_head sc3"
    using f [OF 3(2), of u3] by blast
  have "u_tx_head u1 = 0" using 1(3) example_softc_dp(2) by (simp add: published_softc_def)
  then have "u_tx_head u4 = 1" using 3(3) 4(2) by (simp add: next512_def)
  with 1(1) tx 3(1) 4(1) show ?thesis by blast
qed

text \<open>
  The batched transmit calls do not count as use of the direct path. A session that only posts
  with \<open>sfc7120_tx_post_paddr_nodbl\<close> and flushes tells the NIC a new write pointer, but
  \<open>sfc7120_destroy\<close> does not hand its position back: the kernel keeps the old head, and the next
  session starts one slot behind the NIC.
\<close>

theorem batched_heads_lost:
  assumes "modmap_service env" "env_ok env" "session_ready sc" "0 < len" "len \<le> 2048"
  shows "\<exists>u1 sc1 u2 sc2 sc3 u4 sc4. sfc7120_init env (u, sc) = Some (0, u1, sc1) \<and>
    sfc7120_tx_post_paddr_nodbl pa len (u1, sc1) = Some (0, u2, sc2) \<and>
    sfc7120_tx_flush (u2, sc2) = Some (u2, sc3) \<and>
    last (trace sc3) = RegWr SFC7120_REG_DATA_TX_WPTR_DBL (next512 (tx_head sc)) \<and>
    sfc7120_destroy env (u2, sc3) = Some (u4, sc4) \<and> tx_head sc4 = tx_head sc"
proof -
  obtain u1 sc1 where i: "sfc7120_init env (u, sc) = Some (0, u1, sc1)" "open_session (u1, sc1)"
    "\<not> u_used_poll u1" "u_tx_head u1 = tx_head sc" "sc1 = sc\<lparr>capio := capio sc1\<rparr>"
    by (rule modmap_service.init_ok [OF assms(1,3,2)])
  have r: "user_ready u1" using i(2) by (simp add: open_session_def)
  note g = ready_guards [OF r]
  let ?u2 = "u1\<lparr>u_tx_head := next512 (u_tx_head u1)\<rparr>"
  have r2: "user_ready ?u2" using r by simp
  obtain sc2 where p: "tx_desc_put len pa u1 sc1 = Some sc2" using confined_tx_post [OF r] by blast
  then have post: "sfc7120_tx_post_paddr_nodbl pa len (u1, sc1) = Some (0, ?u2, sc2)"
    using g assms(4,5) by (simp add: sfc7120_tx_post_paddr_nodbl_def)
  let ?sc3 = "io [RegWr SFC7120_REG_DATA_TX_WPTR_DBL (next512 (u_tx_head u1))] sc2"
  have "u_mmio_slices ?u2 = Some sfc7120_reg_slices" using r by (simp add: user_ready_def)
  from slice_write_ready(3) [OF this, of 2] have fl: "sfc7120_tx_flush (?u2, sc2) = Some (?u2, ?sc3)"
    using ready_guards(8) [OF r2] by (simp add: sfc7120_tx_flush_def)
  have "user_run rx_nic (Tx_post_paddr_nodbl pa len) (u1, sc1) = Some (?u2, sc2)"
    "user_run rx_nic Tx_flush (?u2, sc2) = Some (?u2, ?sc3)"
    using post fl by (simp_all add: user_run_def)
  from user_step.op [OF rx_nic_fits _ this(1)] user_step.op [OF rx_nic_fits _ this(2)]
  have "user_step (u1, sc1) (?u2, sc2)" "user_step (?u2, sc2) (?u2, ?sc3)" by simp_all
  then have st: "user_step\<^sup>*\<^sup>* (u1, sc1) (?u2, ?sc3)" by (meson converse_rtranclp_into_rtranclp r_into_rtranclp)
  note o = modmap_service.open_session_step [OF assms(1) i(2) st]
  obtain u4 sc4 where d: "sfc7120_destroy env (?u2, ?sc3) = Some (u4, sc4)"
    "tx_head sc4 = (if u_used_poll ?u2 then u_tx_head ?u2 else tx_head ?sc3)"
    by (rule modmap_service.destroy_ok [OF assms(1) o(1)])
  have "tx_head sc1 = tx_head sc" using arg_cong [OF i(5), of tx_head] by simp
  then have "tx_head sc4 = tx_head sc" using d(2) o(3) i(3) by simp
  moreover have "last (trace ?sc3) = RegWr SFC7120_REG_DATA_TX_WPTR_DBL (next512 (tx_head sc))"
    using i(4) by (simp add: io_def)
  ultimately show ?thesis using i(1) post fl d(1) by blast
qed

theorem batched_heads_lost_witness:
  "\<exists>u1 sc1 u2 sc2 sc3 u4 sc4. sfc7120_init example_env_user (example_user, published_softc) = Some (0, u1, sc1) \<and>
     sfc7120_tx_post_paddr_nodbl 0x5000 60 (u1, sc1) = Some (0, u2, sc2) \<and>
     sfc7120_tx_flush (u2, sc2) = Some (u2, sc3) \<and> last (trace sc3) = RegWr SFC7120_REG_DATA_TX_WPTR_DBL 1 \<and>
     sfc7120_destroy example_env_user (u2, sc3) = Some (u4, sc4) \<and> tx_head sc4 = 0"
proof -
  have "tx_head published_softc = 0" using example_softc_dp(2) by (simp add: published_softc_def)
  moreover have "next512 0 = 1" by (simp add: next512_def)
  ultimately show ?thesis
    using batched_heads_lost [OF example_env_user_ok(2,1) published_ready, of 60 example_user "0x5000"] by simp
qed

end
