(* ===== verification/Pmd.thy ===== *)
theory Pmd
  imports Session "HOL-Library.Multiset"
begin

text \<open>
  The DPDK poll-mode driver \<open>net_capio\<close> (\<^verbatim>\<open>fstack-capio/rte_eth_capio.c\<close>): receive and
  transmit bursts over the user library, with DPDK's packet buffers (mbufs) handed to the NIC in
  place, and the device operations around them. Mbufs are addresses into a heap, 0 is NULL. DPDK is
  a parameter: the addresses and the room of an mbuf, and what the pool answers, as a function of
  the pool events so far. The debugging output has no counterpart. CAPIO_RX_COPY is the parameter
  \<open>copy\<close>.
\<close>

section \<open>State\<close>

record mbuf =
  mb_mem :: bytes
  mb_buf_len :: u16
  mb_data_off :: u16
  mb_data_len :: u16
  mb_pkt_len :: u32
  mb_nb_segs :: u16
  mb_next :: nat
  mb_port :: u16
  mb_cksum_good :: bool

text \<open>What happened to the pool: mbufs handed out (none if it failed), one packet given back by its first mbuf.\<close>

datatype pool_ev = MbAlloc "nat list" | MbFree nat

record dpdk =
  d_data_iova_default :: "mbuf \<Rightarrow> u64"
  d_data_iova :: "mbuf \<Rightarrow> u64"
  d_tailroom :: "mbuf \<Rightarrow> u16"
  d_bulk :: "pool_ev list \<Rightarrow> nat list option"   \<comment> \<open>\<open>rte_pktmbuf_alloc_bulk\<close> of 64\<close>
  d_alloc :: "pool_ev list \<Rightarrow> nat"              \<comment> \<open>\<open>rte_pktmbuf_alloc\<close>, 0 on failure\<close>
  d_heap :: "pool_ev list \<Rightarrow> (nat \<Rightarrow> mbuf) \<Rightarrow> (nat \<Rightarrow> mbuf)"  \<comment> \<open>the mbufs after an allocation\<close>

record capio_internals =
  sfc :: ust
  mbufs :: "nat \<Rightarrow> mbuf"
  pool :: "pool_ev list"
  stash :: "nat list"            \<comment> \<open>the first \<open>nstash\<close> entries\<close>
  port_id :: u16
  rx_pkts :: u64
  rx_bytes :: u64
  rx_nombuf :: u64
  inflight :: "nat \<Rightarrow> nat"
  last_freed :: u16
  tx_inflight_cnt :: u32
  tx_pkts :: u64
  tx_bytes :: u64
  tx_dropped :: u64
  tx_copy_mode :: bool
  started :: bool
  mac :: "u8 list"

definition rte_pktmbuf_free :: "nat \<Rightarrow> capio_internals \<Rightarrow> capio_internals" where
  "rte_pktmbuf_free m pi = pi\<lparr>pool := pool pi @ [MbFree m]\<rparr>"

section \<open>Receive\<close>

definition capio_post_mbuf :: "dpdk \<Rightarrow> nat \<Rightarrow> capio_internals \<Rightarrow> capio_internals option" where
  "capio_post_mbuf d m pi =
     (let iova = d_data_iova_default d (mbufs pi m); room = d_tailroom d (mbufs pi m);
          room = (if room > SFC7120_RX_BUFFER_SIZE then SFC7120_RX_BUFFER_SIZE else room) in
      do { (_, s) \<leftarrow> sfc7120_rx_release_paddr_nodbl iova (unat room) m (sfc pi); Some (pi\<lparr>sfc := s\<rparr>) })"

definition capio_mbuf_get :: "dpdk \<Rightarrow> capio_internals \<Rightarrow> nat \<times> capio_internals" where
  "capio_mbuf_get d pi =
     (if stash pi = [] then
        (case d_bulk d (pool pi) of
           None \<Rightarrow>
             let pi = pi\<lparr>pool := pool pi @ [MbAlloc []]\<rparr>; m = d_alloc d (pool pi) in
             (m, pi\<lparr>mbufs := d_heap d (pool pi) (mbufs pi), pool := pool pi @ [MbAlloc (if m = 0 then [] else [m])]\<rparr>)
         | Some ms \<Rightarrow>
             (last ms, pi\<lparr>mbufs := d_heap d (pool pi) (mbufs pi), pool := pool pi @ [MbAlloc ms],
                          stash := butlast ms\<rparr>))
      else (last (stash pi), pi\<lparr>stash := butlast (stash pi)\<rparr>))"

text \<open>Reaping of TX completions: free the slots after \<open>f\<close> up to \<open>done\<close>.\<close>

definition tx_free_slot :: "u16 \<Rightarrow> capio_internals \<Rightarrow> capio_internals" where
  "tx_free_slot f pi =
     (let pi = (if inflight pi (unat f) \<noteq> 0
                then (rte_pktmbuf_free (inflight pi (unat f)) pi)\<lparr>inflight := (inflight pi)(unat f := 0)\<rparr>
                else pi) in
      if tx_inflight_cnt pi > 0 then pi\<lparr>tx_inflight_cnt := tx_inflight_cnt pi - 1\<rparr> else pi)"

partial_function (option) tx_reap :: "u16 \<Rightarrow> u16 \<Rightarrow> capio_internals \<Rightarrow> capio_internals option" where
  "tx_reap done f pi =
     (if f = done then Some pi
      else let f = (f + 1) AND 511 in tx_reap done f (tx_free_slot f pi))"

definition tx_complete :: "u16 \<Rightarrow> capio_internals \<Rightarrow> capio_internals option" where
  "tx_complete tx_desc_idx pi =
     (let done = tx_desc_idx AND 511 in
      do { pi \<leftarrow> tx_reap done (last_freed pi) pi; Some (pi\<lparr>last_freed := done\<rparr>) })"

definition rx_set_fields :: "nat \<Rightarrow> nat \<Rightarrow> capio_internals \<Rightarrow> capio_internals" where
  "rx_set_fields m len pi =
     pi\<lparr>mbufs := (mbufs pi)(m := (mbufs pi m)\<lparr>mb_cksum_good := True, mb_pkt_len := ucast (of_nat len :: u16),
          mb_data_len := of_nat len, mb_nb_segs := 1, mb_next := 0, mb_port := port_id pi\<rparr>)\<rparr>"

definition rx_count :: "nat \<Rightarrow> capio_internals \<Rightarrow> capio_internals" where
  "rx_count len pi = pi\<lparr>rx_pkts := rx_pkts pi + 1, rx_bytes := rx_bytes pi + of_nat len\<rparr>"

definition rx_release_pi :: "capio_internals \<Rightarrow> capio_internals option" where
  "rx_release_pi pi = do { (_, s) \<leftarrow> sfc7120_rx_release (sfc pi); Some (pi\<lparr>sfc := s\<rparr>) }"

text \<open>\<open>rte_memcpy(rte_pktmbuf_mtod(m, void *), pkt, plen)\<close>; \<open>pkt\<close> points into the RX buffer.\<close>

definition rx_copy :: "nat \<Rightarrow> nat \<Rightarrow> nat \<Rightarrow> capio_internals \<Rightarrow> capio_internals option" where
  "rx_copy m pkt plen pi =
     (let b = mbufs pi m; off = unat (mb_data_off b) in
      do { bs \<leftarrow> buf_load (rx_buffer (snd (sfc pi))) pkt plen;
           if off + plen \<le> unat (mb_buf_len b)
           then Some (pi\<lparr>mbufs := (mbufs pi)(m := b\<lparr>mb_mem :=
                  (\<lambda>i. if off \<le> i \<and> i < off + plen then bs ! (i - off) else mb_mem b i)\<rparr>)\<rparr>)
           else None })"

text \<open>The end of an RX event: \<open>m\<close> goes to the caller, \<open>repl\<close> into the ring.\<close>

definition rx_finish :: "dpdk \<Rightarrow> nat \<Rightarrow> nat \<Rightarrow> nat \<Rightarrow> capio_internals \<Rightarrow> (nat option \<times> capio_internals) option" where
  "rx_finish d m repl len pi =
     (if len = 0 then do { pi \<leftarrow> capio_post_mbuf d repl (rte_pktmbuf_free m pi); Some (None, pi) }
      else do { pi \<leftarrow> capio_post_mbuf d repl (rx_set_fields m len pi); Some (Some m, rx_count len pi) })"

text \<open>An RX event whose slot still holds a library buffer (or in copy mode): \<open>repl\<close> takes the frame.\<close>

definition rx_library_slot :: "dpdk \<Rightarrow> nic_env \<Rightarrow> bool \<Rightarrow> u16 \<Rightarrow> nat \<Rightarrow> capio_internals \<Rightarrow>
    (nat option \<times> capio_internals) option" where
  "rx_library_slot d nic copy nbytes repl pi =
     do { (r, out, s) \<leftarrow> sfc7120_rx_peek nic nbytes (sfc pi);
          let pi = pi\<lparr>sfc := s\<rparr>;
          (case out of
             Some (pkt, plen, _) \<Rightarrow>
               if r \<noteq> 0 \<or> plen = 0 then do { pi \<leftarrow> rx_release_pi (rte_pktmbuf_free repl pi); Some (None, pi) }
               else let m = repl; (repl, pi) = capio_mbuf_get d pi in
                 if repl = 0
                 then do { pi \<leftarrow> rx_release_pi (rte_pktmbuf_free m (pi\<lparr>rx_nombuf := rx_nombuf pi + 1\<rparr>)); Some (None, pi) }
                 else do { pi \<leftarrow> rx_copy m pkt plen pi;
                           if copy
                           then do { pi \<leftarrow> rx_release_pi (rte_pktmbuf_free repl pi);
                                     Some (Some m, rx_count plen (rx_set_fields m plen pi)) }
                           else rx_finish d m repl plen pi }
           | None \<Rightarrow> do { pi \<leftarrow> rx_release_pi (rte_pktmbuf_free repl pi); Some (None, pi) }) }"

datatype rx_outcome = Next "nat option" | Break

text \<open>One round of the event loop.\<close>

definition rx_event :: "dpdk \<Rightarrow> nic_env \<Rightarrow> bool \<Rightarrow> sfc7120_ev_t \<Rightarrow> capio_internals \<Rightarrow>
    (rx_outcome \<times> capio_internals) option" where
  "rx_event d nic copy ev pi =
     (if ev_type ev \<noteq> SFC7120_EV_RX
      then if ev_type ev = SFC7120_EV_TX
           then do { pi \<leftarrow> tx_complete (ev_tx_desc_idx ev) pi; Some (Next None, pi) }
           else Some (Next None, pi)
      else do {
        (r, out, s) \<leftarrow> sfc7120_rx_peek_ext nic (ev_rx_bytes ev) (sfc pi);
        let pi = pi\<lparr>sfc := s\<rparr>;
        (case out of
           Some (cookie, len) \<Rightarrow>
             if r \<noteq> 0 then Some (Break, pi)
             else let (repl, pi) = capio_mbuf_get d pi in
             if repl = 0
             then let pi = pi\<lparr>rx_nombuf := rx_nombuf pi + 1\<rparr> in
                  do { pi \<leftarrow> (if cookie \<noteq> 0 then capio_post_mbuf d cookie pi else rx_release_pi pi);
                       Some (Next None, pi) }
             else let cookie = (if copy then 0 else cookie) in
             if cookie = 0
             then do { (m, pi) \<leftarrow> rx_library_slot d nic copy (ev_rx_bytes ev) repl pi; Some (Next m, pi) }
             else let pi = pi\<lparr>mbufs := (mbufs pi)(cookie := (mbufs pi cookie)
                          \<lparr>mb_data_off := mb_data_off (mbufs pi cookie) + 14\<rparr>)\<rparr> in
                  do { (m, pi) \<leftarrow> rx_finish d cookie repl len pi; Some (Next m, pi) }
         | None \<Rightarrow> Some (Break, pi)) })"

primrec rx_events :: "dpdk \<Rightarrow> nic_env \<Rightarrow> bool \<Rightarrow> sfc7120_ev_t list \<Rightarrow> capio_internals \<Rightarrow>
    (nat list \<times> capio_internals) option" where
  "rx_events d nic copy [] pi = Some ([], pi)"
| "rx_events d nic copy (ev # evs) pi =
     do { (out, pi) \<leftarrow> rx_event d nic copy ev pi;
          (case out of
             Break \<Rightarrow> Some ([], pi)
           | Next m \<Rightarrow> do { (ms, pi) \<leftarrow> rx_events d nic copy evs pi;
                            Some (case m of None \<Rightarrow> ms | Some m \<Rightarrow> m # ms, pi) }) }"

definition eth_capio_rx :: "dpdk \<Rightarrow> nic_env \<Rightarrow> bool \<Rightarrow> u16 \<Rightarrow> capio_internals \<Rightarrow>
    (nat list \<times> capio_internals) option" where
  "eth_capio_rx d nic copy nb_bufs pi =
     (if nb_bufs = 0 then Some ([], pi)
      else let nb_bufs = (if nb_bufs > 32 then 32 else nb_bufs) in
      do { (n_ev, evs, s) \<leftarrow> sfc7120_user_poll nic (int (unat nb_bufs)) (sfc pi);
           let pi = pi\<lparr>sfc := s\<rparr>;
           if n_ev \<le> 0 then Some ([], pi)
           else do { (ms, pi) \<leftarrow> rx_events d nic copy evs pi;
                     s \<leftarrow> sfc7120_rx_flush (sfc pi);
                     Some (ms, pi\<lparr>sfc := s\<rparr>) } })"

section \<open>Transmit\<close>

text \<open>The bytes \<open>rte_pktmbuf_mtod(m)\<close> points to; reading past the buffer faults.\<close>

definition mbuf_bytes :: "mbuf \<Rightarrow> nat \<Rightarrow> u8 list option" where
  "mbuf_bytes b n =
     (if unat (mb_data_off b) + n \<le> unat (mb_buf_len b) then Some (bytes_at (mb_mem b) (unat (mb_data_off b)) n)
      else None)"

text \<open>The segments of a chain copied one after the other into \<open>linbuf\<close>.\<close>

partial_function (option) linearize :: "(nat \<Rightarrow> mbuf) \<Rightarrow> nat \<Rightarrow> u8 list \<Rightarrow> u8 list option" where
  "linearize heap seg linbuf =
     (if seg = 0 then Some linbuf
      else do { bs \<leftarrow> mbuf_bytes (heap seg) (unat (mb_data_len (heap seg)));
                if length linbuf + length bs > SFC7120_TX_BUFFER_SIZE then None
                else linearize heap (mb_next (heap seg)) (linbuf @ bs) })"

definition pad_frame :: "u8 list \<Rightarrow> u8 list" where
  "pad_frame bs = bs @ replicate (60 - length bs) 0"

definition tx_sent :: "nat \<Rightarrow> capio_internals \<Rightarrow> capio_internals" where
  "tx_sent len pi = pi\<lparr>tx_pkts := tx_pkts pi + 1, tx_bytes := tx_bytes pi + of_nat len\<rparr>"

definition tx_drop :: "capio_internals \<Rightarrow> capio_internals" where
  "tx_drop pi = pi\<lparr>tx_dropped := tx_dropped pi + 1\<rparr>"

definition tx_posted :: "capio_internals \<Rightarrow> capio_internals" where
  "tx_posted pi = pi\<lparr>tx_inflight_cnt := tx_inflight_cnt pi + 1\<rparr>"

text \<open>A chained mbuf goes out through the copying post.\<close>

definition tx_chain :: "nat \<Rightarrow> capio_internals \<Rightarrow> capio_internals option" where
  "tx_chain m pi =
     (if unat (mb_pkt_len (mbufs pi m)) \<le> SFC7120_TX_BUFFER_SIZE
      then do { bs \<leftarrow> linearize (mbufs pi) m [];
                let bs = pad_frame bs;
                (r, s) \<leftarrow> sfc7120_tx_post bs (length bs) (sfc pi);
                let pi = pi\<lparr>sfc := s\<rparr>;
                Some (rte_pktmbuf_free m (if r = 0 then tx_sent (length bs) pi else tx_drop pi)) }
      else Some (rte_pktmbuf_free m (tx_drop pi)))"

text \<open>A frame copied into the library's TX slot; \<open>True\<close> is \<open>continue\<close>, \<open>False\<close> is \<open>break\<close>.\<close>

definition tx_copy_post :: "nat \<Rightarrow> u8 list \<Rightarrow> capio_internals \<Rightarrow> (bool \<times> capio_internals) option" where
  "tx_copy_post m bs pi =
     do { (r, s) \<leftarrow> sfc7120_tx_post bs (length bs) (sfc pi);
          let pi = pi\<lparr>sfc := s\<rparr>;
          Some (if r \<noteq> 0 then (False, rte_pktmbuf_free m (tx_drop pi))
                else (True, tx_sent (length bs) (tx_posted (rte_pktmbuf_free m pi)))) }"

definition tx_mbuf :: "dpdk \<Rightarrow> nat \<Rightarrow> capio_internals \<Rightarrow> (bool \<times> capio_internals) option" where
  "tx_mbuf d m pi =
     (let b = mbufs pi m; len = unat (mb_pkt_len b) in
      if mb_nb_segs b \<noteq> 1 then do { pi \<leftarrow> tx_chain m pi; Some (True, pi) }
      else if tx_inflight_cnt pi \<ge> SFC7120_NUM_TX_DESC - 16
      then Some (False, rte_pktmbuf_free m (tx_drop pi))
      else if len < 60 then do { bs \<leftarrow> mbuf_bytes b len; tx_copy_post m (pad_frame bs) pi }
      else if tx_copy_mode pi then do { bs \<leftarrow> mbuf_bytes b len; tx_copy_post m bs pi }
      else let tx_slot = u_tx_head (fst (sfc pi)) AND 511 in
           do { (r, s) \<leftarrow> sfc7120_tx_post_paddr_nodbl (d_data_iova d b) len (sfc pi);
                let pi = pi\<lparr>sfc := s\<rparr>;
                Some (if r \<noteq> 0 then (False, rte_pktmbuf_free m (tx_drop pi))
                      else (True, tx_sent len (tx_posted (pi\<lparr>inflight := (inflight pi)(unat tx_slot := m)\<rparr>)))) })"

text \<open>The number of mbufs consumed, and the state.\<close>

primrec tx_loop :: "dpdk \<Rightarrow> nat list \<Rightarrow> capio_internals \<Rightarrow> (nat \<times> capio_internals) option" where
  "tx_loop d [] pi = Some (0, pi)"
| "tx_loop d (m # bufs) pi =
     do { (go, pi) \<leftarrow> tx_mbuf d m pi;
          if go then do { (i, pi) \<leftarrow> tx_loop d bufs pi; Some (Suc i, pi) } else Some (0, pi) }"

definition eth_capio_tx :: "dpdk \<Rightarrow> nat list \<Rightarrow> capio_internals \<Rightarrow> (nat \<times> capio_internals) option" where
  "eth_capio_tx d bufs pi =
     do { (i, pi) \<leftarrow> tx_loop d bufs pi;
          if i > 0 then do { s \<leftarrow> sfc7120_tx_flush (sfc pi); Some (i, pi\<lparr>sfc := s\<rparr>) } else Some (i, pi) }"

section \<open>Device operations\<close>

record rte_eth_dev =
  dev_private :: capio_internals
  link_status :: bool
  nb_rx_queues :: nat
  nb_tx_queues :: nat
  rx_queue_started :: "nat \<Rightarrow> bool"
  tx_queue_started :: "nat \<Rightarrow> bool"
  rx_queue_set :: "nat \<Rightarrow> bool"
  tx_queue_set :: "nat \<Rightarrow> bool"
  mac_addrs :: "u8 list"

definition eth_dev_start :: "rte_eth_dev \<Rightarrow> rte_eth_dev" where
  "eth_dev_start dev = dev\<lparr>mac_addrs := mac (dev_private dev), link_status := True,
     rx_queue_started := (\<lambda>i. i < nb_rx_queues dev \<or> rx_queue_started dev i),
     tx_queue_started := (\<lambda>i. i < nb_tx_queues dev \<or> tx_queue_started dev i)\<rparr>"

definition eth_dev_stop :: "rte_eth_dev \<Rightarrow> rte_eth_dev" where
  "eth_dev_stop dev = dev\<lparr>link_status := False,
     rx_queue_started := (\<lambda>i. \<not> i < nb_rx_queues dev \<and> rx_queue_started dev i),
     tx_queue_started := (\<lambda>i. \<not> i < nb_tx_queues dev \<and> tx_queue_started dev i)\<rparr>"

definition eth_dev_close :: "user_env \<Rightarrow> bool \<Rightarrow> rte_eth_dev \<Rightarrow> rte_eth_dev option" where
  "eth_dev_close env primary dev =
     (let pi = dev_private dev in
      if primary \<and> started pi
      then do { s \<leftarrow> sfc7120_destroy env (sfc pi); Some (dev\<lparr>dev_private := pi\<lparr>sfc := s, started := False\<rparr>\<rparr>) }
      else Some dev)"

definition eth_rx_queue_setup :: "u16 \<Rightarrow> u16 \<Rightarrow> rte_eth_dev \<Rightarrow> errno \<times> rte_eth_dev" where
  "eth_rx_queue_setup rx_queue_id port dev =
     (if rx_queue_id \<noteq> 0 then (ENODEV, dev)
      else (OK, dev\<lparr>dev_private := (dev_private dev)\<lparr>port_id := port\<rparr>,
                    rx_queue_set := (rx_queue_set dev)(0 := True)\<rparr>))"

definition eth_tx_queue_setup :: "u16 \<Rightarrow> rte_eth_dev \<Rightarrow> errno \<times> rte_eth_dev" where
  "eth_tx_queue_setup tx_queue_id dev =
     (if tx_queue_id \<noteq> 0 then (ENODEV, dev) else (OK, dev\<lparr>tx_queue_set := (tx_queue_set dev)(0 := True)\<rparr>))"

definition eth_link_update :: "rte_eth_dev \<Rightarrow> rte_eth_dev" where
  "eth_link_update dev = dev\<lparr>link_status := True\<rparr>"

definition eth_stats_get :: "rte_eth_dev \<Rightarrow> u64 \<times> u64 \<times> u64 \<times> u64 \<times> u64 \<times> u64" where
  "eth_stats_get dev = (let pi = dev_private dev in
     (rx_pkts pi, rx_bytes pi, rx_nombuf pi, tx_pkts pi, tx_bytes pi, tx_dropped pi))"

definition eth_stats_reset :: "rte_eth_dev \<Rightarrow> rte_eth_dev" where
  "eth_stats_reset dev = dev\<lparr>dev_private := (dev_private dev)
     \<lparr>rx_pkts := 0, rx_bytes := 0, rx_nombuf := 0, tx_pkts := 0, tx_bytes := 0, tx_dropped := 0,
      last_freed := 511, tx_inflight_cnt := 0\<rparr>\<rparr>"

text \<open>\<open>memset(pi, 0, sizeof(*pi))\<close>, over the heap and the kernel that were there before.\<close>

definition zero_user :: user_if where
  "zero_user = \<lparr>u_fd = True, u_modmap_fd = True, u_cap_req = \<lparr>cr_user_cap = null_cap, cr_sealed_cap = null_cap\<rparr>,
     u_mac_addr = replicate 6 0, u_tx_buffer = False, u_rx_buffer = False, u_tx_desc_ring = False,
     u_rx_desc_ring = False, u_evq_ring = False, u_mmio_slices = None, u_mmio_slices_len = 0,
     u_vi_info = \<lparr>vi_tx_buffer_paddr = 0, vi_rx_buffer_paddr = 0, vi_vi_base = 0, vi_evq_instance = 0,
       vi_rxq_instance = 0, vi_txq_instance = 0, vi_num_tx_desc = 0, vi_num_rx_desc = 0, vi_num_evq_entry = 0,
       vi_tx_head = 0, vi_rx_head = 0, vi_evq_read_ptr = 0\<rparr>,
     u_vi_info_valid = False, u_evq_read_ptr = 0, u_used_poll = False, u_rx_window = 0, u_rx_head = 0,
     u_tx_head = 0, u_region_maps = (\<lambda>_. None), u_rx_ext_cookie = (\<lambda>_. 0), u_cap_token = None\<rparr>"

definition pi_zero :: "softc \<Rightarrow> (nat \<Rightarrow> mbuf) \<Rightarrow> pool_ev list \<Rightarrow> capio_internals" where
  "pi_zero sc heap evs = \<lparr>sfc = (zero_user, sc), mbufs = heap, pool = evs, stash = [], port_id = 0, rx_pkts = 0,
     rx_bytes = 0, rx_nombuf = 0, inflight = (\<lambda>_. 0), last_freed = 0, tx_inflight_cnt = 0, tx_pkts = 0,
     tx_bytes = 0, tx_dropped = 0, tx_copy_mode = False, started = False, mac = replicate 6 0\<rparr>"

text \<open>
  \<open>allocated\<close>: \<open>rte_eth_vdev_allocate\<close> succeeded; \<open>copy_env\<close>: CAPIO_TX_COPY is set. The
  result carries the new device, if it stays.
\<close>

definition eth_dev_capio_create :: "user_env \<Rightarrow> bool \<Rightarrow> bool \<Rightarrow> softc \<Rightarrow> (nat \<Rightarrow> mbuf) \<Rightarrow> pool_ev list \<Rightarrow>
    (errno \<times> rte_eth_dev option \<times> softc) option" where
  "eth_dev_capio_create env allocated copy_env sc heap evs =
     (if \<not> allocated then Some (ENOMEM, None, sc)
      else let pi = pi_zero sc heap evs in
      do { (r, s) \<leftarrow> sfc7120_init env (sfc pi);
           let pi = pi\<lparr>sfc := s\<rparr>;
           if r \<noteq> 0 then let pi = pi\<lparr>tx_copy_mode := copy_env\<rparr> in Some (EIO, None, snd (sfc pi))
           else let pi = pi\<lparr>mac := u_mac_addr (fst s), started := True\<rparr> in
           Some (OK, Some \<lparr>dev_private = pi, link_status = False, nb_rx_queues = 1, nb_tx_queues = 1,
             rx_queue_started = (\<lambda>_. False), tx_queue_started = (\<lambda>_. False), rx_queue_set = (\<lambda>_. False),
             tx_queue_set = (\<lambda>_. False), mac_addrs = mac pi\<rparr>, snd s) })"

text \<open>\<open>args\<close>: no device argument, an argument string that does not parse, or a path.\<close>

definition rte_pmd_capio_probe :: "user_env \<Rightarrow> bool \<Rightarrow> bool \<Rightarrow> (unit + string) option \<Rightarrow> softc \<Rightarrow>
    (nat \<Rightarrow> mbuf) \<Rightarrow> pool_ev list \<Rightarrow> (errno \<times> rte_eth_dev option \<times> softc) option" where
  "rte_pmd_capio_probe env allocated copy_env args sc heap evs =
     (case args of
        Some (Inl ()) \<Rightarrow> Some (EINVAL, None, sc)
      | _ \<Rightarrow> eth_dev_capio_create env allocated copy_env sc heap evs)"

definition rte_pmd_capio_remove :: "user_env \<Rightarrow> bool \<Rightarrow> rte_eth_dev option \<Rightarrow> (errno \<times> softc option) option" where
  "rte_pmd_capio_remove env primary dev =
     (case dev of
        None \<Rightarrow> Some (OK, None)
      | Some dev \<Rightarrow> do { dev \<leftarrow> eth_dev_close env primary dev; Some (OK, Some (snd (sfc (dev_private dev)))) })"

section \<open>Completions\<close>

text \<open>The slots the reaping loop visits.\<close>

definition reap_count :: "u16 \<Rightarrow> u16 \<Rightarrow> nat" where
  "reap_count done f = (unat done + 512 - unat f) mod 512"

definition reap_slots :: "u16 \<Rightarrow> u16 \<Rightarrow> nat list" where
  "reap_slots done f = map (\<lambda>k. (unat f + 1 + k) mod 512) [0..<reap_count done f]"

lemma ring_inj:
  assumes "(a + i) mod n = (a + j) mod (n :: nat)" "i < n" "j < n"
  shows "i = j"
proof -
  have "x = y" if "(a + x) mod n = (a + y) mod n" "x \<le> y" "y < n" for x y
  proof -
    have "n dvd (a + y) - (a + x)" using that mod_eq_dvd_iff_nat [of "a + x" "a + y" n] by simp
    then have "n dvd y - x" by simp
    then have "y - x = 0" using that(3) by (metis dvd_imp_le leD less_imp_diff_less not_gr0)
    then show ?thesis using that(2) by simp
  qed
  from this [of i j] this [of j i] assms show ?thesis by (cases "i \<le> j") auto
qed

lemma ring_dist:
  assumes "a < 512" "b < (512 :: nat)"
  shows "(a + 512 - b) mod 512 = (if b \<le> a then a - b else a + 512 - b)"
proof (cases "b \<le> a")
  case True
  then have e: "a + 512 - b = (a - b) + 512" by simp
  show ?thesis unfolding e mod_add_self2 using True assms by simp
next
  case False
  then show ?thesis by (intro trans [OF mod_less]) simp_all
qed

lemma reap_Suc:
  assumes "unat done < 512" "unat f < 512" "f \<noteq> done"
  shows "reap_count done f = Suc (reap_count done ((f + 1) AND 511))"
    "reap_slots done f = unat ((f + 1) AND 511) # reap_slots done ((f + 1) AND 511)"
proof -
  let ?g = "(f + 1) AND 511"
  have g: "unat ?g = Suc (unat f) mod 512" by (rule ring512h.unat_next)
  have ne: "unat f \<noteq> unat done" using assms(3) by (simp add: word_unat_eq_iff)
  show c: "reap_count done f = Suc (reap_count done ?g)"
  proof -
    have "unat ?g < 512" by (rule ring512h.and_msk_less)
    note c = ring_dist [OF assms(1,2)] ring_dist [OF assms(1) this]
    have "unat ?g = (if unat f = 511 then 0 else Suc (unat f))" using g assms(2) by simp
    then show ?thesis unfolding reap_count_def c using assms(1,2) ne by auto
  qed
  have "reap_slots done f = Suc (unat f) mod 512 # map (\<lambda>k. (unat f + 1 + Suc k) mod 512) [0..<reap_count done ?g]"
    unfolding reap_slots_def c by (simp add: upt_conv_Cons map_Suc_upt [symmetric] del: upt_Suc)
  also have "map (\<lambda>k. (unat f + 1 + Suc k) mod 512) [0..<reap_count done ?g] = reap_slots done ?g"
    unfolding reap_slots_def g
  proof (intro map_cong refl)
    show "(unat f + 1 + Suc k) mod 512 = (Suc (unat f) mod 512 + 1 + k) mod 512" for k
      using mod_add_left_eq [of "Suc (unat f)" 512 "1 + k"] by (simp add: add.assoc)
  qed
  finally show "reap_slots done f = unat ?g # reap_slots done ?g" using g by simp
qed

lemma reap_0: "unat f < 512 \<Longrightarrow> reap_slots f f = []" "unat f < 512 \<Longrightarrow> reap_count f f = 0"
  by (simp_all add: reap_slots_def reap_count_def)

lemma reap_slots_distinct: "distinct (reap_slots done f)" "set (reap_slots done f) \<subseteq> {..<512}"
proof -
  have c: "reap_count done f < 512" by (simp add: reap_count_def)
  show "distinct (reap_slots done f)"
    unfolding reap_slots_def distinct_map
  proof (intro conjI inj_onI distinct_upt)
    fix i j assume "i \<in> set [0..<reap_count done f]" "j \<in> set [0..<reap_count done f]"
      and eq: "(unat f + 1 + i) mod 512 = (unat f + 1 + j) mod 512"
    with c show "i = j" by (intro ring_inj [OF eq]) simp_all
  qed
  show "set (reap_slots done f) \<subseteq> {..<512}" by (auto simp: reap_slots_def)
qed

lemma tx_free_slot_eq:
  "tx_free_slot f pi = pi\<lparr>pool := pool pi @ (if inflight pi (unat f) \<noteq> 0 then [MbFree (inflight pi (unat f))] else []),
     inflight := (inflight pi)(unat f := 0), tx_inflight_cnt := of_nat (unat (tx_inflight_cnt pi) - 1)\<rparr>"
proof -
  have "(inflight pi)(unat f := 0) = inflight pi" if "inflight pi (unat f) = 0" using that by auto
  moreover have "of_nat (unat c - 1) = (if c > 0 then c - 1 else c)" for c :: u32
    by (cases "c = 0") (simp_all add: word_gt_0 unat_minus_one [symmetric] del: One_nat_def)
  ultimately show ?thesis by (simp add: tx_free_slot_def rte_pktmbuf_free_def Let_def)
qed

text \<open>The state after the slots of a list were freed one after the other.\<close>

definition freed :: "nat list \<Rightarrow> capio_internals \<Rightarrow> capio_internals" where
  "freed ss pi = pi\<lparr>pool := pool pi @ map MbFree (filter (\<lambda>m. m \<noteq> 0) (map (inflight pi) ss)),
     inflight := (\<lambda>s. if s \<in> set ss then 0 else inflight pi s),
     tx_inflight_cnt := of_nat (unat (tx_inflight_cnt pi) - length ss)\<rparr>"

lemma freed_Nil: "freed [] pi = pi"
  by (rule capio_internals.equality) (simp_all add: freed_def)

lemma freed_Cons:
  assumes "unat g \<notin> set ss"
  shows "freed ss (tx_free_slot g pi) = freed (unat g # ss) pi"
proof -
  have m: "map ((inflight pi)(unat g := 0)) ss = map (inflight pi) ss" using assms by (rule map_fun_upd)
  have "unat (tx_inflight_cnt pi) - 1 < 2 ^ LENGTH(32)" by (rule less_imp_diff_less) (rule unsigned_less)
  then have c: "unat (of_nat (unat (tx_inflight_cnt pi) - 1) :: u32) = unat (tx_inflight_cnt pi) - 1"
    unfolding unat_of_nat by (rule mod_less)
  show ?thesis
  proof (rule capio_internals.equality)
    show "pool (freed ss (tx_free_slot g pi)) = pool (freed (unat g # ss) pi)"
      by (simp add: freed_def tx_free_slot_eq m del: fun_upd_apply)
    show "inflight (freed ss (tx_free_slot g pi)) = inflight (freed (unat g # ss) pi)"
      by (auto simp: freed_def tx_free_slot_eq)
    show "tx_inflight_cnt (freed ss (tx_free_slot g pi)) = tx_inflight_cnt (freed (unat g # ss) pi)"
      using c by (simp add: freed_def tx_free_slot_eq)
  qed (simp_all add: freed_def tx_free_slot_eq)
qed

lemma tx_reap_eq:
  assumes "unat done < 512" "unat f < 512"
  shows "tx_reap done f pi = Some (freed (reap_slots done f) pi)"
  using assms
proof (induction "reap_count done f" arbitrary: f pi)
  case 0
  have "f = done"
  proof (rule ccontr)
    assume "f \<noteq> done"
    from reap_Suc(1) [OF 0(2,3) this] 0(1) show False by simp
  qed
  with reap_0(1) [OF 0(3)] have "reap_slots done f = []" by simp
  with \<open>f = done\<close> show ?case by (subst tx_reap.simps) (simp add: freed_Nil)
next
  case (Suc n)
  have ne: "f \<noteq> done" using Suc.hyps(2) reap_0(2) [OF Suc.prems(2)] by auto
  let ?g = "(f + 1) AND 511"
  note s = reap_Suc [OF Suc.prems ne]
  have g: "unat ?g < 512" by (rule ring512h.and_msk_less)
  have "tx_reap done f pi = tx_reap done ?g (tx_free_slot ?g pi)" using ne by (subst tx_reap.simps) (simp add: Let_def)
  moreover have "n = reap_count done ?g" using Suc.hyps(2) s(1) by simp
  then have "tx_reap done ?g (tx_free_slot ?g pi) = Some (freed (reap_slots done ?g) (tx_free_slot ?g pi))"
    by (rule Suc.hyps(1) [OF _ Suc.prems(1) g])
  moreover have "freed (reap_slots done ?g) (tx_free_slot ?g pi) = freed (reap_slots done f) pi"
    unfolding s(2) by (rule freed_Cons) (use reap_slots_distinct(1) [of "done" f] s(2) in simp)
  ultimately show ?case by simp
qed

text \<open>
  C22: Transmit completions free exactly what the NIC has finished. A TX event with index \<open>idx\<close> makes
  the driver free the mbufs of the slots after the last freed one up to \<open>idx\<close> mod 512, in ring
  order and each once, and forget them; the loop ends for every index; the in-flight count goes down
  by the number of slots (not below 0), and no other slot, mbuf or ring position changes.
\<close>

theorem tx_completion_exact:
  assumes "unat (last_freed pi) < 512"
  shows "let done = idx AND 511; slots = reap_slots done (last_freed pi) in
    distinct slots \<and> (slots \<noteq> [] \<longrightarrow> last slots = unat done) \<and>
    tx_complete idx pi = Some (pi\<lparr>last_freed := done,
      pool := pool pi @ map MbFree (filter (\<lambda>m. m \<noteq> 0) (map (inflight pi) slots)),
      inflight := (\<lambda>s. if s \<in> set slots then 0 else inflight pi s),
      tx_inflight_cnt := of_nat (unat (tx_inflight_cnt pi) - length slots)\<rparr>)"
proof -
  let ?d = "idx AND 511"
  have d: "unat ?d < 512" by (rule ring512h.and_msk_less)
  have "last (reap_slots ?d f) = unat ?d" if "unat f < 512" "reap_slots ?d f \<noteq> []" for f
    using that
  proof (induction "reap_count ?d f" arbitrary: f)
    case 0
    then show ?case by (simp add: reap_slots_def)
  next
    case (Suc n)
    have ne: "f \<noteq> ?d" using Suc.hyps(2) reap_0(2) [OF Suc.prems(1)] by auto
    note s = reap_Suc [OF d Suc.prems(1) ne]
    have g: "unat ((f + 1) AND 511) < 512" by (rule ring512h.and_msk_less)
    show ?case
    proof (cases "reap_slots ?d ((f + 1) AND 511) = []")
      case True
      then have "reap_count ?d ((f + 1) AND 511) = 0" by (simp add: reap_slots_def)
      then have "(f + 1) AND 511 = ?d" using reap_Suc(1) [OF d g] by (metis nat.distinct(1))
      with True s(2) show ?thesis by simp
    next
      case False
      then show ?thesis using Suc.hyps(1) [of "(f + 1) AND 511"] Suc.hyps(2) s g by simp
    qed
  qed
  with assms show ?thesis
    using tx_reap_eq [OF d assms] reap_slots_distinct(1) by (simp add: tx_complete_def Let_def freed_def)
qed

definition example_mbuf :: mbuf where
  "example_mbuf = \<lparr>mb_mem = (\<lambda>_. 0), mb_buf_len = 2176, mb_data_off = 128, mb_data_len = 64, mb_pkt_len = 64,
     mb_nb_segs = 1, mb_next = 0, mb_port = 0, mb_cksum_good = False\<rparr>"

definition example_pi :: capio_internals where
  "example_pi = (pi_zero example_softc (\<lambda>_. example_mbuf) [])
     \<lparr>sfc := (example_user, example_softc), inflight := (\<lambda>s. if s = 1 then 100 else if s = 2 then 200 else 0),
      tx_inflight_cnt := 2\<rparr>"

text \<open>One event for descriptor 514 completes slots 1 and 2.\<close>

theorem tx_completion_exact_witness:
  "\<exists>pi'. tx_complete 514 example_pi = Some pi' \<and> pool pi' = [MbFree 100, MbFree 200] \<and> last_freed pi' = 2 \<and>
     tx_inflight_cnt pi' = 0"
proof -
  have "reap_count 2 0 = 2" by (simp add: reap_count_def)
  then have sl: "reap_slots 2 0 = [1, 2]" by (simp add: reap_slots_def upt_rec)
  have p: "last_freed example_pi = 0" "inflight example_pi (Suc 0) = 100" "inflight example_pi 2 = 200" "pool example_pi = []"
    "tx_inflight_cnt example_pi = 2"
    by (simp_all add: example_pi_def pi_zero_def)
  show ?thesis using tx_completion_exact [of example_pi 514] sl by (simp add: p Let_def)
qed

text \<open>
  C39: An unsent mbuf is freed and also left to the caller. When the ring is nearly full,
  \<open>eth_capio_tx\<close> frees the mbuf it could not post and returns a count that does not include it, so
  by the burst contract of DPDK the caller still owns it and will free it a second time.
\<close>

theorem tx_drop_frees_unsent:
  assumes "mb_nb_segs (mbufs pi m) = 1" "496 \<le> tx_inflight_cnt pi"
  shows "\<exists>pi'. eth_capio_tx d (m # ms) pi = Some (0, pi') \<and> pool pi' = pool pi @ [MbFree m]"
  using assms by (simp add: eth_capio_tx_def tx_mbuf_def Let_def rte_pktmbuf_free_def tx_drop_def)

definition example_dpdk :: dpdk where
  "example_dpdk = \<lparr>d_data_iova_default = (\<lambda>_. 0x90000080), d_data_iova = (\<lambda>_. 0x90000080), d_tailroom = (\<lambda>_. 2048),
     d_bulk = (\<lambda>_. None), d_alloc = (\<lambda>_. 0), d_heap = (\<lambda>_ h. h)\<rparr>"

theorem tx_drop_frees_unsent_witness:
  "\<exists>pi'. eth_capio_tx example_dpdk [7] (example_pi\<lparr>tx_inflight_cnt := 500\<rparr>) = Some (0, pi') \<and> pool pi' = [MbFree 7]"
  using tx_drop_frees_unsent [of "example_pi\<lparr>tx_inflight_cnt := 500\<rparr>" 7 example_dpdk "[]"]
  by (simp add: example_pi_def pi_zero_def example_mbuf_def)

section \<open>Ownership of receive buffers\<close>

text \<open>The mbufs handed out and not given back.\<close>

fun pool_step :: "pool_ev \<Rightarrow> nat set \<Rightarrow> nat set" where
  "pool_step (MbAlloc ms) A = A \<union> set ms"
| "pool_step (MbFree m) A = A - {m}"

definition outstanding :: "pool_ev list \<Rightarrow> nat set" where
  "outstanding evs = fold pool_step evs {}"

lemma outstanding_simps [simp]:
  "outstanding (evs @ [MbAlloc ms]) = outstanding evs \<union> set ms"
  "outstanding (evs @ [MbFree m]) = outstanding evs - {m}"
  by (simp_all add: outstanding_def)

text \<open>What DPDK promises: 64 different mbufs at a time, none of them in use; every mbuf can be posted.\<close>

definition dpdk_ok :: "dpdk \<Rightarrow> bool" where
  "dpdk_ok d \<longleftrightarrow>
     (\<forall>evs ms. d_bulk d evs = Some ms \<longrightarrow> length ms = 64 \<and> distinct ms \<and> 0 \<notin> set ms \<and> set ms \<inter> outstanding evs = {}) \<and>
     (\<forall>evs. d_alloc d evs \<noteq> 0 \<longrightarrow> d_alloc d evs \<notin> outstanding evs) \<and>
     (\<forall>b. d_data_iova_default d b \<noteq> 0 \<and> d_tailroom d b \<noteq> 0)"

text \<open>The cookies of the \<open>w\<close> advertised slots, from the head on.\<close>

definition ring_list :: "nat \<Rightarrow> (nat \<Rightarrow> nat) \<Rightarrow> nat \<Rightarrow> nat list" where
  "ring_list w ck h = map (\<lambda>i. ck ((h + i) mod 512)) [0..<w]"

text \<open>
  The slots of the window. Either every advertised slot carries an mbuf, or the window divides the
  ring (the default 64, or 256) and a slot without an mbuf is one of a class of slots modulo the
  window none of which has one: a slot the driver releases is then replaced by one without an mbuf.
\<close>

definition window_full :: "nat \<Rightarrow> (nat \<Rightarrow> nat) \<Rightarrow> nat \<Rightarrow> bool" where
  "window_full w ck h \<longleftrightarrow> (\<forall>i < w. ck ((h + i) mod 512) \<noteq> 0)"

definition window_classes :: "nat \<Rightarrow> (nat \<Rightarrow> nat) \<Rightarrow> nat \<Rightarrow> bool" where
  "window_classes w ck h \<longleftrightarrow> w dvd 512 \<and>
     (\<forall>i < w. ck ((h + i) mod 512) = 0 \<longrightarrow> (\<forall>s < 512. s mod w = (h + i) mod w \<longrightarrow> ck s = 0))"

definition ring_ok :: "nat \<Rightarrow> (nat \<Rightarrow> nat) \<Rightarrow> nat \<Rightarrow> bool" where
  "ring_ok w ck h \<longleftrightarrow> 0 < w \<and> w < 512 \<and> h < 512 \<and> (window_full w ck h \<or> window_classes w ck h)"

definition nonnull :: "nat list \<Rightarrow> nat multiset" where
  "nonnull ms = mset (filter (\<lambda>m. m \<noteq> 0) ms)"

text \<open>Every mbuf the driver holds: posted for receive, in the stash, in flight.\<close>

abbreviation rx_win :: "capio_internals \<Rightarrow> nat" where
  "rx_win pi \<equiv> unat (u_rx_window (fst (sfc pi)))"

definition held :: "capio_internals \<Rightarrow> nat multiset" where
  "held pi = nonnull (ring_list (rx_win pi) (u_rx_ext_cookie (fst (sfc pi))) (unat (u_rx_head (fst (sfc pi))))) +
     mset (stash pi) + nonnull (map (inflight pi) [0..<512])"

text \<open>
  Exclusive ownership: nothing is held twice, also counting the mbufs \<open>H\<close> in the hands of the
  burst function, and all of it is outstanding.
\<close>

definition owns :: "nat multiset \<Rightarrow> capio_internals \<Rightarrow> bool" where
  "owns H pi \<longleftrightarrow> (\<forall>m. count (held pi + H) m \<le> 1) \<and> 0 \<notin># held pi + H \<and>
     set_mset (held pi + H) \<subseteq> outstanding (pool pi) \<and> unat (last_freed pi) < 512 \<and>
     user_ready (fst (sfc pi)) \<and> ring_ok (rx_win pi) (u_rx_ext_cookie (fst (sfc pi))) (unat (u_rx_head (fst (sfc pi))))"

lemma ring_list_Suc:
  "h < 512 \<Longrightarrow> ring_list (Suc n) ck h = ck h # map (\<lambda>i. ck ((h + Suc i) mod 512)) [0..<n]"
  unfolding ring_list_def by (simp add: upt_conv_Cons map_Suc_upt [symmetric] comp_def del: upt_Suc)

lemma hd_ring_list: "h < 512 \<Longrightarrow> 0 < w \<Longrightarrow> ring_list w ck h = ck h # tl (ring_list w ck h)"
  by (cases w) (simp_all add: ring_list_Suc)

lemma ring_post:
  assumes "h < 512" "0 < w" "w < 512"
  shows "ring_list w (ck((h + w) mod 512 := m)) (Suc h mod 512) = tl (ring_list w ck h) @ [m]"
proof -
  obtain n where w: "w = Suc n" using assms(2) by (cases w) simp_all
  have idx: "(Suc h mod 512 + i) mod 512 = (h + Suc i) mod 512" for i by (simp add: mod_simps)
  have "(h + Suc i) mod 512 \<noteq> (h + w) mod 512" if "i < n" for i
    using ring_inj [of h "Suc i" 512 w] that w assms(3) by auto
  then have "map (\<lambda>i. (ck((h + w) mod 512 := m)) ((h + Suc i) mod 512)) [0..<n] = map (\<lambda>i. ck ((h + Suc i) mod 512)) [0..<n]"
    by (intro map_cong refl) simp
  then show ?thesis
    unfolding w ring_list_Suc [OF assms(1)] by (simp add: ring_list_def idx)
qed

lemma nonnull_simps [simp]:
  "nonnull [] = {#}" "nonnull (m # ms) = (if m = 0 then nonnull ms else add_mset m (nonnull ms))"
  "nonnull (ms @ ms') = nonnull ms + nonnull ms'" "0 \<notin># nonnull ms"
  by (simp_all add: nonnull_def)

lemma window_next:
  "window_full w ck (Suc h mod 512) \<longleftrightarrow> (\<forall>i < w. ck ((h + Suc i) mod 512) \<noteq> 0)"
  "w dvd 512 \<Longrightarrow> window_classes w ck (Suc h mod 512) \<longleftrightarrow>
     (\<forall>i < w. ck ((h + Suc i) mod 512) = 0 \<longrightarrow> (\<forall>s < 512. s mod w = (h + Suc i) mod w \<longrightarrow> ck s = 0))"
proof -
  have idx: "(Suc h mod 512 + i) mod 512 = (h + Suc i) mod 512" for i by (simp add: mod_simps)
  then show "window_full w ck (Suc h mod 512) \<longleftrightarrow> (\<forall>i < w. ck ((h + Suc i) mod 512) \<noteq> 0)"
    by (simp add: window_full_def)
  assume w: "w dvd 512"
  then have "(Suc h mod 512) mod w = Suc h mod w" by (simp add: mod_mod_cancel)
  then have "(Suc h mod 512 + i) mod w = (h + Suc i) mod w" for i by (metis add_Suc_right add_Suc mod_add_left_eq)
  with idx w show "window_classes w ck (Suc h mod 512) \<longleftrightarrow>
     (\<forall>i < w. ck ((h + Suc i) mod 512) = 0 \<longrightarrow> (\<forall>s < 512. s mod w = (h + Suc i) mod w \<longrightarrow> ck s = 0))"
    by (simp add: window_classes_def)
qed

lemma tail_class: "w dvd 512 \<Longrightarrow> ((h + w) mod 512) mod w = h mod (w :: nat)"
  by (simp add: mod_mod_cancel)

lemma tail_ne: "Suc i < w \<Longrightarrow> w < 512 \<Longrightarrow> (h + Suc i) mod 512 \<noteq> (h + w) mod (512 :: nat)"
  using ring_inj [of h "Suc i" 512 w] by auto

lemma window_full_post:
  assumes "window_full w ck h" "m \<noteq> 0" "w < 512"
  shows "window_full w (ck((h + w) mod 512 := m)) (Suc h mod 512)"
  unfolding window_next
proof (intro allI impI)
  fix i assume i: "i < w"
  show "(ck((h + w) mod 512 := m)) ((h + Suc i) mod 512) \<noteq> 0"
  proof (cases "Suc i = w")
    case False
    then have lt: "Suc i < w" using i by simp
    then have "ck ((h + Suc i) mod 512) \<noteq> 0" using assms(1) unfolding window_full_def by blast
    then show ?thesis using tail_ne [OF lt assms(3), of h] by simp
  qed (use assms(2) in simp)
qed

lemma window_classes_post:
  assumes "window_classes w ck h" "m \<noteq> 0" "w < 512"
  shows "window_classes w (ck((h + w) mod 512 := m)) (Suc h mod 512)"
proof -
  let ?t = "(h + w) mod 512"
  have w: "w dvd 512"
    and ok: "\<And>i s. \<lbrakk>i < w; ck ((h + i) mod 512) = 0; s < 512; s mod w = (h + i) mod w\<rbrakk> \<Longrightarrow> ck s = 0"
    using assms(1) by (auto simp: window_classes_def)
  have "(ck(?t := m)) s = 0"
    if i: "i < w" "(ck(?t := m)) ((h + Suc i) mod 512) = 0" "s < 512" "s mod w = (h + Suc i) mod w" for i s
  proof (cases "Suc i = w")
    case True
    then show ?thesis using i(2) assms(2) by simp
  next
    case False
    then have lt: "Suc i < w" using i(1) by simp
    then have "ck s = 0" using ok [OF lt, of s] i(2-4) tail_ne [OF lt assms(3)] by simp
    moreover have "s \<noteq> ?t"
    proof
      assume "s = ?t"
      then have "(h + Suc i) mod w = (h + 0) mod w" using i(4) tail_class [OF w, of h] by simp
      from ring_inj [OF this] lt show False by simp
    qed
    ultimately show ?thesis by simp
  qed
  then show ?thesis unfolding window_next(2) [OF w] by blast
qed

lemma ring_ok_post:
  assumes "ring_ok w ck h" "m \<noteq> 0"
  shows "ring_ok w (ck((h + w) mod 512 := m)) (Suc h mod 512)"
  using assms window_full_post window_classes_post unfolding ring_ok_def by auto

lemma ring_release:
  assumes "ring_ok w ck h" "ck h = 0"
  shows "ring_ok w ck (Suc h mod 512)" "nonnull (ring_list w ck (Suc h mod 512)) = nonnull (ring_list w ck h)"
proof -
  have w0: "0 < w" "w < 512" and h: "h < 512" using assms(1) by (auto simp: ring_ok_def)
  have "\<not> window_full w ck h" using assms(2) w0(1) h by (auto simp: window_full_def intro!: exI [of _ 0])
  then have w: "w dvd 512"
    and ok: "\<And>i s. \<lbrakk>i < w; ck ((h + i) mod 512) = 0; s < 512; s mod w = (h + i) mod w\<rbrakk> \<Longrightarrow> ck s = 0"
    using assms(1) by (auto simp: ring_ok_def window_classes_def)
  have zero: "ck s = 0" if "s < 512" "s mod w = h mod w" for s using ok [of 0 s] that assms(2) h w0(1) by simp
  have t: "ck ((h + w) mod 512) = 0" by (rule zero) (simp_all add: tail_class [OF w])
  have "ck s = 0" if "i < w" "ck ((h + Suc i) mod 512) = 0" "s < 512" "s mod w = (h + Suc i) mod w" for i s
  proof (cases "Suc i = w")
    case True
    then show ?thesis using that zero by simp
  next
    case False
    then show ?thesis using that ok [of "Suc i" s] by simp
  qed
  then have "window_classes w ck (Suc h mod 512)" unfolding window_next(2) [OF w] by blast
  then show "ring_ok w ck (Suc h mod 512)" using w0 by (simp add: ring_ok_def)
  have "ck((h + w) mod 512 := 0) = ck" using t by auto
  then have "ring_list w ck (Suc h mod 512) = tl (ring_list w ck h) @ [0]" using ring_post [OF h w0, of ck 0] by simp
  then show "nonnull (ring_list w ck (Suc h mod 512)) = nonnull (ring_list w ck h)"
    using hd_ring_list [OF h w0(1), of ck] assms(2) by (metis append_Nil2 nonnull_simps(1-3) add.right_neutral)
qed

text \<open>The library calls that leave the RX ring alone.\<close>

definition same_rx :: "ust \<Rightarrow> ust \<Rightarrow> bool" where
  "same_rx s s' \<longleftrightarrow> u_rx_ext_cookie (fst s') = u_rx_ext_cookie (fst s) \<and> u_rx_head (fst s') = u_rx_head (fst s) \<and>
     u_rx_window (fst s') = u_rx_window (fst s) \<and> (user_ready (fst s) \<longrightarrow> user_ready (fst s'))"

lemma same_rx_trans: "same_rx s s' \<Longrightarrow> same_rx s' s'' \<Longrightarrow> same_rx s s''"
  by (simp add: same_rx_def)

lemma poll_loop_same: "user_poll_loop env n s = Some (evs, s') \<Longrightarrow> same_rx s s'"
proof (induction n arbitrary: s evs)
  case (Suc n)
  let ?s = "(fst s, data_evq_read env (snd s))"
  have "same_rx s ?s" "same_rx ?s (user_consume ?s)"
    by (auto simp: same_rx_def user_consume_def user_ready_def)
  moreover have "s' = ?s \<or> (\<exists>evs. user_poll_loop env n (user_consume ?s) = Some (evs, s'))"
    using Suc.prems by (auto simp: Let_def bind_Some_iff split: if_splits)
  ultimately show ?case using Suc.IH [of "user_consume ?s"] by (blast intro: same_rx_trans)
qed (simp add: same_rx_def)

lemma poll_same:
  assumes "sfc7120_user_poll env n s = Some (r, evs, s')"
  shows "same_rx s s'"
proof -
  have "s' = s \<or> (\<exists>evs u sc sc'. user_poll_loop env (nat n) ((fst s)\<lparr>u_used_poll := True\<rparr>, snd s) = Some (evs, u, sc) \<and>
      s' = (u, sc'))"
    using assms by (auto simp: sfc7120_user_poll_def bind_Some_iff split: if_splits)
  then show ?thesis by (auto simp: same_rx_def dest!: poll_loop_same)
qed

lemma peek_same:
  "sfc7120_rx_peek env b s = Some (r, out, s') \<Longrightarrow> same_rx s s'"
  "sfc7120_rx_peek_ext env b s = Some (r, out', s') \<Longrightarrow> same_rx s s'"
  "sfc7120_rx_flush s = Some s' \<Longrightarrow> same_rx s s'"
  by (auto simp: sfc7120_rx_peek_def sfc7120_rx_peek_ext_def sfc7120_rx_flush_def same_rx_def Let_def bind_Some_iff
      split: if_splits prod.splits)

lemma peek_ext_cookie:
  "sfc7120_rx_peek_ext env b s = Some (r, Some (cookie, len), s') \<Longrightarrow>
   cookie = u_rx_ext_cookie (fst s) (unat (u_rx_head (fst s)))"
  by (auto simp: sfc7120_rx_peek_ext_def Let_def bind_Some_iff split: if_splits prod.splits)

lemma owns_same:
  assumes "owns H pi" "same_rx (sfc pi) s"
  shows "owns H (pi\<lparr>sfc := s\<rparr>)"
  using assms by (simp add: owns_def held_def same_rx_def)

lemma owns_cong:
  assumes "owns H pi" "sfc pi' = sfc pi" "stash pi' = stash pi" "inflight pi' = inflight pi" "pool pi' = pool pi"
    "last_freed pi' = last_freed pi"
  shows "owns H pi'"
  using assms by (simp add: owns_def held_def)

abbreviation head_cookie :: "capio_internals \<Rightarrow> nat" where
  "head_cookie pi \<equiv> u_rx_ext_cookie (fst (sfc pi)) (unat (u_rx_head (fst (sfc pi))))"

lemma owns_get:
  assumes "owns H pi" "dpdk_ok d" "capio_mbuf_get d pi = (m, pi')"
  shows "owns (if m = 0 then H else add_mset m H) pi'" "sfc pi' = sfc pi"
proof -
  have o: "\<And>x. count (held pi + H) x \<le> 1" "0 \<notin># held pi + H" "set_mset (held pi + H) \<subseteq> outstanding (pool pi)"
    using assms(1) by (auto simp: owns_def)
  show "sfc pi' = sfc pi"
    using assms(3) by (auto simp: capio_mbuf_get_def Let_def split: if_splits option.splits)
  consider (stash) "stash pi \<noteq> []" | (bulk) ms where "stash pi = []" "d_bulk d (pool pi) = Some ms"
    | (one) "stash pi = []" "d_bulk d (pool pi) = None" by fastforce
  then show "owns (if m = 0 then H else add_mset m H) pi'"
  proof cases
    case stash
    then have m: "m = last (stash pi)" "pi' = pi\<lparr>stash := butlast (stash pi)\<rparr>"
      using assms(3) by (simp_all add: capio_mbuf_get_def)
    have "mset (stash pi) = add_mset m (mset (butlast (stash pi)))"
      using stash m(1) by (metis append_butlast_last_id mset.simps union_code add_mset_add_single mset_append)
    then have h: "held pi + H = held pi' + add_mset m H" by (simp add: held_def m(2))
    then have "m \<noteq> 0" using o(2) by auto
    with assms(1) h m(2) show ?thesis by (simp add: owns_def)
  next
    case bulk
    have ms: "length ms = 64" "distinct ms" "0 \<notin> set ms" "set ms \<inter> outstanding (pool pi) = {}"
      using assms(2) bulk(2) by (auto simp: dpdk_ok_def)
    then have ne: "ms \<noteq> []" by auto
    have m: "m = last ms" "pi' = pi\<lparr>mbufs := d_heap d (pool pi) (mbufs pi), pool := pool pi @ [MbAlloc ms], stash := butlast ms\<rparr>"
      using assms(3) bulk by (simp_all add: capio_mbuf_get_def)
    have "mset ms = add_mset m (mset (butlast ms))"
      using ne m(1) by (metis append_butlast_last_id mset.simps union_code add_mset_add_single mset_append)
    then have h: "held pi' + add_mset m H = held pi + H + mset ms" by (simp add: held_def m(2) bulk(1))
    have "count (held pi + H + mset ms) x \<le> 1" for x
    proof (cases "x \<in> set ms")
      case True
      then have "count (held pi + H) x = 0" using o(3) ms(4) by (meson disjoint_iff not_in_iff subsetD)
      moreover have "count (mset ms) x = 1" using True ms(2) by (simp add: distinct_count_atmost_1)
      ultimately show ?thesis by simp
    next
      case False
      then have c: "count (mset ms) x = 0" by (simp add: not_in_iff [symmetric])
      show ?thesis unfolding count_union [of "held pi + H"] c using o(1) [of x] by simp
    qed
    moreover have "m \<noteq> 0" using m(1) ne ms(3) last_in_set by metis
    moreover have "0 \<notin># held pi + H + mset ms" using o(2) ms(3) by simp
    moreover have "set_mset (held pi + H + mset ms) \<subseteq> outstanding (pool pi')" using o(3) m(2) by auto
    moreover have "sfc pi' = sfc pi" "last_freed pi' = last_freed pi" using m(2) by simp_all
    ultimately have "owns (add_mset m H) pi'" using assms(1) unfolding owns_def h by metis
    with \<open>m \<noteq> 0\<close> show ?thesis by simp
  next
    case one
    let ?p = "pool pi @ [MbAlloc []]"
    have m: "m = d_alloc d ?p" "pi' = pi\<lparr>mbufs := d_heap d ?p (mbufs pi), pool := ?p @ [MbAlloc (if m = 0 then [] else [m])]\<rparr>"
      using assms(3) one by (auto simp: capio_mbuf_get_def Let_def)
    have "m \<notin> outstanding ?p" if "m \<noteq> 0" using assms(2) that unfolding dpdk_ok_def m(1) by blast
    then have "count (held pi + H) m = 0" if "m \<noteq> 0" using o(3) that by (simp add: not_in_iff [symmetric]) blast
    then have "m \<noteq> 0 \<Longrightarrow> count (held pi + add_mset m H) x \<le> 1" for x using o(1) [of x] by auto
    moreover have "held pi' = held pi" using m(2) by (simp add: held_def)
    moreover have "outstanding (pool pi') = (if m = 0 then outstanding (pool pi) else insert m (outstanding (pool pi)))"
      unfolding m(2) by (simp add: outstanding_def)
    moreover have "sfc pi' = sfc pi" "last_freed pi' = last_freed pi" using m(2) by simp_all
    ultimately show ?thesis using assms(1) o(2,3) unfolding owns_def by (cases "m = 0") auto
  qed
qed

lemma owns_free: "owns (add_mset m H) pi \<Longrightarrow> owns H (rte_pktmbuf_free m pi)"
proof -
  assume o: "owns (add_mset m H) pi"
  have h: "held (rte_pktmbuf_free m pi) = held pi" by (simp add: held_def rte_pktmbuf_free_def)
  have c: "count (held pi + add_mset m H) x \<le> 1" for x using o by (simp add: owns_def)
  then have "count (held pi + H) m = 0" using c [of m] by simp
  then have "m \<notin># held pi + H" by (simp add: not_in_iff)
  moreover have "count (held pi + H) x \<le> 1" for x using c [of x] by (auto split: if_splits)
  ultimately show ?thesis using o h by (auto simp: owns_def rte_pktmbuf_free_def)
qed

lemma nonnull_upd:
  assumes "s < n"
  shows "nonnull (map f [0..<n]) = nonnull (map (f(s := 0)) [0..<n]) + (if f s = 0 then {#} else {#f s#})"
  using assms
proof (induction n)
  case (Suc n)
  show ?case
  proof (cases "s = n")
    case True
    have "map (f(n := 0)) [0..<n] = map f [0..<n]" by (rule map_fun_upd) simp
    then show ?thesis unfolding True upt_Suc_append [of 0 n, simplified] map_append by (simp del: fun_upd_apply) simp
  next
    case False
    then show ?thesis using Suc by simp
  qed
qed simp

lemma owns_free_slot:
  assumes "owns H pi" "unat f < 512"
  shows "owns H (tx_free_slot f pi)"
proof (cases "inflight pi (unat f) = 0")
  case True
  then have "(inflight pi)(unat f := 0) = inflight pi" by auto
  with assms(1) True show ?thesis by (simp add: owns_def held_def tx_free_slot_eq)
next
  case False
  let ?m = "inflight pi (unat f)"
  define pi1 where "pi1 = pi\<lparr>inflight := (inflight pi)(unat f := 0), tx_inflight_cnt := of_nat (unat (tx_inflight_cnt pi) - 1)\<rparr>"
  have "held pi + H = held pi1 + add_mset ?m H"
    using nonnull_upd [OF assms(2), of "inflight pi"] False by (simp add: held_def pi1_def)
  then have "owns (add_mset ?m H) pi1" using assms(1) by (simp add: owns_def) (simp add: pi1_def)
  then have "owns H (rte_pktmbuf_free ?m pi1)" by (rule owns_free)
  moreover have "tx_free_slot f pi = rte_pktmbuf_free ?m pi1"
    using False by (simp add: tx_free_slot_eq pi1_def rte_pktmbuf_free_def)
  ultimately show ?thesis by simp
qed

lemma owns_freed:
  "\<lbrakk>distinct ss; set ss \<subseteq> {..<512}; owns H pi\<rbrakk> \<Longrightarrow> owns H (freed ss pi)"
proof (induction ss arbitrary: pi)
  case (Cons s ss)
  then have s: "unat (of_nat s :: u16) = s" by (simp add: unat_of_nat)
  have "freed (s # ss) pi = freed ss (tx_free_slot (of_nat s) pi)"
    using freed_Cons [of "of_nat s" ss pi] Cons.prems(1) s by simp
  moreover have "owns H (tx_free_slot (of_nat s) pi)" using Cons.prems s by (intro owns_free_slot) auto
  ultimately show ?case using Cons by simp
qed (simp add: freed_Nil)

lemma owns_complete:
  assumes "owns H pi" "tx_complete idx pi = Some pi'"
  shows "owns H pi'"
proof -
  have d: "unat (idx AND 511) < 512" by (rule ring512h.and_msk_less)
  have f: "unat (last_freed pi) < 512" using assms(1) by (simp add: owns_def)
  let ?p = "freed (reap_slots (idx AND 511) (last_freed pi)) pi"
  have "pi' = ?p\<lparr>last_freed := idx AND 511\<rparr>" using assms(2) tx_reap_eq [OF d f] by (simp add: tx_complete_def Let_def)
  moreover have "owns H ?p" using reap_slots_distinct assms(1) by (intro owns_freed)
  ultimately show ?thesis using d by (simp add: owns_def held_def)
qed

lemma post_held:
  assumes "owns K pi" "m \<noteq> 0" "dpdk_ok d" "capio_post_mbuf d m pi = Some pi'"
  shows "held pi' + (if head_cookie pi = 0 then {#} else {#head_cookie pi#}) = add_mset m (held pi)"
    and "pool pi' = pool pi" "last_freed pi' = last_freed pi" "user_ready (fst (sfc pi'))"
    and "ring_ok (rx_win pi') (u_rx_ext_cookie (fst (sfc pi'))) (unat (u_rx_head (fst (sfc pi'))))"
proof -
  obtain u sc where s: "sfc pi = (u, sc)" by fastforce
  let ?ck = "u_rx_ext_cookie u" and ?h = "unat (u_rx_head u)" and ?w = "unat (u_rx_window u)"
  have r: "user_ready u" "ring_ok ?w ?ck ?h" "?h < 512" "0 < ?w" "?w < 512"
    using assms(1) s by (auto simp: owns_def user_ready_def ring_ok_def)
  have t: "unat ((u_rx_head u + u_rx_window u) AND 511) = (?h + ?w) mod 512" by (rule ring512.unat_add_and_msk)
  define room where "room = (if d_tailroom d (mbufs pi m) > 2048 then 2048 else d_tailroom d (mbufs pi m))"
  have n: "d_tailroom d (mbufs pi m) \<noteq> 0" "d_data_iova_default d (mbufs pi m) \<noteq> 0" using assms(3) by (auto simp: dpdk_ok_def)
  then have room: "unat room \<noteq> 0" "unat room \<le> 0x3fff"
    by (auto simp: room_def word_less_nat_alt unat_eq_zero split: if_splits)
  have "capio_post_mbuf d m pi = map_option (\<lambda>(_, s). pi\<lparr>sfc := s\<rparr>)
      (sfc7120_rx_release_paddr_nodbl (d_data_iova_default d (mbufs pi m)) (unat room) m (u, sc))"
    by (simp add: capio_post_mbuf_def room_def Let_def s map_conv_bind_option split_def comp_def)
  moreover have "\<exists>sc'. sfc7120_rx_release_paddr_nodbl (d_data_iova_default d (mbufs pi m)) (unat room) m (u, sc) =
      Some (0, u\<lparr>u_rx_ext_cookie := ?ck((?h + ?w) mod 512 := m), u_rx_head := next512 (u_rx_head u)\<rparr>, sc')"
    using r(1) room n(2) t
    by (simp add: sfc7120_rx_release_paddr_nodbl_def user_ready_def rx_desc_put_def ring_set_def Let_def)
  ultimately obtain sc' where pi': "pi' = pi\<lparr>sfc := (u\<lparr>u_rx_ext_cookie := ?ck((?h + ?w) mod 512 := m),
      u_rx_head := next512 (u_rx_head u)\<rparr>, sc')\<rparr>" using assms(4) by auto
  then show "pool pi' = pool pi" "last_freed pi' = last_freed pi" "user_ready (fst (sfc pi'))"
    using r(1) by simp_all
  have "nonnull (ring_list ?w ?ck ?h) = nonnull (tl (ring_list ?w ?ck ?h)) + (if ?ck ?h = 0 then {#} else {#?ck ?h#})"
    by (subst hd_ring_list [OF r(3,4)]) simp
  moreover have "nonnull (ring_list ?w (?ck((?h + ?w) mod 512 := m)) (Suc ?h mod 512)) = add_mset m (nonnull (tl (ring_list ?w ?ck ?h)))"
    unfolding ring_post [OF r(3-5)] using assms(2) by simp
  ultimately show "held pi' + (if head_cookie pi = 0 then {#} else {#head_cookie pi#}) = add_mset m (held pi)"
    using s by (simp add: held_def pi' unat_next512)
  show "ring_ok (rx_win pi') (u_rx_ext_cookie (fst (sfc pi'))) (unat (u_rx_head (fst (sfc pi'))))"
    using ring_ok_post [OF r(2) assms(2)] by (simp add: pi' unat_next512)
qed

text \<open>Posting takes an mbuf out of hand and leaves the previous one of the head slot in hand.\<close>

lemma owns_post:
  assumes o: "owns (add_mset m H) pi" and "dpdk_ok d" "capio_post_mbuf d m pi = Some pi'"
  shows "owns (if head_cookie pi = 0 then H else add_mset (head_cookie pi) H) pi'"
proof -
  have "m \<noteq> 0" using o by (auto simp: owns_def)
  note p = post_held [OF o this assms(2,3)]
  have "held pi' + (if head_cookie pi = 0 then H else add_mset (head_cookie pi) H) = held pi + add_mset m H"
    using p(1) by (auto split: if_splits simp: add_mset_commute)
  with o p(2-) show ?thesis unfolding owns_def by metis
qed

lemma owns_repost:
  assumes o: "owns H pi" and "dpdk_ok d" and c: "head_cookie pi \<noteq> 0" and "capio_post_mbuf d (head_cookie pi) pi = Some pi'"
  shows "owns H pi'"
proof -
  note p = post_held [OF o c assms(2,4)]
  have "held pi' = held pi" using p(1) c by simp
  with o p(2-) show ?thesis by (simp add: owns_def)
qed

lemma owns_release:
  assumes "owns H pi" "head_cookie pi = 0" "rx_release_pi pi = Some pi'"
  shows "owns H pi'"
proof -
  obtain u sc where s: "sfc pi = (u, sc)" by fastforce
  let ?ck = "u_rx_ext_cookie u" and ?h = "unat (u_rx_head u)"
  have r: "user_ready u" "ring_ok (unat (u_rx_window u)) ?ck ?h" "?ck ?h = 0" using assms(1,2) s by (auto simp: owns_def)
  have "\<exists>sc'. pi' = pi\<lparr>sfc := (u\<lparr>u_rx_head := next512 (u_rx_head u)\<rparr>, sc')\<rparr>"
    using assms(3) r(1) s
    by (auto simp: rx_release_pi_def sfc7120_rx_release_def user_ready_def Let_def bind_Some_iff)
  then obtain sc' where pi': "pi' = pi\<lparr>sfc := (u\<lparr>u_rx_head := next512 (u_rx_head u)\<rparr>, sc')\<rparr>" by blast
  with ring_release [OF r(2,3)] assms(1) r(1) s show ?thesis
    by (simp add: owns_def held_def unat_next512)
qed

lemma post_free:
  "capio_post_mbuf d m (rte_pktmbuf_free c pi) = map_option (rte_pktmbuf_free c) (capio_post_mbuf d m pi)"
  by (cases pi) (simp add: capio_post_mbuf_def rte_pktmbuf_free_def Let_def map_conv_bind_option split_def)

lemma owns_finish:
  assumes o: "owns (add_mset repl H') pi" and "dpdk_ok d"
    and H': "(if head_cookie pi = 0 then H' else add_mset (head_cookie pi) H') = add_mset m H"
    and f: "rx_finish d m repl len pi = Some (out, pi')"
  shows "owns (case out of None \<Rightarrow> H | Some x \<Rightarrow> add_mset x H) pi'"
proof (cases "len = 0")
  case True
  then obtain p where p: "capio_post_mbuf d repl pi = Some p" and "out = None" "pi' = rte_pktmbuf_free m p"
    using f by (auto simp: rx_finish_def post_free bind_Some_iff)
  with owns_post [OF o \<open>dpdk_ok d\<close> p] show ?thesis unfolding H' by (simp add: owns_free)
next
  case False
  then obtain p where p: "capio_post_mbuf d repl (rx_set_fields m len pi) = Some p" and "out = Some m" "pi' = rx_count len p"
    using f by (auto simp: rx_finish_def bind_Some_iff)
  moreover have s: "sfc (rx_set_fields m len pi) = sfc pi" by (simp add: rx_set_fields_def)
  moreover have "owns (add_mset repl H') (rx_set_fields m len pi)" by (rule owns_cong [OF o]) (simp_all add: rx_set_fields_def)
  from owns_post [OF this \<open>dpdk_ok d\<close> p] have "owns (add_mset m H) p" unfolding s H' .
  ultimately show ?thesis by (auto intro: owns_cong simp: rx_count_def)
qed

lemma owns_free_release:
  assumes "owns (add_mset m H) pi" "head_cookie pi = 0" "rx_release_pi (rte_pktmbuf_free m pi) = Some pi'"
  shows "owns H pi'"
  by (rule owns_release [OF owns_free [OF assms(1)] _ assms(3)]) (simp add: rte_pktmbuf_free_def assms(2))

lemma owns_copy:
  assumes "owns H pi" "rx_copy m pkt plen pi = Some pi'"
  shows "owns H pi'" "sfc pi' = sfc pi"
  using assms by (auto simp: rx_copy_def Let_def bind_Some_iff intro: owns_cong split: if_splits)

lemma owns_library_slot:
  assumes o: "owns (add_mset repl H) pi" and d: "dpdk_ok d" and c: "head_cookie pi = 0"
    and e: "rx_library_slot d nic False b repl pi = Some (out, pi')"
  shows "owns (case out of None \<Rightarrow> H | Some x \<Rightarrow> add_mset x H) pi'"
proof -
  obtain r w s where k: "sfc7120_rx_peek nic b (sfc pi) = Some (r, w, s)"
    using e by (auto simp: rx_library_slot_def bind_Some_iff)
  define p where "p = pi\<lparr>sfc := s\<rparr>"
  have sm: "same_rx (sfc pi) s" using peek_same(1) [OF k] .
  have p: "owns (add_mset repl H) p" "head_cookie p = 0" using owns_same [OF o sm] c sm by (auto simp: p_def same_rx_def)
  show ?thesis
  proof (cases "w = None \<or> r \<noteq> 0 \<or> fst (snd (the w)) = 0")
    case True
    then have "out = None \<and> rx_release_pi (rte_pktmbuf_free repl p) = Some pi'"
      using e k by (cases w) (auto simp: rx_library_slot_def p_def bind_Some_iff)
    with owns_free_release [OF p] show ?thesis by simp
  next
    case False
    then obtain pkt plen x where w: "w = Some (pkt, plen, x)" "r = 0" "plen \<noteq> 0" by auto
    obtain repl' q where g: "capio_mbuf_get d p = (repl', q)" by fastforce
    note og = owns_get [OF p(1) d g]
    have hq: "head_cookie q = 0" using og(2) p(2) by simp
    show ?thesis
    proof (cases "repl' = 0")
      case True
      let ?q = "q\<lparr>rx_nombuf := rx_nombuf q + 1\<rparr>"
      have "out = None" "rx_release_pi (rte_pktmbuf_free repl ?q) = Some pi'"
        using e k w g True by (auto simp: rx_library_slot_def p_def [symmetric] bind_Some_iff)
      moreover have "owns (add_mset repl H) ?q" using og(1) True by (auto intro: owns_cong)
      ultimately show ?thesis using owns_free_release [of repl H ?q] hq by simp
    next
      case False
      then obtain q' where q': "rx_copy repl pkt plen q = Some q'" "rx_finish d repl repl' plen q' = Some (out, pi')"
        using e k w g by (auto simp: rx_library_slot_def p_def [symmetric] bind_Some_iff)
      have "owns (add_mset repl' (add_mset repl H)) q" using og(1) False by simp
      from owns_copy [OF this q'(1)] owns_finish [OF _ d _ q'(2)] hq show ?thesis by simp
    qed
  qed
qed

lemma rx_event_rx:
  assumes "ev_type ev = SFC7120_EV_RX" "sfc7120_rx_peek_ext nic (ev_rx_bytes ev) (sfc pi) = Some (0, Some (c, len), s)"
    "capio_mbuf_get d (pi\<lparr>sfc := s\<rparr>) = (repl, q)"
  shows "rx_event d nic False ev pi =
     (if repl = 0
      then map_option (Pair (Next None)) (if c \<noteq> 0 then capio_post_mbuf d c (q\<lparr>rx_nombuf := rx_nombuf q + 1\<rparr>)
                                          else rx_release_pi (q\<lparr>rx_nombuf := rx_nombuf q + 1\<rparr>))
      else map_option (map_prod Next id)
        (if c = 0 then rx_library_slot d nic False (ev_rx_bytes ev) repl q
         else rx_finish d c repl len (q\<lparr>mbufs := (mbufs q)(c := (mbufs q c)\<lparr>mb_data_off := mb_data_off (mbufs q c) + 14\<rparr>)\<rparr>)))"
  using assms by (simp add: rx_event_def Let_def map_conv_bind_option split_def comp_def map_prod_def)

lemma owns_event:
  assumes o: "owns H pi" and d: "dpdk_ok d" and e: "rx_event d nic False ev pi = Some (out, pi')"
  shows "owns (case out of Next (Some x) \<Rightarrow> add_mset x H | _ \<Rightarrow> H) pi'"
proof (cases "ev_type ev = SFC7120_EV_RX")
  case False
  then show ?thesis using o e owns_complete by (auto simp: rx_event_def bind_Some_iff split: if_splits)
next
  case True
  then obtain r w s where k: "sfc7120_rx_peek_ext nic (ev_rx_bytes ev) (sfc pi) = Some (r, w, s)"
    using e by (auto simp: rx_event_def bind_Some_iff)
  define p where "p = pi\<lparr>sfc := s\<rparr>"
  have sm: "same_rx (sfc pi) s" using peek_same(2) [OF k] .
  have p: "owns H p" "head_cookie p = head_cookie pi" using owns_same [OF o sm] sm by (auto simp: p_def same_rx_def)
  show ?thesis
  proof (cases "w = None \<or> r \<noteq> 0")
    case True
    then have "out = Break \<and> pi' = p"
      using e k \<open>ev_type ev = SFC7120_EV_RX\<close> by (cases w) (auto simp: rx_event_def p_def)
    with p(1) show ?thesis by simp
  next
    case False
    then obtain len where w: "w = Some (head_cookie pi, len)" "r = 0" using peek_ext_cookie k by fastforce
    obtain repl q where g: "capio_mbuf_get d p = (repl, q)" by fastforce
    note og = owns_get [OF p(1) d g]
    have hq: "head_cookie q = head_cookie pi" using og(2) p(2) by simp
    note ev = e [unfolded rx_event_rx [OF True k [unfolded w] g [unfolded p_def]]]
    consider (none) "repl = 0" | (lib) "repl \<noteq> 0" "head_cookie pi = 0" | (zc) "repl \<noteq> 0" "head_cookie pi \<noteq> 0" by blast
    then show ?thesis
    proof cases
      case none
      let ?q = "q\<lparr>rx_nombuf := rx_nombuf q + 1\<rparr>"
      have q: "owns H ?q" "head_cookie ?q = head_cookie pi" using og(1) none hq by (auto intro: owns_cong)
      have "out = Next None" "(if head_cookie pi \<noteq> 0 then capio_post_mbuf d (head_cookie pi) ?q else rx_release_pi ?q) = Some pi'"
        using ev none by auto
      then show ?thesis using owns_repost [OF q(1) d] owns_release [OF q(1)] q(2) by (auto split: if_splits)
    next
      case lib
      then obtain m where "rx_library_slot d nic False (ev_rx_bytes ev) repl q = Some (m, pi')" "out = Next m"
        using ev by auto
      with owns_library_slot [OF _ d _ this(1)] og(1) hq lib show ?thesis by auto
    next
      case zc
      let ?c = "head_cookie pi"
      define q' where "q' = q\<lparr>mbufs := (mbufs q)(?c := (mbufs q ?c)\<lparr>mb_data_off := mb_data_off (mbufs q ?c) + 14\<rparr>)\<rparr>"
      have "owns (add_mset repl H) q'" "head_cookie q' = ?c" using og(1) zc hq by (auto simp: q'_def intro: owns_cong)
      moreover obtain m where "rx_finish d ?c repl len q' = Some (m, pi')" "out = Next m"
        using ev zc by (auto simp: q'_def)
      ultimately show ?thesis using owns_finish [of repl H q' d ?c H len m pi'] d zc by auto
    qed
  qed
qed

lemma owns_events:
  "\<lbrakk>owns H pi; dpdk_ok d; rx_events d nic False evs pi = Some (ms, pi')\<rbrakk> \<Longrightarrow> owns (H + mset ms) pi'"
proof (induction evs arbitrary: H pi ms)
  case (Cons ev evs)
  obtain out p where e: "rx_event d nic False ev pi = Some (out, p)"
    using Cons.prems(3) by (auto simp: bind_Some_iff)
  note o = owns_event [OF Cons.prems(1,2) e]
  show ?case
  proof (cases out)
    case Break
    then show ?thesis using Cons.prems(3) e o by simp
  next
    case (Next m)
    then obtain ms' where r: "rx_events d nic False evs p = Some (ms', pi')"
      and ms: "ms = (case m of None \<Rightarrow> ms' | Some m \<Rightarrow> m # ms')"
      using Cons.prems(3) e by (auto simp: bind_Some_iff)
    show ?thesis using Cons.IH [OF o Cons.prems(2) r] Next ms by (cases m) auto
  qed
qed simp

text \<open>
  C21: receiving never duplicates a buffer. If the driver owns its mbufs exclusively (the posted ones,
  the stash, the TX in-flight ones and those \<open>H\<close> the application got earlier are pairwise different
  and allocated) then after a zero-copy receive burst it still does, with the delivered mbufs added to the
  application's: they are pairwise different, none was delivered before, and none is still in the ring.
  The posted mbufs are those of the advertised window of any size from 1 to 511. A window that still has
  slots without an mbuf must divide the 512 slots (the default 64, or 256, but not 384).
\<close>

theorem rx_ownership:
  assumes "owns H pi" "dpdk_ok d" "eth_capio_rx d nic False nb_bufs pi = Some (ms, pi')"
  shows "owns (H + mset ms) pi' \<and> distinct ms \<and> set ms \<inter> (set_mset H \<union> set_mset (held pi')) = {}"
proof -
  have "owns (H + mset ms) pi'"
  proof (cases "nb_bufs = 0")
    case True
    then show ?thesis using assms by (simp add: eth_capio_rx_def)
  next
    case False
    then obtain n evs s where p: "sfc7120_user_poll nic (int (unat (if nb_bufs > 32 then 32 else nb_bufs))) (sfc pi) = Some (n, evs, s)"
      using assms(3) by (auto simp: eth_capio_rx_def Let_def bind_Some_iff split: if_splits)
    have o: "owns H (pi\<lparr>sfc := s\<rparr>)" by (rule owns_same [OF assms(1) poll_same [OF p]])
    show ?thesis
    proof (cases "n \<le> 0")
      case True
      then show ?thesis using assms(3) False p o by (simp add: eth_capio_rx_def Let_def)
    next
      case n: False
      then obtain q s' where "rx_events d nic False evs (pi\<lparr>sfc := s\<rparr>) = Some (ms, q)"
        and "sfc7120_rx_flush (sfc q) = Some s'" "pi' = q\<lparr>sfc := s'\<rparr>"
        using assms(3) False p by (auto simp: eth_capio_rx_def Let_def bind_Some_iff)
      then show ?thesis using owns_same [OF owns_events [OF o assms(2)] peek_same(3)] by simp
    qed
  qed
  then have c: "count (held pi' + H + mset ms) x \<le> 1" for x by (simp add: owns_def add.assoc)
  have 1: "count (mset ms) x \<le> 1" "count (held pi') x + count H x = 0 \<or> count (mset ms) x = 0" for x
    using c [of x] unfolding count_union by linarith+
  then have "distinct ms" by (simp add: distinct_count_atmost_1 le_Suc_eq count_mset_0_iff)
  moreover have "set ms \<inter> (set_mset H \<union> set_mset (held pi')) = {}"
    using 1(2) by (auto simp: count_eq_zero_iff)
  ultimately show ?thesis using \<open>owns (H + mset ms) pi'\<close> by simp
qed

text \<open>The head slot of the ring holds mbuf 1, 2 and 3 are in the stash, and one RX event is pending.\<close>

definition zc_pi :: capio_internals where
  "zc_pi = example_pi
     \<lparr>sfc := (example_user\<lparr>u_rx_ext_cookie := (\<lambda>s. if s = 0 then 1 else 0)\<rparr>,
              example_softc\<lparr>data_evq_ring := all_ones(0 := 0x40)\<rparr>),
      inflight := (\<lambda>_. 0), pool := [MbAlloc [1, 2, 3]], stash := [2, 3]\<rparr>"

theorem rx_ownership_witness:
  "\<exists>pi'. eth_capio_rx example_dpdk quiet_nic False 1 zc_pi = Some ([1], pi') \<and> owns {#1#} pi' \<and> 1 \<notin># held pi'"
proof -
  have "[0..<64 :: nat] = 0 # [1..<64]" by (simp add: upt_conv_Cons)
  then have r: "nonnull (ring_list 64 (\<lambda>s. if s = 0 then 1 else 0) 0) = {#1#}"
    by (simp add: ring_list_def) (simp add: nonnull_def filter_empty_conv)
  have i: "nonnull (map (\<lambda>_. 0) [0..<512]) = {#}" by (simp add: nonnull_def)
  have "held zc_pi = {#1, 2, 3#}" using r i by (simp add: held_def zc_pi_def example_user_def)
  moreover have "ring_ok 64 (\<lambda>s. if s = 0 then 1 else 0) 0" by (auto simp: ring_ok_def window_classes_def)
  ultimately have o: "owns {#} zc_pi"
    by (auto simp: owns_def zc_pi_def outstanding_def example_user_def user_ready_def example_pi_def pi_zero_def)
  have d: "dpdk_ok example_dpdk" by (auto simp: dpdk_ok_def example_dpdk_def)
  let ?u = "(fst (sfc zc_pi))\<lparr>u_used_poll := True, u_evq_read_ptr := next512 0\<rparr>"
  obtain sc where p: "sfc7120_user_poll quiet_nic 1 (sfc zc_pi) = Some (1, [decode_ev 0x40], ?u, sc)"
    by (simp add: zc_pi_def sfc7120_user_poll_def example_user_def Let_def ring_get_def data_evq_read_def io_def quiet_nic_def
        ev_is_empty_def user_consume_def slice_write_ready [simplified])
  have ev: "ev_type (decode_ev 0x40) = SFC7120_EV_RX" "ev_rx_bytes (decode_ev 0x40) = 64"
    by (simp_all add: decode_ev_def ev_code_def)
  let ?pi = "zc_pi\<lparr>sfc := (?u, sc)\<rparr>"
  have k: "sfc7120_rx_peek_ext quiet_nic 64 (sfc ?pi) = Some (0, Some (1, 50), ?u, sc)"
    by (simp add: sfc7120_rx_peek_ext_def zc_pi_def example_user_def rx_plen_def)
  have "capio_mbuf_get example_dpdk (?pi\<lparr>sfc := (?u, sc)\<rparr>) = (3, ?pi\<lparr>stash := [2]\<rparr>)"
    by (simp add: capio_mbuf_get_def zc_pi_def)
  note e = rx_event_rx [OF ev(1) k [folded ev(2)] this]
  have "\<exists>q. rx_event example_dpdk quiet_nic False (decode_ev 0x40) ?pi = Some (Next (Some 1), q)"
    unfolding e by (simp add: rx_finish_def capio_post_mbuf_def example_dpdk_def rx_set_fields_def
        zc_pi_def example_user_def sfc7120_rx_release_paddr_nodbl_def rx_desc_put_def ring_set_def Let_def)
  then obtain q where q: "rx_event example_dpdk quiet_nic False (decode_ev 0x40) ?pi = Some (Next (Some 1), q)" by blast
  moreover have "user_ready (fst (sfc q))"
    using owns_event [OF owns_same [OF o poll_same [OF p]] d q] by (simp add: owns_def)
  ultimately have "\<exists>pi'. eth_capio_rx example_dpdk quiet_nic False 1 zc_pi = Some ([1], pi')"
    using p by (auto simp: eth_capio_rx_def sfc7120_rx_flush_def doorbell_ready split: prod.splits)
  then obtain pi' where e: "eth_capio_rx example_dpdk quiet_nic False 1 zc_pi = Some ([1], pi')" by blast
  then show ?thesis using rx_ownership [OF o d e] by auto
qed

end
