(* ===== verification/Mbuf.thy ===== *)
theory Mbuf
  imports Io
begin

text \<open>
  The packet buffers of the TCP/IP stack (\<^verbatim>\<open>fstack-capio/modified-sources/freebsd/kern/uipc_mbuf.c\<close>):
  their state, packet headers, and the operations that read a chain or trim it. Memory is one byte
  map. A chain, linked by \<open>m_next\<close> in the code, is a list; NULL is the empty list. Accesses
  through \<open>m_data\<close> fault outside the bounds of that capability.

  What is in \<^verbatim>\<open>sys/mbuf.h\<close> and in the allocator is a parameter, the record \<open>mbuf_h\<close>, and
  \<open>mbuf_documented\<close> is what mbuf(9) says about it. F-Stack has no unmapped buffers, as a comment of the
  source says, so there is no flag M_EXTPG and the branches behind it are not taken. Lengths are
  below $2^{31}$ and do not wrap.
\<close>

section \<open>State\<close>

record pkthdr =
  ph_len :: int
  ph_rcvif :: nat
  ph_tags :: "nat list"
  ph_snd_tag :: "nat option"      \<comment> \<open>present if CSUM_SND_TAG is set\<close>

definition pkthdr_zero :: pkthdr where
  "pkthdr_zero = \<lparr>ph_len = 0, ph_rcvif = 0, ph_tags = [], ph_snd_tag = None\<rparr>"

datatype mflag = M_EXT | M_PKTHDR | M_EOR | M_RDONLY | M_FLAG nat

record m_ext_t =
  ext_cnt :: nat                  \<comment> \<open>address of the reference count\<close>
  ext_embref :: bool              \<comment> \<open>EXT_FLAG_EMBREF: the count is in the mbuf\<close>
  ext_extref :: bool              \<comment> \<open>type EXT_EXTREF\<close>
  ext_buf :: nat
  ext_size :: nat
  ext_free :: nat                 \<comment> \<open>free routine and its arguments\<close>

record bmbuf =
  m_obj :: "nat \<times> nat"            \<comment> \<open>bounds of the capability of the mbuf itself\<close>
  m_dat :: nat                    \<comment> \<open>address of the internal storage\<close>
  m_pktdat :: nat                 \<comment> \<open>address of the internal storage behind a packet header\<close>
  m_ext_count :: nat              \<comment> \<open>address of the embedded reference count\<close>
  m_cap :: "nat \<times> nat"            \<comment> \<open>bounds of the capability \<open>m_data\<close>\<close>
  m_data :: nat
  m_len :: nat
  m_flags :: "mflag set"
  m_pkthdr :: pkthdr
  m_ext :: m_ext_t

record 'a mst =
  mst_mem :: bytes
  mst_refs :: "nat \<Rightarrow> u32"
  mst_al :: 'a                    \<comment> \<open>state of the allocator\<close>

record 'a mbuf_h =
  h_MLEN :: nat
  h_MHLEN :: nat
  h_MCLBYTES :: nat
  h_MINCLSIZE :: nat
  h_COPYALL :: nat                                  \<comment> \<open>M_COPYALL\<close>
  h_COPYFLAGS :: "mflag set"
  h_DEMOTEFLAGS :: "mflag set"
  h_start :: "bmbuf \<Rightarrow> nat"                          \<comment> \<open>M_START\<close>
  h_size :: "bmbuf \<Rightarrow> nat"                           \<comment> \<open>M_SIZE\<close>
  h_writable :: "(nat \<Rightarrow> u32) \<Rightarrow> bmbuf \<Rightarrow> bool"        \<comment> \<open>M_WRITABLE\<close>
  h_trailing :: "(nat \<Rightarrow> u32) \<Rightarrow> bmbuf \<Rightarrow> nat"         \<comment> \<open>M_TRAILINGSPACE\<close>
  h_align :: "nat \<Rightarrow> bmbuf \<Rightarrow> bmbuf"                  \<comment> \<open>M_ALIGN\<close>
  h_get :: "'a mst \<Rightarrow> bmbuf option \<times> 'a mst"        \<comment> \<open>m_get\<close>
  h_gethdr :: "'a mst \<Rightarrow> bmbuf option \<times> 'a mst"     \<comment> \<open>m_gethdr\<close>
  h_getcl :: "bool \<Rightarrow> 'a mst \<Rightarrow> bmbuf option \<times> 'a mst"  \<comment> \<open>m_getcl, with M_PKTHDR or not\<close>
  h_free :: "bmbuf \<Rightarrow> 'a mst \<Rightarrow> 'a mst"
  h_freem :: "bmbuf list \<Rightarrow> 'a mst \<Rightarrow> 'a mst"
  h_tag_copy :: "nat list \<Rightarrow> 'a mst \<Rightarrow> nat list option \<times> 'a mst"  \<comment> \<open>m_tag_copy_chain\<close>
  h_snd_tag_ref :: "nat \<Rightarrow> 'a mst \<Rightarrow> 'a mst"

definition has_hdr :: "bmbuf \<Rightarrow> bool" where
  "has_hdr m \<longleftrightarrow> M_PKTHDR \<in> m_flags m"

section \<open>Memory\<close>

definition inb :: "nat \<times> nat \<Rightarrow> nat \<Rightarrow> nat \<Rightarrow> bool" where
  "inb c a n \<longleftrightarrow> n = 0 \<or> fst c \<le> a \<and> a + n \<le> snd c"

definition put_bytes :: "nat \<Rightarrow> u8 list \<Rightarrow> bytes \<Rightarrow> bytes" where
  "put_bytes a bs mm = (\<lambda>x. if a \<le> x \<and> x < a + length bs then bs ! (x - a) else mm x)"

definition bcopy :: "nat \<times> nat \<Rightarrow> nat \<Rightarrow> nat \<times> nat \<Rightarrow> nat \<Rightarrow> nat \<Rightarrow> 'a mst \<Rightarrow> 'a mst option" where
  "bcopy sc src dc dst n st =
     (if inb sc src n \<and> inb dc dst n then Some (st\<lparr>mst_mem := put_bytes dst (bytes_at (mst_mem st) src n) (mst_mem st)\<rparr>)
      else None)"

definition bcopy_in :: "u8 list \<Rightarrow> nat \<times> nat \<Rightarrow> nat \<Rightarrow> 'a mst \<Rightarrow> 'a mst option" where
  "bcopy_in bs dc dst st =
     (if inb dc dst (length bs) then Some (st\<lparr>mst_mem := put_bytes dst bs (mst_mem st)\<rparr>) else None)"

section \<open>Packet headers and external storage\<close>

definition mb_dupcl :: "bmbuf \<Rightarrow> bmbuf \<Rightarrow> 'a mst \<Rightarrow> (bmbuf \<times> 'a mst) option" where
  "mb_dupcl n m st =
     (if M_EXT \<notin> m_flags m \<or> M_EXT \<in> m_flags n then None
      else let e = (if ext_extref (m_ext m) then m_ext m else (m_ext m)\<lparr>ext_free := ext_free (m_ext n)\<rparr>);
               n = n\<lparr>m_ext := e, m_flags := m_flags n \<union> m_flags m \<inter> {M_RDONLY, M_EXT}\<rparr> in
           if ext_embref (m_ext m)
           then Some (n\<lparr>m_ext := e\<lparr>ext_cnt := m_ext_count m, ext_embref := False\<rparr>\<rparr>,
                      st\<lparr>mst_refs := (mst_refs st)(m_ext_count m := mst_refs st (m_ext_count m) + 1)\<rparr>)
           else if ext_cnt (m_ext m) = 0 then None
           else Some (n, st\<lparr>mst_refs := (mst_refs st)(ext_cnt (m_ext m) := mst_refs st (ext_cnt (m_ext m)) + 1)\<rparr>))"

definition m_demote_pkthdr :: "bmbuf \<Rightarrow> bmbuf option" where
  "m_demote_pkthdr m =
     (if \<not> has_hdr m \<or> ph_snd_tag (m_pkthdr m) \<noteq> None then None
      else Some (m\<lparr>m_flags := m_flags m - {M_PKTHDR}, m_pkthdr := pkthdr_zero\<rparr>))"

fun demote_loop :: "mflag set \<Rightarrow> bmbuf list \<Rightarrow> bmbuf list option" where
  "demote_loop fl [] = Some []"
| "demote_loop fl (m # ch) =
     do { m \<leftarrow> (if has_hdr m then m_demote_pkthdr m else Some m);
          ch \<leftarrow> demote_loop fl ch;
          Some (m\<lparr>m_flags := m_flags m \<inter> fl\<rparr> # ch) }"

definition m_demote :: "'a mbuf_h \<Rightarrow> bmbuf list \<Rightarrow> bool \<Rightarrow> mflag set \<Rightarrow> bmbuf list option" where
  "m_demote h ch all flags =
     (let flags = flags \<union> h_DEMOTEFLAGS h in
      if all then demote_loop flags ch
      else case ch of [] \<Rightarrow> None | m # ch \<Rightarrow> map_option ((#) m) (demote_loop flags ch))"

definition to_pktdat :: "bmbuf \<Rightarrow> bmbuf" where
  "to_pktdat m = (if M_EXT \<in> m_flags m then m else m\<lparr>m_data := m_pktdat m, m_cap := m_obj m\<rparr>)"

definition m_move_pkthdr :: "'a mbuf_h \<Rightarrow> bmbuf \<Rightarrow> bmbuf \<Rightarrow> bmbuf \<times> bmbuf" where
  "m_move_pkthdr h to from =
     (let to = to\<lparr>m_flags := m_flags from \<inter> h_COPYFLAGS h \<union> m_flags to \<inter> {M_EXT}\<rparr>;
          to = (to_pktdat to)\<lparr>m_pkthdr := m_pkthdr from\<rparr>;
          from = from\<lparr>m_pkthdr := (m_pkthdr from)\<lparr>ph_tags := [], ph_snd_tag := None\<rparr>, m_flags := m_flags from - {M_PKTHDR}\<rparr> in
      (to, from))"

definition m_dup_pkthdr :: "'a mbuf_h \<Rightarrow> bmbuf \<Rightarrow> bmbuf \<Rightarrow> 'a mst \<Rightarrow> bool \<times> bmbuf \<times> 'a mst" where
  "m_dup_pkthdr h to from st =
     (let to = to\<lparr>m_flags := m_flags from \<inter> h_COPYFLAGS h \<union> m_flags to \<inter> {M_EXT}\<rparr>;
          to = (to_pktdat to)\<lparr>m_pkthdr := (m_pkthdr from)\<lparr>ph_tags := []\<rparr>\<rparr>;
          st = (case ph_snd_tag (m_pkthdr from) of None \<Rightarrow> st | Some t \<Rightarrow> h_snd_tag_ref h t st) in
      case h_tag_copy h (ph_tags (m_pkthdr from)) st of
        (None, st) \<Rightarrow> (False, to, st)
      | (Some ts, st) \<Rightarrow> (True, to\<lparr>m_pkthdr := (m_pkthdr to)\<lparr>ph_tags := ts\<rparr>\<rparr>, st))"

section \<open>Reading a chain\<close>

text \<open>The loop that skips \<open>off\<close> bytes, the same in \<open>m_copym\<close>, \<open>m_copydata\<close> and \<open>m_apply\<close>.\<close>

fun m_skip :: "nat \<Rightarrow> bmbuf list \<Rightarrow> (nat \<times> bmbuf list) option" where
  "m_skip off [] = (if off > 0 then None else Some (0, []))"
| "m_skip off (m # ch) = (if off > 0 \<and> \<not> off < m_len m then m_skip (off - m_len m) ch else Some (off, m # ch))"

fun copydata_loop :: "bmbuf list \<Rightarrow> nat \<Rightarrow> nat \<Rightarrow> nat \<times> nat \<Rightarrow> nat \<Rightarrow> 'a mst \<Rightarrow> 'a mst option" where
  "copydata_loop [] off len cb cp st = (if len > 0 then None else Some st)"
| "copydata_loop (m # ch) off len cb cp st =
     (if len > 0
      then let count = min (m_len m - off) len in
           do { st \<leftarrow> bcopy (m_cap m) (m_data m + off) cb cp count st;
                copydata_loop ch 0 (len - count) cb (cp + count) st }
      else Some st)"

definition m_copydata :: "bmbuf list \<Rightarrow> nat \<Rightarrow> nat \<Rightarrow> nat \<times> nat \<Rightarrow> nat \<Rightarrow> 'a mst \<Rightarrow> 'a mst option" where
  "m_copydata ch off len cb cp st = do { (off, ch) \<leftarrow> m_skip off ch; copydata_loop ch off len cb cp st }"

text \<open>\<open>f\<close> gets the state of its argument, the address, and the number of bytes; a result other than 0 ends the loop.\<close>

fun apply_loop :: "(nat \<Rightarrow> nat \<Rightarrow> 's \<Rightarrow> int \<times> 's) \<Rightarrow> bmbuf list \<Rightarrow> nat \<Rightarrow> nat \<Rightarrow> 's \<Rightarrow> (int \<times> 's) option" where
  "apply_loop f [] off len s = (if len > 0 then None else Some (0, s))"
| "apply_loop f (m # ch) off len s =
     (if len > 0
      then let count = min (m_len m - off) len in
           case f (m_data m + off) count s of (rval, s) \<Rightarrow>
             if rval \<noteq> 0 then Some (rval, s) else apply_loop f ch 0 (len - count) s
      else Some (0, s))"

definition m_apply :: "(nat \<Rightarrow> nat \<Rightarrow> 's \<Rightarrow> int \<times> 's) \<Rightarrow> bmbuf list \<Rightarrow> nat \<Rightarrow> nat \<Rightarrow> 's \<Rightarrow> (int \<times> 's) option" where
  "m_apply f ch off len s = do { (off, ch) \<leftarrow> m_skip off ch; apply_loop f ch off len s }"

text \<open>A chain that is not empty; the mbuf is given by its position.\<close>

fun m_getptr :: "bmbuf \<Rightarrow> bmbuf list \<Rightarrow> int \<Rightarrow> (nat \<times> nat) option" where
  "m_getptr m [] loc =
     (if loc < 0 then None
      else if int (m_len m) > loc then Some (0, nat loc)
      else if loc - int (m_len m) = 0 then Some (0, m_len m) else None)"
| "m_getptr m (n # ch) loc =
     (if loc < 0 then None
      else if int (m_len m) > loc then Some (0, nat loc)
      else map_option (\<lambda>(i, off). (Suc i, off)) (m_getptr n ch (loc - int (m_len m))))"

definition m_length :: "bmbuf list \<Rightarrow> nat" where
  "m_length ch = sum_list (map m_len ch)"

definition upd_hdr :: "(pkthdr \<Rightarrow> pkthdr) \<Rightarrow> bmbuf list \<Rightarrow> bmbuf list" where
  "upd_hdr f ch = (case ch of [] \<Rightarrow> [] | m # ch \<Rightarrow> m\<lparr>m_pkthdr := f (m_pkthdr m)\<rparr> # ch)"

definition m_fixhdr :: "bmbuf list \<Rightarrow> nat \<times> bmbuf list" where
  "m_fixhdr ch = (let len = m_length ch in (len, upd_hdr (ph_len_update (\<lambda>_. int len)) ch))"

section \<open>Trimming\<close>

fun adj_head :: "int \<Rightarrow> bmbuf list \<Rightarrow> int \<times> bmbuf list" where
  "adj_head len [] = (len, [])"
| "adj_head len (m # ch) =
     (if len > 0
      then if int (m_len m) \<le> len
           then case adj_head (len - int (m_len m)) ch of (l, ch) \<Rightarrow> (l, m\<lparr>m_len := 0\<rparr> # ch)
           else (0, m\<lparr>m_len := m_len m - nat len, m_data := m_data m + nat len\<rparr> # ch)
      else (len, m # ch))"

text \<open>The kept mbufs and the freed ones.\<close>

fun adj_tail :: "nat \<Rightarrow> bmbuf list \<Rightarrow> bmbuf list \<times> bmbuf list" where
  "adj_tail count [] = ([], [])"
| "adj_tail count (m # ch) =
     (if m_len m \<ge> count then ([m\<lparr>m_len := count\<rparr>], ch)
      else case adj_tail (count - m_len m) ch of (kept, freed) \<Rightarrow> (m # kept, freed))"

definition if_hdr :: "(pkthdr \<Rightarrow> pkthdr) \<Rightarrow> bmbuf list \<Rightarrow> bmbuf list" where
  "if_hdr f ch = (if ch \<noteq> [] \<and> has_hdr (hd ch) then upd_hdr f ch else ch)"

definition m_adj :: "'a mbuf_h \<Rightarrow> bmbuf list \<Rightarrow> int \<Rightarrow> 'a mst \<Rightarrow> bmbuf list \<times> 'a mst" where
  "m_adj h ch req_len st =
     (if ch = [] then ([], st)
      else if req_len \<ge> 0
      then case adj_head req_len ch of (len, ch) \<Rightarrow>
        (if_hdr (\<lambda>p. p\<lparr>ph_len := ph_len p - (req_len - len)\<rparr>) ch, st)
      else let len = - req_len; count = int (m_length ch); m = last ch in
        if int (m_len m) \<ge> len
        then (if_hdr (\<lambda>p. p\<lparr>ph_len := ph_len p - len\<rparr>) (butlast ch @ [m\<lparr>m_len := m_len m - nat len\<rparr>]), st)
        else let count = (if count - len < 0 then 0 else count - len) in
          case adj_tail (nat count) (if_hdr (\<lambda>p. p\<lparr>ph_len := count\<rparr>) ch) of (kept, freed) \<Rightarrow>
            (kept, if freed = [] then st else h_freem h freed st))"

section \<open>The bytes of a chain\<close>

definition m_bytes :: "bytes \<Rightarrow> bmbuf \<Rightarrow> u8 list" where
  "m_bytes mm m = bytes_at mm (m_data m) (m_len m)"

definition chain_data :: "bytes \<Rightarrow> bmbuf list \<Rightarrow> u8 list" where
  "chain_data mm ch = concat (map (m_bytes mm) ch)"

text \<open>The data is within the bounds of its capability, and where it is.\<close>

definition cap_ok :: "bmbuf \<Rightarrow> bool" where
  "cap_ok m \<longleftrightarrow> inb (m_cap m) (m_data m) (m_len m)"

definition span :: "nat \<Rightarrow> nat \<Rightarrow> nat set" where
  "span a n = {a..<a + n}"

definition data_span :: "bmbuf \<Rightarrow> nat set" where
  "data_span m = span (m_data m) (m_len m)"

definition hdr_ok :: "bmbuf list \<Rightarrow> bool" where
  "hdr_ok ch \<longleftrightarrow> (ch \<noteq> [] \<and> has_hdr (hd ch) \<longrightarrow> ph_len (m_pkthdr (hd ch)) = int (m_length ch))"

section \<open>Well-formed buffers, macros and allocator\<close>

text \<open>
  \<open>wf_mbuf\<close> is the well-formedness that \<open>m_sanity\<close> tests; the sizes of the two internal
  storages are related by a compile-time assertion of the source.
\<close>

definition store_lo :: "bmbuf \<Rightarrow> nat" where
  "store_lo m = (if M_EXT \<in> m_flags m then ext_buf (m_ext m) else if has_hdr m then m_pktdat m else m_dat m)"

definition store_hi :: "'a mbuf_h \<Rightarrow> bmbuf \<Rightarrow> nat" where
  "store_hi h m = (if M_EXT \<in> m_flags m then ext_buf (m_ext m) + ext_size (m_ext m) else m_dat m + h_MLEN h)"

definition store_base :: "bmbuf \<Rightarrow> nat" where
  "store_base m = (if M_EXT \<in> m_flags m then ext_buf (m_ext m) else m_dat m)"

definition wf_mbuf :: "'a mbuf_h \<Rightarrow> bmbuf \<Rightarrow> bool" where
  "wf_mbuf h m \<longleftrightarrow>
     m_dat m \<le> m_pktdat m \<and> m_pktdat m + h_MHLEN h = m_dat m + h_MLEN h \<and>
     fst (m_obj m) \<le> m_dat m \<and> m_dat m + h_MLEN h \<le> snd (m_obj m) \<and>
     store_lo m \<le> m_data m \<and> m_data m + m_len m \<le> store_hi h m \<and>
     fst (m_cap m) \<le> store_base m \<and> store_hi h m \<le> snd (m_cap m)"

definition room :: "'a mbuf_h \<Rightarrow> 'a mst \<Rightarrow> bmbuf \<Rightarrow> nat set" where
  "room h st m = span (m_data m + m_len m) (h_trailing h (mst_refs st) m)"

text \<open>The storage an mbuf has when it is allocated.\<close>

definition own_span :: "'a mbuf_h \<Rightarrow> bmbuf \<Rightarrow> nat set" where
  "own_span h m = span (m_dat m) (h_MLEN h) \<union> (if M_EXT \<in> m_flags m then span (ext_buf (m_ext m)) (ext_size (m_ext m)) else {})"

definition fresh_mbuf :: "'a mbuf_h \<Rightarrow> ('a \<Rightarrow> nat set) \<Rightarrow> mflag set \<Rightarrow> 'a mst \<Rightarrow> bmbuf option \<times> 'a mst \<Rightarrow> bool" where
  "fresh_mbuf h used fl st r \<longleftrightarrow>
     mst_mem (snd r) = mst_mem st \<and> mst_refs (snd r) = mst_refs st \<and>
     (case fst r of None \<Rightarrow> used (mst_al st) \<subseteq> used (mst_al (snd r))
      | Some m \<Rightarrow> wf_mbuf h m \<and> m_len m = 0 \<and> m_flags m = fl \<and> m_data m = store_lo m \<and> m_pkthdr m = pkthdr_zero \<and>
          (M_EXT \<in> fl \<longrightarrow> ext_size (m_ext m) = h_MCLBYTES h \<and> h_writable h (mst_refs (snd r)) m) \<and>
          own_span h m \<inter> used (mst_al st) = {} \<and> used (mst_al st) \<union> own_span h m \<subseteq> used (mst_al (snd r)))"

definition macros_documented :: "'a mbuf_h \<Rightarrow> bool" where
  "macros_documented h \<longleftrightarrow>
     (\<forall>m. h_start h m = store_lo m \<and> h_size h m = store_hi h m - store_lo m) \<and>
     (\<forall>r m. h_trailing h r m = (if h_writable h r m then store_hi h m - (m_data m + m_len m) else 0)) \<and>
     (\<forall>r m m'. m_flags m = m_flags m' \<and> m_ext m = m_ext m' \<longrightarrow> h_writable h r m = h_writable h r m') \<and>
     (\<forall>m n. \<exists>a. h_align h n m = m\<lparr>m_data := a\<rparr> \<and>
        (wf_mbuf h m \<and> m_len m = 0 \<and> n \<le> store_hi h m - store_lo m \<longrightarrow> store_lo m \<le> a \<and> a + n \<le> store_hi h m))"

definition allocator_documented :: "'a mbuf_h \<Rightarrow> ('a \<Rightarrow> nat set) \<Rightarrow> bool" where
  "allocator_documented h used \<longleftrightarrow>
     (\<forall>st. fresh_mbuf h used {} st (h_get h st) \<and> fresh_mbuf h used {M_PKTHDR} st (h_gethdr h st) \<and>
        fresh_mbuf h used {M_EXT} st (h_getcl h False st) \<and> fresh_mbuf h used {M_EXT, M_PKTHDR} st (h_getcl h True st)) \<and>
     (\<forall>m st. mst_mem (h_free h m st) = mst_mem st \<and> used (mst_al st) - own_span h m \<subseteq> used (mst_al (h_free h m st))) \<and>
     (\<forall>ch st. mst_mem (h_freem h ch st) = mst_mem st \<and> used (mst_al st) - (\<Union>m\<in>set ch. own_span h m) \<subseteq> used (mst_al (h_freem h ch st)))"

definition same_store :: "('a \<Rightarrow> nat set) \<Rightarrow> 'a mst \<Rightarrow> 'a mst \<Rightarrow> bool" where
  "same_store used st st' \<longleftrightarrow> mst_mem st' = mst_mem st \<and> mst_refs st' = mst_refs st \<and> used (mst_al st) \<subseteq> used (mst_al st')"

definition mbuf_documented :: "'a mbuf_h \<Rightarrow> ('a \<Rightarrow> nat set) \<Rightarrow> bool" where
  "mbuf_documented h used \<longleftrightarrow>
     0 < h_MHLEN h \<and> h_MHLEN h \<le> h_MLEN h \<and> h_MLEN h \<le> h_MCLBYTES h \<and>
     M_PKTHDR \<in> h_COPYFLAGS h \<and> M_EXT \<notin> h_COPYFLAGS h \<and> M_EXT \<in> h_DEMOTEFLAGS h \<and> M_PKTHDR \<notin> h_DEMOTEFLAGS h \<and>
     macros_documented h \<and> allocator_documented h used \<and>
     (\<forall>ts st. same_store used st (snd (h_tag_copy h ts st))) \<and> (\<forall>t st. same_store used st (h_snd_tag_ref h t st))"

section \<open>Lemmas on memory and chains\<close>

lemma length_m_bytes [simp]: "length (m_bytes mm m) = m_len m"
  by (simp add: m_bytes_def)

lemma chain_data_simps [simp]:
  "chain_data mm [] = []"
  "chain_data mm (m # ch) = m_bytes mm m @ chain_data mm ch"
  "chain_data mm (ch @ ch') = chain_data mm ch @ chain_data mm ch'"
  by (simp_all add: chain_data_def)

lemma m_length_simps [simp]:
  "m_length [] = 0" "m_length (m # ch) = m_len m + m_length ch" "m_length (ch @ ch') = m_length ch + m_length ch'"
  by (simp_all add: m_length_def)

lemma length_chain_data [simp]: "length (chain_data mm ch) = m_length ch"
  by (induction ch) simp_all

lemma m_bytes_upd [simp]:
  "m_bytes mm (m\<lparr>m_pkthdr := p\<rparr>) = m_bytes mm m" "m_bytes mm (m\<lparr>m_flags := f\<rparr>) = m_bytes mm m" "m_bytes mm (m\<lparr>m_ext := e\<rparr>) = m_bytes mm m"
  by (simp_all add: m_bytes_def)

lemma m_bytes_cut:
  "k \<le> m_len m \<Longrightarrow> m_bytes mm (m\<lparr>m_len := k\<rparr>) = take k (m_bytes mm m)"
  "k \<le> m_len m \<Longrightarrow> m_bytes mm (m\<lparr>m_len := m_len m - k, m_data := m_data m + k\<rparr>) = drop k (m_bytes mm m)"
proof -
  show "k \<le> m_len m \<Longrightarrow> m_bytes mm (m\<lparr>m_len := k\<rparr>) = take k (m_bytes mm m)" by (simp add: m_bytes_def take_bytes_at)
  show "k \<le> m_len m \<Longrightarrow> m_bytes mm (m\<lparr>m_len := m_len m - k, m_data := m_data m + k\<rparr>) = drop k (m_bytes mm m)"
    using bytes_at_append [of mm "m_data m" k "m_len m - k"] by (simp add: m_bytes_def)
qed

lemma upd_hdr_simps [simp]:
  "chain_data mm (upd_hdr f ch) = chain_data mm ch" "m_length (upd_hdr f ch) = m_length ch"
  "chain_data mm (if_hdr f ch) = chain_data mm ch" "m_length (if_hdr f ch) = m_length ch"
  "if_hdr f ch = [] \<longleftrightarrow> ch = []" "has_hdr (hd (if_hdr f ch)) \<longleftrightarrow> has_hdr (hd ch)"
  by (auto simp: upd_hdr_def if_hdr_def has_hdr_def split: list.splits)

lemma put_bytes_Nil [simp]: "put_bytes a [] mm = mm"
  by (rule ext) (auto simp: put_bytes_def)

lemma put_bytes_append: "put_bytes (a + length bs) cs (put_bytes a bs mm) = put_bytes a (bs @ cs) mm"
  by (rule ext) (auto simp: put_bytes_def nth_append)

lemma bytes_at_put_same [simp]: "bytes_at (put_bytes a bs mm) a (length bs) = bs"
  by (rule nth_equalityI) (simp_all add: bytes_at_def put_bytes_def)

lemma bytes_at_put_other: "span b n \<inter> span a (length bs) = {} \<Longrightarrow> bytes_at (put_bytes a bs mm) b n = bytes_at mm b n"
  by (rule bytes_at_cong) (auto simp: put_bytes_def span_def)

lemma chain_data_cong: "(\<And>m. m \<in> set ch \<Longrightarrow> m_bytes mm m = m_bytes mm' m) \<Longrightarrow> chain_data mm ch = chain_data mm' ch"
  by (simp add: chain_data_def cong: map_cong)

lemma chain_data_put_other:
  assumes "\<And>m. m \<in> set ch \<Longrightarrow> data_span m \<inter> span a (length bs) = {}"
  shows "chain_data (put_bytes a bs mm) ch = chain_data mm ch"
  by (rule chain_data_cong) (use assms in \<open>simp add: m_bytes_def data_span_def bytes_at_put_other\<close>)

section \<open>Reading\<close>

lemma m_skip_ok:
  assumes "off \<le> m_length ch"
  obtains d pre ch' where "m_skip off ch = Some (d, ch')" "ch = pre @ ch'" "drop off (chain_data mm ch) = drop d (chain_data mm ch')"
    "d + (m_length ch - off) = m_length ch'" "ch' = [] \<and> d = 0 \<or> ch' \<noteq> [] \<and> d \<le> m_len (hd ch')"
  using assms
proof (induction ch arbitrary: off thesis)
  case (Cons m ch)
  show ?case
  proof (cases "off > 0 \<and> \<not> off < m_len m")
    case True
    then have "off - m_len m \<le> m_length ch" using Cons.prems(2) by simp
    from Cons.IH [OF _ this] obtain d pre ch' where "m_skip (off - m_len m) ch = Some (d, ch')" "ch = pre @ ch'"
      "drop (off - m_len m) (chain_data mm ch) = drop d (chain_data mm ch')" "d + (m_length ch - (off - m_len m)) = m_length ch'"
      "ch' = [] \<and> d = 0 \<or> ch' \<noteq> [] \<and> d \<le> m_len (hd ch')" by blast
    then show ?thesis using True by (intro Cons.prems(1) [of d ch' "m # pre"]) simp_all
  next
    case False
    then show ?thesis using Cons.prems(2) by (intro Cons.prems(1) [of off "m # ch" "[]"]) auto
  qed
qed simp

lemma m_skip_beyond: "m_length ch < off \<Longrightarrow> m_skip off ch = None"
  by (induction ch arbitrary: off) auto

lemma inb_sub: "inb c a n \<Longrightarrow> j + k \<le> n \<Longrightarrow> inb c (a + j) k"
  by (auto simp: inb_def)

lemma copydata_loop_ok:
  assumes "\<forall>m\<in>set ch. cap_ok m \<and> data_span m \<inter> span cp len = {}" "inb cb cp len" "off + len \<le> m_length ch"
    "ch \<noteq> [] \<longrightarrow> off \<le> m_len (hd ch)"
  shows "copydata_loop ch off len cb cp st = Some (st\<lparr>mst_mem := put_bytes cp (take len (drop off (chain_data (mst_mem st) ch))) (mst_mem st)\<rparr>)"
  using assms
proof (induction ch arbitrary: off len cp st)
  case (Cons m ch)
  show ?case
  proof (cases "len = 0")
    case False
    let ?c = "min (m_len m - off) len" and ?mem = "mst_mem st"
    let ?b = "bytes_at ?mem (m_data m + off) ?c"
    have c: "inb (m_cap m) (m_data m + off) ?c" "inb cb cp ?c" "inb cb (cp + ?c) (len - ?c)"
      using Cons.prems by (auto simp: cap_ok_def intro!: inb_sub [of "m_cap m"] inb_sub [of cb cp len 0, simplified] inb_sub [of cb cp len])
    have sub: "span cp ?c \<subseteq> span cp len" "span (cp + ?c) (len - ?c) \<subseteq> span cp len" by (auto simp: span_def)
    have b: "take ?c (drop off (m_bytes ?mem m)) = ?b"
      using bytes_at_append [of ?mem "m_data m" off "m_len m - off"] Cons.prems(4) by (simp add: m_bytes_def take_bytes_at)
    have d: "chain_data (put_bytes cp ?b ?mem) ch = chain_data ?mem ch"
      by (rule chain_data_put_other) (use Cons.prems(1) sub in \<open>auto simp: disjoint_iff\<close>)
    have "copydata_loop ch 0 (len - ?c) cb (cp + ?c) (st\<lparr>mst_mem := put_bytes cp ?b ?mem\<rparr>) =
      Some (st\<lparr>mst_mem := put_bytes (cp + ?c) (take (len - ?c) (chain_data ?mem ch)) (put_bytes cp ?b ?mem)\<rparr>)"
      by (subst Cons.IH) (use Cons.prems sub c(3) d in \<open>auto simp: disjoint_iff\<close>)
    moreover have "take len (drop off (m_bytes ?mem m @ chain_data ?mem ch)) = ?b @ take (len - ?c) (chain_data ?mem ch)"
      using Cons.prems(4) b by (auto simp: min_def)
    ultimately show ?thesis using False c put_bytes_append [of cp ?b] by (simp add: bcopy_def Let_def)
  qed simp
qed simp

lemma copydata_loop_beyond:
  fixes st :: "'a mst"
  assumes "m_length ch < off + len" "ch \<noteq> [] \<longrightarrow> off \<le> m_len (hd ch)" "0 < len"
  shows "copydata_loop ch off len cb cp st = None"
  using assms
proof (induction ch arbitrary: off len cp st)
  case (Cons m ch)
  let ?c = "min (m_len m - off) len"
  have "0 < len - ?c" "m_length ch < len - ?c" using Cons.prems by auto
  then have "copydata_loop ch 0 (len - ?c) cb (cp + ?c) st' = None" for st' :: "'a mst"
    using Cons.IH [of 0 "len - ?c"] by simp
  then show ?case using Cons.prems by (cases "bcopy (m_cap m) (m_data m + off) cb cp ?c st") (simp_all add: Let_def)
qed simp

text \<open>
  C31: Copying out of a chain. If the destination is in bounds and apart from the data of the chain,
  \<open>m_copydata\<close> faults exactly if the chain has fewer than \<open>off + len\<close> bytes, and otherwise
  stores the bytes from \<open>off\<close> on, however they are spread over the mbufs, and nothing else.
\<close>

theorem m_copydata_exact:
  assumes "\<forall>m\<in>set ch. cap_ok m \<and> data_span m \<inter> span cp len = {}" "inb cb cp len"
  shows "m_copydata ch off len cb cp st =
    (if off + len \<le> m_length ch
     then Some (st\<lparr>mst_mem := put_bytes cp (take len (drop off (chain_data (mst_mem st) ch))) (mst_mem st)\<rparr>) else None)"
proof (cases "off \<le> m_length ch")
  case True
  obtain d pre ch' where s: "m_skip off ch = Some (d, ch')" "ch = pre @ ch'"
    "drop off (chain_data (mst_mem st) ch) = drop d (chain_data (mst_mem st) ch')"
    "d + (m_length ch - off) = m_length ch'" "ch' = [] \<and> d = 0 \<or> ch' \<noteq> [] \<and> d \<le> m_len (hd ch')"
    by (rule m_skip_ok [OF True, of "mst_mem st"])
  have d: "ch' \<noteq> [] \<longrightarrow> d \<le> m_len (hd ch')" using s(5) by auto
  show ?thesis
  proof (cases "off + len \<le> m_length ch")
    case fits: True
    have "copydata_loop ch' d len cb cp st = Some (st\<lparr>mst_mem := put_bytes cp (take len (drop d (chain_data (mst_mem st) ch'))) (mst_mem st)\<rparr>)"
      by (rule copydata_loop_ok) (use assms s d fits in auto)
    then show ?thesis using fits s(1,3) by (simp add: m_copydata_def)
  next
    case False
    then have "m_length ch' < d + len" "0 < len" using True s(4) by simp_all
    then show ?thesis using False s(1) d copydata_loop_beyond [of ch' d len cb cp st] by (simp add: m_copydata_def)
  qed
qed (simp add: m_copydata_def m_skip_beyond)

text \<open>A callback that collects the bytes it is given gets the same bytes.\<close>

lemma apply_loop_collects:
  assumes "off + len \<le> m_length ch" "ch \<noteq> [] \<longrightarrow> off \<le> m_len (hd ch)"
  shows "apply_loop (\<lambda>a n bs. (0, bs @ bytes_at mm a n)) ch off len bs = Some (0, bs @ take len (drop off (chain_data mm ch)))"
  using assms
proof (induction ch arbitrary: off len bs)
  case (Cons m ch)
  let ?c = "min (m_len m - off) len"
  have "take ?c (drop off (m_bytes mm m)) = bytes_at mm (m_data m + off) ?c"
    using bytes_at_append [of mm "m_data m" off "m_len m - off"] Cons.prems by (simp add: m_bytes_def take_bytes_at)
  then have "take len (drop off (chain_data mm (m # ch))) = bytes_at mm (m_data m + off) ?c @ take (len - ?c) (chain_data mm ch)"
    using Cons.prems by (auto simp: min_def)
  moreover have "len - ?c \<le> m_length ch" using Cons.prems by auto
  ultimately show ?case using Cons.IH [of 0 "len - ?c"] by (simp add: Let_def)
qed simp

lemma m_apply_collects:
  assumes "off + len \<le> m_length ch"
  shows "m_apply (\<lambda>a n bs. (0, bs @ bytes_at mm a n)) ch off len [] = Some (0, take len (drop off (chain_data mm ch)))"
proof -
  have "off \<le> m_length ch" using assms by simp
  then obtain d pre ch' where s: "m_skip off ch = Some (d, ch')" "drop off (chain_data mm ch) = drop d (chain_data mm ch')"
    "d + (m_length ch - off) = m_length ch'" "ch' = [] \<and> d = 0 \<or> ch' \<noteq> [] \<and> d \<le> m_len (hd ch')"
    by (rule m_skip_ok [of off ch mm])
  then have "apply_loop (\<lambda>a n bs. (0, bs @ bytes_at mm a n)) ch' d len [] = Some (0, [] @ take len (drop d (chain_data mm ch')))"
    using assms by (intro apply_loop_collects) auto
  then show ?thesis using s by (simp add: m_apply_def)
qed

lemma m_getptr_ok:
  "m_getptr m ch loc = None \<longleftrightarrow> loc < 0 \<or> loc > int (m_length (m # ch))"
  "m_getptr m ch loc = Some (i, off) \<Longrightarrow>
     i < Suc (length ch) \<and> off \<le> m_len ((m # ch) ! i) \<and> loc = int (m_length (take i (m # ch)) + off)"
proof (induction m ch loc arbitrary: i rule: m_getptr.induct)
  case (1 m loc)
  { case 1 show ?case by auto }
  { case 2 then show ?case by (auto split: if_splits) }
next
  case (2 m n ch loc)
  { case 1 show ?case using 2(1) by auto }
  { case 2 then show ?case using "2.IH"(2) by (fastforce split: if_splits) }
qed

section \<open>Trimming\<close>

lemma adj_head_ok:
  assumes "adj_head len ch = (l, ch')" "0 \<le> len"
  shows "chain_data mm ch' = drop (nat len) (chain_data mm ch) \<and> len - l = int (min (nat len) (m_length ch)) \<and>
    map has_hdr ch' = map has_hdr ch \<and> map m_pkthdr ch' = map m_pkthdr ch"
  using assms
proof (induction ch arbitrary: len l ch')
  case (Cons m ch)
  consider "len = 0" | (all) "0 < len" "int (m_len m) \<le> len" | (part) "0 < len" "int (m_len m) > len" using Cons.prems by linarith
  then show ?case
  proof cases
    case all
    obtain l1 ch1 where 1: "adj_head (len - int (m_len m)) ch = (l1, ch1)" by fastforce
    have n: "nat (len - int (m_len m)) = nat len - m_len m" by (simp add: nat_diff_distrib')
    have z: "m_bytes mm (m\<lparr>m_len := 0\<rparr>) = []" by (simp add: m_bytes_def)
    show ?thesis using Cons.IH [OF 1] Cons.prems 1 all z by (auto simp: n has_hdr_def)
  next
    case part
    then show ?thesis using Cons.prems m_bytes_cut(2) [of "nat len" m mm] by (auto simp: has_hdr_def)
  qed (use Cons.prems in auto)
qed auto

lemma adj_tail_ok:
  assumes "adj_tail count ch = (kept, freed)" "count \<le> m_length ch" "ch \<noteq> []"
  shows "chain_data mm kept = take count (chain_data mm ch) \<and> m_length kept = count \<and>
    kept \<noteq> [] \<and> has_hdr (hd kept) = has_hdr (hd ch) \<and> m_pkthdr (hd kept) = m_pkthdr (hd ch) \<and>
    freed = drop (length kept) ch"
  using assms
proof (induction ch arbitrary: count kept freed)
  case (Cons m ch)
  show ?case
  proof (cases "count \<le> m_len m")
    case True
    then show ?thesis using Cons.prems by (auto simp: m_bytes_cut has_hdr_def)
  next
    case False
    then have ne: "ch \<noteq> []" using Cons.prems by auto
    obtain k f where 1: "adj_tail (count - m_len m) ch = (k, f)" by fastforce
    show ?thesis using Cons.IH [OF 1 _ ne] Cons.prems 1 False by auto
  qed
qed simp

lemma hd_if_hdr: "ch \<noteq> [] \<Longrightarrow> has_hdr (hd ch) \<Longrightarrow> m_pkthdr (hd (if_hdr f ch)) = f (m_pkthdr (hd ch))"
  by (auto simp: if_hdr_def upd_hdr_def split: list.splits)

lemma m_adj_head:
  assumes "ch \<noteq> []" "0 \<le> n" "hdr_ok ch"
  shows "\<exists>ch'. m_adj h ch n st = (ch', st) \<and> chain_data mm ch' = drop (nat n) (chain_data mm ch) \<and> hdr_ok ch'"
proof -
  obtain l c where a: "adj_head n ch = (l, c)" by fastforce
  note c = adj_head_ok [OF a assms(2), of mm]
  have "length (chain_data mm c) = length (chain_data mm ch) - nat n" using c by simp
  then have len: "m_length c = m_length ch - nat n" by simp
  obtain x xs y ys where eq: "ch = x # xs" "c = y # ys" using c assms(1) by (cases ch; cases c) auto
  have hd: "has_hdr y = has_hdr x" "m_pkthdr y = m_pkthdr x" using c by (simp_all add: eq)
  have "hdr_ok (if_hdr (\<lambda>p. p\<lparr>ph_len := ph_len p - (n - l)\<rparr>) c)"
    using assms(3) len c by (auto simp: hdr_ok_def hd eq hd_if_hdr)
  then show ?thesis using assms(1,2) a c by (auto simp: m_adj_def)
qed

lemma m_adj_last:
  assumes "ch \<noteq> []" "n < 0" "int (m_len (last ch)) \<ge> - n" "hdr_ok ch"
  shows "\<exists>ch'. m_adj h ch n st = (ch', st) \<and> chain_data mm ch' = take (m_length ch - nat (- n)) (chain_data mm ch) \<and> hdr_ok ch'"
proof -
  obtain pre m where ch: "ch = pre @ [m]" using assms(1) by (cases ch rule: rev_cases) auto
  let ?c = "pre @ [m\<lparr>m_len := m_len m - nat (- n)\<rparr>]"
  have n: "nat (- n) \<le> m_len m" using assms(2,3) by (simp add: ch)
  have hd: "has_hdr (hd ?c) = has_hdr (hd ch)" "m_pkthdr (hd ?c) = m_pkthdr (hd ch)" by (cases pre; simp add: ch has_hdr_def)+
  have len: "int (m_length ?c) = int (m_length ch) - - n" using n assms(2) by (simp add: ch)
  have "hdr_ok (if_hdr (\<lambda>p. p\<lparr>ph_len := ph_len p - - n\<rparr>) ?c)"
    using assms(2,4) len unfolding hdr_ok_def by (simp add: hd hd_if_hdr ch)
  moreover have "chain_data mm ?c = take (m_length ch - nat (- n)) (chain_data mm ch)" using n by (simp add: ch m_bytes_cut)
  ultimately show ?thesis using assms(2,3) by (simp add: m_adj_def Let_def ch)
qed

lemma m_adj_tail:
  assumes "ch \<noteq> []" "n < 0" "int (m_len (last ch)) < - n"
  shows "\<exists>ch' freed. m_adj h ch n st = (ch', if freed = [] then st else h_freem h freed st) \<and>
    chain_data mm ch' = take (m_length ch - nat (- n)) (chain_data mm ch) \<and> hdr_ok ch' \<and> freed = drop (length ch') ch"
proof -
  let ?count = "m_length ch - nat (- n)"
  have cnt: "(if int (m_length ch) - - n < 0 then 0 else int (m_length ch) - - n) = int ?count" using assms(2) by auto
  let ?c = "if_hdr (\<lambda>p. p\<lparr>ph_len := int ?count\<rparr>) ch"
  obtain kept freed where a: "adj_tail ?count ?c = (kept, freed)" by fastforce
  have k: "chain_data mm kept = take ?count (chain_data mm ?c) \<and> m_length kept = ?count \<and> kept \<noteq> [] \<and>
    has_hdr (hd kept) = has_hdr (hd ?c) \<and> m_pkthdr (hd kept) = m_pkthdr (hd ?c) \<and> freed = drop (length kept) ?c"
    by (rule adj_tail_ok [OF a]) (use assms(1) in simp_all)
  have "drop (length kept) ?c = drop (length kept) ch"
    using k assms(1) by (cases ch; cases kept; simp add: if_hdr_def upd_hdr_def)
  then have "freed = drop (length kept) ch" using k by simp
  moreover have "hdr_ok kept" using k assms(1) by (simp add: hdr_ok_def hd_if_hdr)
  moreover have "m_adj h ch n st = (kept, if freed = [] then st else h_freem h freed st)"
    using assms a cnt by (simp add: m_adj_def Let_def)
  ultimately show ?thesis using k by auto
qed

text \<open>
  C30: Trimming a packet. A length that is not negative drops that many bytes from the front,
  a negative one drops them from the end, at most all of them; the packet header, if there is one, keeps
  counting the bytes of the chain. Only mbufs behind the kept ones are freed.
\<close>

theorem m_adj_trims:
  assumes "m_adj h ch req_len st = (ch', st')" "hdr_ok ch"
  shows "chain_data mm ch' = (if req_len \<ge> 0 then drop (nat req_len) (chain_data mm ch)
      else take (m_length ch - nat (- req_len)) (chain_data mm ch)) \<and> hdr_ok ch' \<and>
    (st' = st \<or> st' = h_freem h (drop (length ch') ch) st)"
proof (cases "ch = []")
  case ne: False
  consider (head) "req_len \<ge> 0" | (last) "req_len < 0" "int (m_len (last ch)) \<ge> - req_len"
    | (tail) "req_len < 0" "int (m_len (last ch)) < - req_len" by linarith
  then show ?thesis
  proof cases
    case head
    then show ?thesis using m_adj_head [OF ne head assms(2), of h st mm] assms(1) by auto
  next
    case last
    then show ?thesis using m_adj_last [OF ne last assms(2), of h st mm] assms(1) by auto
  next
    case tail
    then obtain freed where "st' = (if freed = [] then st else h_freem h freed st)"
      "chain_data mm ch' = take (m_length ch - nat (- req_len)) (chain_data mm ch)" "hdr_ok ch'" "freed = drop (length ch') ch"
      using m_adj_tail [OF ne tail, of h st mm] assms(1) by auto
    then show ?thesis using tail(1) by (cases "freed = []") auto
  qed
qed (use assms in \<open>auto simp: m_adj_def\<close>)

section \<open>What the documentation gives\<close>

lemma doc_sizes: "mbuf_documented h used \<Longrightarrow> 0 < h_MHLEN h \<and> h_MHLEN h \<le> h_MLEN h \<and> h_MLEN h \<le> h_MCLBYTES h"
  by (simp add: mbuf_documented_def)

lemma doc_flags:
  "mbuf_documented h used \<Longrightarrow>
     M_PKTHDR \<in> h_COPYFLAGS h \<and> M_EXT \<notin> h_COPYFLAGS h \<and> M_EXT \<in> h_DEMOTEFLAGS h \<and> M_PKTHDR \<notin> h_DEMOTEFLAGS h"
  by (simp add: mbuf_documented_def)

lemma doc_macros: "mbuf_documented h used \<Longrightarrow> macros_documented h"
  by (simp add: mbuf_documented_def)

lemma doc_alloc: "mbuf_documented h used \<Longrightarrow> allocator_documented h used"
  by (simp add: mbuf_documented_def)

lemma doc_start: "mbuf_documented h used \<Longrightarrow> h_start h m = store_lo m \<and> h_size h m = store_hi h m - store_lo m"
  by (drule doc_macros) (simp add: macros_documented_def)

lemma doc_trailing:
  "mbuf_documented h used \<Longrightarrow> h_trailing h r m = (if h_writable h r m then store_hi h m - (m_data m + m_len m) else 0)"
  by (drule doc_macros) (unfold macros_documented_def, blast)

lemma doc_writable:
  assumes "mbuf_documented h used" "m_flags m = m_flags m'" "m_ext m = m_ext m'"
  shows "h_writable h r m = h_writable h r m'"
  using doc_macros [OF assms(1)] assms(2,3) unfolding macros_documented_def by blast

lemma doc_align:
  assumes "mbuf_documented h used"
  obtains a where "h_align h n m = m\<lparr>m_data := a\<rparr>"
    "\<lbrakk>wf_mbuf h m; m_len m = 0; n \<le> store_hi h m - store_lo m\<rbrakk> \<Longrightarrow> store_lo m \<le> a \<and> a + n \<le> store_hi h m"
  using doc_macros [OF assms] unfolding macros_documented_def by blast

lemma doc_fresh:
  assumes "mbuf_documented h used"
  shows "fresh_mbuf h used {} st (h_get h st)" "fresh_mbuf h used {M_PKTHDR} st (h_gethdr h st)"
    "fresh_mbuf h used {M_EXT} st (h_getcl h False st)" "fresh_mbuf h used {M_EXT, M_PKTHDR} st (h_getcl h True st)"
  using doc_alloc [OF assms] by (simp_all add: allocator_documented_def)

lemma doc_free:
  assumes "mbuf_documented h used"
  shows "mst_mem (h_free h m st) = mst_mem st" "used (mst_al st) - own_span h m \<subseteq> used (mst_al (h_free h m st))" "mst_mem (h_freem h ch st) = mst_mem st"
  using doc_alloc [OF assms] by (simp_all add: allocator_documented_def)

lemma doc_tags:
  assumes "mbuf_documented h used"
  shows "same_store used st (snd (h_tag_copy h ts st))" "same_store used st (h_snd_tag_ref h t st)"
  using assms by (simp_all add: mbuf_documented_def)

section \<open>Well-formed chains\<close>

lemma store_base_le: "wf_mbuf h m \<Longrightarrow> store_base m \<le> store_lo m"
  by (simp add: wf_mbuf_def store_base_def store_lo_def)

lemma wf_cap_ok: "wf_mbuf h m \<Longrightarrow> cap_ok m"
  using store_base_le [of h m] by (auto simp: wf_mbuf_def cap_ok_def inb_def)

lemma store_upd [simp]:
  "store_lo (m\<lparr>m_len := k\<rparr>) = store_lo m" "store_lo (m\<lparr>m_data := a\<rparr>) = store_lo m" "store_lo (m\<lparr>m_pkthdr := p\<rparr>) = store_lo m"
  "store_hi h (m\<lparr>m_len := k\<rparr>) = store_hi h m" "store_hi h (m\<lparr>m_data := a\<rparr>) = store_hi h m" "store_hi h (m\<lparr>m_pkthdr := p\<rparr>) = store_hi h m"
  "store_base (m\<lparr>m_len := k\<rparr>) = store_base m" "store_base (m\<lparr>m_data := a\<rparr>) = store_base m" "store_base (m\<lparr>m_pkthdr := p\<rparr>) = store_base m"
  by (simp_all add: store_lo_def store_hi_def store_base_def has_hdr_def)

lemma wf_upd_len: "wf_mbuf h m \<Longrightarrow> m_data m + k \<le> store_hi h m \<Longrightarrow> wf_mbuf h (m\<lparr>m_len := k\<rparr>)"
  by (simp add: wf_mbuf_def)

lemma wf_upd_hdr [simp]: "wf_mbuf h (m\<lparr>m_pkthdr := p\<rparr>) = wf_mbuf h m"
  by (simp add: wf_mbuf_def)

lemma span_simps [simp]: "span a 0 = {}" "x \<in> span a n \<longleftrightarrow> a \<le> x \<and> x < a + n"
  by (auto simp: span_def)

text \<open>Data that a write does not touch.\<close>

lemma m_bytes_cong: "(\<And>x. x \<in> data_span m \<Longrightarrow> mm x = mm' x) \<Longrightarrow> m_bytes mm m = m_bytes mm' m"
  unfolding m_bytes_def by (rule bytes_at_cong) (simp add: data_span_def)

lemma chain_data_same:
  assumes "\<And>m x. m \<in> set ch \<Longrightarrow> x \<in> data_span m \<Longrightarrow> mm x = mm' x"
  shows "chain_data mm ch = chain_data mm' ch"
  by (rule chain_data_cong) (rule m_bytes_cong, use assms in blast)

lemma put_bytes_other: "x \<notin> span a (length bs) \<Longrightarrow> put_bytes a bs mm x = mm x"
  by (auto simp: put_bytes_def)

text \<open>Writing behind the data and counting it in appends it.\<close>

lemma m_bytes_extend:
  "m_bytes (put_bytes (m_data m + m_len m) bs mm) (m\<lparr>m_len := m_len m + length bs\<rparr>) = m_bytes mm m @ bs"
proof -
  let ?mem = "put_bytes (m_data m + m_len m) bs mm"
  have "bytes_at ?mem (m_data m) (m_len m) = bytes_at mm (m_data m) (m_len m)" by (rule bytes_at_put_other) auto
  then show ?thesis by (simp add: m_bytes_def bytes_at_append)
qed

section \<open>An allocator\<close>

text \<open>
  Storage in blocks of 512 bytes, handed out in order and never reused: an instance that behaves as documented, on
  which the theorems are exercised.
\<close>

definition demo_new :: "mflag set \<Rightarrow> nat \<Rightarrow> bmbuf" where
  "demo_new fl a =
     \<lparr>m_obj = (a, a + 64), m_dat = a, m_pktdat = a + 24, m_ext_count = a,
      m_cap = (if M_EXT \<in> fl then (a + 64, a + 320) else (a, a + 64)),
      m_data = (if M_EXT \<in> fl then a + 64 else if M_PKTHDR \<in> fl then a + 24 else a), m_len = 0, m_flags = fl,
      m_pkthdr = pkthdr_zero, m_ext = \<lparr>ext_cnt = a, ext_embref = True, ext_extref = False, ext_buf = a + 64, ext_size = 256, ext_free = 0\<rparr>\<rparr>"

definition demo_alloc :: "mflag set \<Rightarrow> nat mst \<Rightarrow> bmbuf option \<times> nat mst" where
  "demo_alloc fl st = (Some (demo_new fl (mst_al st)), st\<lparr>mst_al := mst_al st + 512\<rparr>)"

definition demo_h :: "nat mbuf_h" where
  "demo_h =
     \<lparr>h_MLEN = 64, h_MHLEN = 40, h_MCLBYTES = 256, h_MINCLSIZE = 65, h_COPYALL = 1000000000,
      h_COPYFLAGS = {M_PKTHDR, M_EOR, M_RDONLY}, h_DEMOTEFLAGS = {M_EXT, M_RDONLY},
      h_start = store_lo, h_size = (\<lambda>m. (if M_EXT \<in> m_flags m then ext_buf (m_ext m) + ext_size (m_ext m) else m_dat m + 64) - store_lo m),
      h_writable = (\<lambda>r m. M_RDONLY \<notin> m_flags m),
      h_trailing = (\<lambda>r m. if M_RDONLY \<notin> m_flags m
        then (if M_EXT \<in> m_flags m then ext_buf (m_ext m) + ext_size (m_ext m) else m_dat m + 64) - (m_data m + m_len m) else 0),
      h_align = (\<lambda>n m. m\<lparr>m_data := (if M_EXT \<in> m_flags m then ext_buf (m_ext m) + ext_size (m_ext m) else m_dat m + 64) - n\<rparr>),
      h_get = demo_alloc {}, h_gethdr = demo_alloc {M_PKTHDR}, h_getcl = (\<lambda>p. demo_alloc (if p then {M_EXT, M_PKTHDR} else {M_EXT})),
      h_free = (\<lambda>_ st. st), h_freem = (\<lambda>_ st. st), h_tag_copy = (\<lambda>ts st. (Some ts, st)), h_snd_tag_ref = (\<lambda>_ st. st)\<rparr>"

definition demo_used :: "nat \<Rightarrow> nat set" where
  "demo_used a = {..<a}"

lemmas demo_simps = demo_h_def demo_alloc_def demo_new_def demo_used_def

lemma demo_fresh:
  assumes "fl = {} \<or> fl = {M_PKTHDR} \<or> fl = {M_EXT} \<or> fl = {M_EXT, M_PKTHDR}"
  shows "fresh_mbuf demo_h demo_used fl st (demo_alloc fl st)"
  using assms
  by (elim disjE) (auto simp: fresh_mbuf_def demo_simps wf_mbuf_def store_base_def store_lo_def store_hi_def own_span_def has_hdr_def)

lemma demo_documented: "mbuf_documented demo_h demo_used"
proof -
  have "allocator_documented demo_h demo_used"
    unfolding allocator_documented_def using demo_fresh by (simp add: demo_h_def)
  moreover have "macros_documented demo_h" unfolding macros_documented_def
  proof (intro conjI allI impI)
    fix m n
    have "h_align demo_h n m = m\<lparr>m_data := store_hi demo_h m - n\<rparr>" by (simp add: demo_h_def store_hi_def)
    moreover have "store_lo m \<le> store_hi demo_h m - n \<and> store_hi demo_h m - n + n \<le> store_hi demo_h m"
      if "wf_mbuf demo_h m \<and> m_len m = 0 \<and> n \<le> store_hi demo_h m - store_lo m"
      using that by (auto simp: wf_mbuf_def)
    ultimately show "\<exists>a. h_align demo_h n m = m\<lparr>m_data := a\<rparr> \<and> (wf_mbuf demo_h m \<and> m_len m = 0 \<and>
      n \<le> store_hi demo_h m - store_lo m \<longrightarrow> store_lo m \<le> a \<and> a + n \<le> store_hi demo_h m)" by blast
  qed (simp_all add: demo_h_def store_hi_def)
  ultimately show ?thesis by (simp add: mbuf_documented_def same_store_def) (simp add: demo_h_def demo_used_def)
qed

text \<open>A packet of two mbufs: a header mbuf with \<open>j\<close> bytes and a cluster with \<open>k\<close> bytes.\<close>

definition demo_packet :: "nat \<Rightarrow> nat \<Rightarrow> bmbuf list" where
  "demo_packet j k =
     [(demo_new {M_PKTHDR} 0)\<lparr>m_len := j, m_pkthdr := pkthdr_zero\<lparr>ph_len := int (j + k)\<rparr>\<rparr>, (demo_new {M_EXT} 512)\<lparr>m_len := k\<rparr>]"

definition demo_st :: "nat mst" where
  "demo_st = \<lparr>mst_mem = (\<lambda>a. of_nat a), mst_refs = (\<lambda>_. 1), mst_al = 1024\<rparr>"

theorem m_copydata_exact_witness:
  "m_copydata (demo_packet 10 20) 5 15 (2000, 2100) 2000 demo_st =
     Some (demo_st\<lparr>mst_mem := put_bytes 2000 (take 15 (drop 5 (chain_data (mst_mem demo_st) (demo_packet 10 20)))) (mst_mem demo_st)\<rparr>)"
proof -
  have "\<forall>m\<in>set (demo_packet 10 20). cap_ok m \<and> data_span m \<inter> span 2000 15 = {}"
    by (auto simp: demo_packet_def demo_new_def cap_ok_def inb_def data_span_def)
  moreover have "m_length (demo_packet 10 20) = 30" by (simp add: demo_packet_def)
  ultimately show ?thesis using m_copydata_exact [of "demo_packet 10 20" 2000 15 "(2000, 2100)" 5 demo_st] by (simp add: inb_def)
qed

theorem m_adj_trims_witness:
  "chain_data (\<lambda>a. of_nat a) (fst (m_adj demo_h (demo_packet 10 20) (-25) demo_st)) =
     take 5 (chain_data (\<lambda>a. of_nat a) (demo_packet 10 20)) \<and> hdr_ok (fst (m_adj demo_h (demo_packet 10 20) (-25) demo_st))"
  using m_adj_trims [of demo_h "demo_packet 10 20" "-25" demo_st "fst (m_adj demo_h (demo_packet 10 20) (-25) demo_st)"
      "snd (m_adj demo_h (demo_packet 10 20) (-25) demo_st)" "\<lambda>a. of_nat a"]
  by (simp add: demo_packet_def hdr_ok_def)

end
