(* ===== verification/Cksum.thy ===== *)
theory Cksum
  imports Mbuf
begin

text \<open>
  The Internet checksum of the TCP/IP stack (\<^verbatim>\<open>fstack-capio/modified-sources/freebsd/arm64/arm64/in_cksum.c\<close>),
  in both builds: \<open>in_cksumdata\<close> is the pure-capability one, whose loads are checked against the
  bounds of the buffer's capability, and \<open>in_cksumdata_masked\<close> the other, which reads whole aligned words
  and masks them. Addresses are natural numbers into one memory.
\<close>

section \<open>Definitions\<close>

definition q_s :: "nat \<Rightarrow> u64 \<Rightarrow> u64" where
  "q_s i q = drop_bit (16 * i) q AND 0xffff"

definition REDUCE32 :: "u64 \<Rightarrow> u64" where
  "REDUCE32 acc = q_s 0 acc + q_s 1 acc + q_s 2 acc + q_s 3 acc"

definition ADDCARRY :: "u64 \<Rightarrow> u64" where
  "ADDCARRY x = (if x > 65535 then x - 65535 else x)"

definition REDUCE16 :: "u64 \<Rightarrow> u64" where
  "REDUCE16 acc =
     (let l = (ucast (REDUCE32 acc) :: u32) in ADDCARRY (ucast (l AND 0xffff) + ucast (drop_bit 16 l)))"

text \<open>A capability is a pair of bounds; a load outside them faults.\<close>

definition ld32 :: "nat \<times> nat \<Rightarrow> bytes \<Rightarrow> nat \<Rightarrow> u32 option" where
  "ld32 c m a = (if fst c \<le> a \<and> a + 4 \<le> snd c then Some (get32 a m) else None)"

definition ld_bytes :: "nat \<times> nat \<Rightarrow> bytes \<Rightarrow> nat \<Rightarrow> nat \<Rightarrow> u8 list option" where
  "ld_bytes c m a n = (if fst c \<le> a \<and> a + n \<le> snd c then Some (bytes_at m a n) else None)"

text \<open>A zero word with the bytes \<open>bs\<close> copied to offset \<open>off\<close>.\<close>

definition word_with :: "nat \<Rightarrow> u8 list \<Rightarrow> u32" where
  "word_with off bs = rd32 0 (wr_bytes off bs (replicate 4 0))"

text \<open>Words 1 to 7 after \<open>lw\<close>, added up.\<close>

definition ld_line :: "(nat \<Rightarrow> u32 option) \<Rightarrow> nat \<Rightarrow> u64 option" where
  "ld_line ld lw =
     do { w1 \<leftarrow> ld (lw + 4); w2 \<leftarrow> ld (lw + 8); w3 \<leftarrow> ld (lw + 12); w4 \<leftarrow> ld (lw + 16);
          w5 \<leftarrow> ld (lw + 20); w6 \<leftarrow> ld (lw + 24); w7 \<leftarrow> ld (lw + 28);
          Some (ucast w1 + ucast w2 + ucast w3 + ucast w4 + ucast w5 + ucast w6 + ucast w7) }"

function loop32 :: "(nat \<Rightarrow> u32 option) \<Rightarrow> int \<Rightarrow> nat \<Rightarrow> u64 \<Rightarrow> u64 \<Rightarrow> (int \<times> nat \<times> u64 \<times> u64) option" where
  "loop32 ld len lw prefilled acc =
     (let len = len - 32 in
      if len \<ge> 4
      then do { prefilling \<leftarrow> ld (lw + 32);
                line \<leftarrow> ld_line ld lw;
                loop32 ld len (lw + 32) (ucast prefilling) (acc + (prefilled + line)) }
      else Some (len, lw, prefilled, acc))"
  by pat_completeness auto
termination by (relation "measure (\<lambda>(_, len, _). nat len)") auto

function loop16 :: "(nat \<Rightarrow> u32 option) \<Rightarrow> int \<Rightarrow> nat \<Rightarrow> u64 \<Rightarrow> (int \<times> nat \<times> u64) option" where
  "loop16 ld len lw acc =
     (let len = len - 16 in
      if len \<ge> 0
      then do { w0 \<leftarrow> ld lw; w1 \<leftarrow> ld (lw + 4); w2 \<leftarrow> ld (lw + 8); w3 \<leftarrow> ld (lw + 12);
                loop16 ld len (lw + 16) (acc + (ucast w0 + ucast w1 + ucast w2 + ucast w3)) }
      else Some (len, lw, acc))"
  by pat_completeness auto
termination by (relation "measure (\<lambda>(_, len, _). nat (len + 1))") auto

function loop4 :: "(nat \<Rightarrow> u32 option) \<Rightarrow> int \<Rightarrow> nat \<Rightarrow> u64 \<Rightarrow> (int \<times> nat \<times> u64) option" where
  "loop4 ld len lw acc =
     (let len = len - 4 in
      if len \<ge> 0 then do { w \<leftarrow> ld lw; loop4 ld len (lw + 4) (acc + ucast w) }
      else Some (len, lw, acc))"
  by pat_completeness auto
termination by (relation "measure (\<lambda>(_, len, _). nat (len + 1))") auto

declare loop32.simps [simp del] loop16.simps [simp del] loop4.simps [simp del]

text \<open>From the prefetch of the first word to the end; \<open>ldt lw n\<close> loads the last \<open>n\<close> bytes.\<close>

definition cksum_rest :: "(nat \<Rightarrow> u32 option) \<Rightarrow> (nat \<Rightarrow> nat \<Rightarrow> u32 option) \<Rightarrow> nat \<Rightarrow> int \<Rightarrow> u64 \<Rightarrow> u64 option" where
  "cksum_rest ld ldt lw len acc =
     do { prefilled \<leftarrow> ld lw;
          (len, lw, prefilled, acc) \<leftarrow> loop32 ld len lw (ucast prefilled) acc;
          (len, lw, acc) \<leftarrow>
            (if len \<ge> 0 then do { line \<leftarrow> ld_line ld lw; Some (len, lw + 32, acc + (prefilled + line)) }
             else Some (len + 32, lw, acc));
          (len, lw, acc) \<leftarrow> loop16 ld len lw acc;
          (len, lw, acc) \<leftarrow> loop4 ld (len + 16) lw acc;
          let len = len + 4;
          acc \<leftarrow> (if len > 0 then do { t \<leftarrow> ldt lw (nat len); Some (acc + ucast t) } else Some acc);
          Some (REDUCE32 acc) }"

definition cksum_hdr20 :: "(nat \<Rightarrow> u32 option) \<Rightarrow> nat \<Rightarrow> u64 option" where
  "cksum_hdr20 ld lw =
     do { w0 \<leftarrow> ld lw; w1 \<leftarrow> ld (lw + 4); w2 \<leftarrow> ld (lw + 8); w3 \<leftarrow> ld (lw + 12); w4 \<leftarrow> ld (lw + 16);
          Some (REDUCE32 (ucast w0 + ucast w1 + ucast w2 + ucast w3 + ucast w4)) }"

definition in_cksumdata :: "nat \<times> nat \<Rightarrow> bytes \<Rightarrow> nat \<Rightarrow> int \<Rightarrow> u64 option" where
  "in_cksumdata c m lw len =
     (let ld = ld32 c m; ldt = (\<lambda>a n. map_option (word_with 0) (ld_bytes c m a n)); offset = lw mod 4 in
      if offset = 0 \<and> len = 20 then cksum_hdr20 ld lw
      else if offset \<noteq> 0
      then let nhead = 4 - int offset; nhead = (if nhead > len then len else nhead) in
           do { bs \<leftarrow> (if nhead < 0 then None else ld_bytes c m lw (nat nhead));
                let acc = ucast (word_with offset bs);
                let lw = lw + nat nhead;
                let len = len - (4 - int offset);
                if len \<le> 0 then Some (REDUCE32 acc) else cksum_rest ld ldt lw len acc }
      else cksum_rest ld ldt lw len 0)"

definition in_masks :: "u32 list" where
  "in_masks =
     [0x00000000, 0x000000FF, 0x0000FFFF, 0x00FFFFFF,
      0x00000000, 0x0000FF00, 0x00FFFF00, 0xFFFFFF00,
      0x00000000, 0x00FF0000, 0xFFFF0000, 0xFFFF0000,
      0x00000000, 0xFF000000, 0xFF000000, 0xFF000000]"

definition in_cksumdata_masked :: "bytes \<Rightarrow> nat \<Rightarrow> int \<Rightarrow> u64 option" where
  "in_cksumdata_masked m lw len =
     (let ld = (\<lambda>a. Some (get32 a m)); ldt = (\<lambda>a n. Some (in_masks ! n AND get32 a m)); offset = lw mod 4 in
      if offset = 0 \<and> len = 20 then cksum_hdr20 ld lw
      else if offset \<noteq> 0
      then if len < 0 then None else
           let lw = lw - offset;
               acc = ucast (get32 lw m AND in_masks ! (4 * offset + (if len \<ge> 3 then 3 else nat len)));
               lw = lw + 4; len = len - (4 - int offset) in
           if len \<le> 0 then Some (REDUCE32 acc) else cksum_rest ld ldt lw len acc
      else cksum_rest ld ldt lw len 0)"

text \<open>Both loops of \<open>in_cksum_skip\<close>; \<open>cksum_seg\<close> is the code behind \<open>skip_start\<close>.\<close>

definition cksum_seg :: "bytes \<Rightarrow> bmbuf \<Rightarrow> nat \<Rightarrow> int \<Rightarrow> int \<times> int \<times> u64 \<Rightarrow> (int \<times> int \<times> u64) option" where
  "cksum_seg mm m addr mlen st =
     (case st of (len, clen, acc) \<Rightarrow>
      let mlen = (if len < mlen then len else mlen) in
      do { d \<leftarrow> in_cksumdata (m_cap m) mm addr mlen;
           let acc = acc + (if odd clen \<noteq> odd addr then push_bit 8 d else d);
           Some (len - mlen, clen + mlen, acc) })"

fun cksum_chain :: "bytes \<Rightarrow> bmbuf list \<Rightarrow> int \<times> int \<times> u64 \<Rightarrow> (int \<times> int \<times> u64) option" where
  "cksum_chain mm [] st = Some st"
| "cksum_chain mm (m # ch) st =
     (if fst st = 0 then Some st
      else if m_len m = 0 then cksum_chain mm ch st
      else do { st \<leftarrow> cksum_seg mm m (m_data m) (int (m_len m)) st; cksum_chain mm ch st })"

fun cksum_skip :: "bytes \<Rightarrow> bmbuf list \<Rightarrow> int \<Rightarrow> int \<times> int \<times> u64 \<Rightarrow> (int \<times> int \<times> u64) option" where
  "cksum_skip mm [] skip st = Some st"
| "cksum_skip mm (m # ch) skip st =
     (if skip = 0 then cksum_chain mm (m # ch) st
      else if int (m_len m) > skip
      then do { st \<leftarrow> cksum_seg mm m (m_data m + nat skip) (int (m_len m) - skip) st; cksum_chain mm ch st }
      else cksum_skip mm ch (skip - int (m_len m)) st)"

definition in_cksum_skip :: "bytes \<Rightarrow> bmbuf list \<Rightarrow> int \<Rightarrow> int \<Rightarrow> u16 option" where
  "in_cksum_skip mm ch len skip =
     do { (_, _, acc) \<leftarrow> cksum_skip mm ch skip (len - skip, 0, 0); Some (ucast (NOT (REDUCE16 acc) AND 0xffff)) }"

definition in_cksum_hdr :: "nat \<times> nat \<Rightarrow> bytes \<Rightarrow> nat \<Rightarrow> u32 option" where
  "in_cksum_hdr c mm ip = do { s \<leftarrow> in_cksumdata c mm ip 20; Some (ucast (NOT (REDUCE16 s) AND 0xffff)) }"

definition in_addword :: "u16 \<Rightarrow> u16 \<Rightarrow> u16" where
  "in_addword a b = ucast (ADDCARRY (ucast a + ucast b))"

definition in_pseudo :: "u32 \<Rightarrow> u32 \<Rightarrow> u32 \<Rightarrow> u16" where
  "in_pseudo a b c = ucast (REDUCE16 (ucast a + ucast b + ucast c))"

section \<open>Sums modulo 65535\<close>

text \<open>
  Weighted sum of \<open>n\<close> bytes at \<open>a\<close>: bytes at odd addresses count 256 times. Reducing a little-endian
  word keeps this sum up to multiples of 65535, and it is zero only if the sum is.
\<close>

primrec psum :: "bytes \<Rightarrow> nat \<Rightarrow> nat \<Rightarrow> nat" where
  "psum m a 0 = 0"
| "psum m a (Suc n) = unat (m a) * (if even a then 1 else 256) + psum m (Suc a) n"

definition rep :: "nat \<Rightarrow> nat \<Rightarrow> bool" where
  "rep s p \<longleftrightarrow> s mod 65535 = p mod 65535 \<and> (s = 0 \<longleftrightarrow> p = 0)"

lemma rep_refl [simp]: "rep p p"
  by (simp add: rep_def)

lemma rep_trans [trans]: "rep a b \<Longrightarrow> rep b c \<Longrightarrow> rep a c"
  by (simp add: rep_def)

lemma rep_add: "rep a b \<Longrightarrow> rep c d \<Longrightarrow> rep (a + c) (b + d)"
  unfolding rep_def by (metis add_is_0 mod_add_eq)

lemma rep_mult: "rep a b \<Longrightarrow> 0 < k \<Longrightarrow> rep (k * a) (k * b)"
  unfolding rep_def by (metis mod_mult_right_eq mult_is_0 neq0_conv)

lemma rep_unique:
  assumes "rep a p" "rep b p" "a \<le> 65535" "b \<le> 65535"
  shows "a = b"
proof -
  have "a mod 65535 = b mod 65535" "a = 0 \<longleftrightarrow> b = 0" using assms(1,2) by (simp_all add: rep_def)
  with assms(3,4) show ?thesis by (cases "a = 65535"; cases "b = 65535") simp_all
qed

lemma rep_65536: "rep (65536 * x) x"
proof -
  have "65536 * x = x + 65535 * x" by simp
  then have "(65536 * x) mod 65535 = x mod 65535" by (metis mod_mult_self2)
  then show ?thesis by (simp add: rep_def)
qed

lemma rep_carry: "rep (if s > 65535 then s - 65535 else s) s"
proof -
  have "(s - 65535) mod 65535 = s mod 65535" if "65535 < s" using that by (metis le_mod_geq less_imp_le_nat)
  then show ?thesis by (auto simp: rep_def)
qed

lemma psum_numeral [simp]:
  "psum m a (numeral k) = unat (m a) * (if even a then 1 else 256) + psum m (Suc a) (pred_numeral k)"
  by (simp add: numeral_eq_Suc del: mult_numeral_1_right)

lemma psum_add: "psum m a (j + k) = psum m a j + psum m (a + j) k"
  by (induction j arbitrary: a) simp_all

text \<open>Moving the data by one byte multiplies the sum by 256.\<close>

lemma psum_shift:
  assumes "\<And>i. i < n \<Longrightarrow> m' (b + i) = m (a + i)" "even b \<longleftrightarrow> odd a"
  shows "rep (256 * psum m a n) (psum m' b n)"
  using assms
proof (induction n arbitrary: a b)
  case (Suc n)
  have "m' (Suc b + i) = m (Suc a + i)" if "i < n" for i using Suc.prems(1) [of "Suc i"] that by simp
  then have "rep (256 * psum m (Suc a) n) (psum m' (Suc b) n)" using Suc.prems(2) by (intro Suc.IH) simp_all
  moreover have "rep (256 * (unat (m a) * (if even a then 1 else 256))) (unat (m' b) * (if even b then 1 else 256))"
  proof (cases "even a")
    case True
    then show ?thesis using Suc.prems(1) [of 0] Suc.prems(2) by (simp add: mult.commute)
  next
    case False
    then show ?thesis using Suc.prems(1) [of 0] Suc.prems(2) rep_65536 [of "unat (m a)"] by (simp add: mult.commute)
  qed
  ultimately show ?case unfolding psum.simps distrib_left by (intro rep_add)
qed simp

lemma psum_same:
  assumes "\<And>i. i < n \<Longrightarrow> m' (b + i) = m (a + i)" "even b \<longleftrightarrow> even a"
  shows "psum m a n = psum m' b n"
  using assms
proof (induction n arbitrary: a b)
  case (Suc n)
  have "m' (Suc b + i) = m (Suc a + i)" if "i < n" for i using Suc.prems(1) [of "Suc i"] that by simp
  then have "psum m (Suc a) n = psum m' (Suc b) n" using Suc.prems(2) by (intro Suc.IH) simp_all
  then show ?case using Suc.prems(1) [of 0] Suc.prems(2) by simp
qed simp

subsection \<open>Reduction\<close>

lemma unat_q_s: "unat (q_s i q) = unat q div 2 ^ (16 * i) mod 65536"
proof -
  have "q_s i q = take_bit 16 (drop_bit (16 * i) q)" by (simp add: q_s_def take_bit_eq_mask mask_eq_exp_minus_1)
  then have "unat (q_s i q) = take_bit 16 (drop_bit (16 * i) (unat q))"
    by (simp only: unsigned_take_bit_eq unat_drop_bit_eq)
  then show ?thesis by (simp add: take_bit_eq_mod drop_bit_eq_div)
qed

lemma unat_REDUCE32:
  "unat (REDUCE32 s) = unat (q_s 0 s) + unat (q_s 1 s) + unat (q_s 2 s) + unat (q_s 3 s)"
  "unat (REDUCE32 s) \<le> 4 * 65535"
proof -
  have b: "unat (q_s i s) \<le> 65535" for i unfolding unat_q_s using mod_less_divisor [of 65536 "unat s div 2 ^ (16 * i)"] by linarith
  show e: "unat (REDUCE32 s) = unat (q_s 0 s) + unat (q_s 1 s) + unat (q_s 2 s) + unat (q_s 3 s)"
    unfolding REDUCE32_def using b [of 0] b [of 1] b [of 2] b [of 3]
    by (simp add: unat_word_ariths)
  show "unat (REDUCE32 s) \<le> 4 * 65535" unfolding e using b [of 0] b [of 1] b [of 2] b [of 3] by linarith
qed

lemma rep_high: "rep (s mod 65536 + s div 65536) s"
proof -
  define d r where "d = s div 65536" and "r = s mod 65536"
  have s: "s = 65536 * d + r" by (simp add: d_def r_def)
  have "rep (r + d) (r + 65536 * d)" unfolding rep_def using rep_65536 [of d]
    by (metis (no_types) rep_def rep_add rep_refl)
  then have "rep (r + d) s" by (simp add: s add.commute)
  then show ?thesis by (simp add: d_def r_def)
qed

lemma rep_REDUCE32: "rep (unat (REDUCE32 s)) (unat s)"
proof -
  define n0 n1 n2 n3 where "n0 = unat s" and "n1 = n0 div 65536" and "n2 = n1 div 65536" and "n3 = n2 div 65536"
  have "n0 < 65536 * 65536 * 65536 * 65536" using unsigned_less [of s] by (simp add: n0_def)
  then have n3: "n3 < 65536" by (simp add: n3_def n2_def n1_def less_mult_imp_div_less)
  have e: "unat (q_s 0 s) = n0 mod 65536" "unat (q_s 1 s) = n1 mod 65536" "unat (q_s 2 s) = n2 mod 65536"
    "unat (q_s 3 s) = n3"
    using n3 by (simp_all add: unat_q_s n3_def n2_def n1_def n0_def div_mult2_eq [symmetric])
  have "rep (n0 mod 65536 + n1) n0" unfolding n1_def by (rule rep_high)
  moreover have 1: "rep (n1 mod 65536 + n2) n1" unfolding n2_def by (rule rep_high)
  moreover have 2: "rep (n2 mod 65536 + n3) n2" unfolding n3_def by (rule rep_high)
  have "rep (n1 mod 65536 + (n2 mod 65536 + n3)) n1" by (rule rep_trans [OF rep_add [OF rep_refl 2] 1])
  ultimately have "rep (n0 mod 65536 + (n1 mod 65536 + (n2 mod 65536 + n3))) n0"
    by (blast intro: rep_trans rep_add rep_refl)
  then show ?thesis unfolding unat_REDUCE32(1) e n0_def [symmetric] by (simp add: add.assoc)
qed

lemma unat_ADDCARRY: "unat (ADDCARRY t) = (if unat t > 65535 then unat t - 65535 else unat t)"
  by (simp add: ADDCARRY_def word_less_nat_alt unat_sub word_le_nat_alt)

lemma unat_widen [simp]: "unat (ucast (w :: u32) :: u64) = unat w" "unat (ucast (v :: u16) :: u64) = unat v"
  by (simp_all add: unsigned_ucast_eq take_bit_nat_eq_self_iff order_less_trans [OF unsigned_less])

lemma REDUCE16_rep: "unat (REDUCE16 s) \<le> 65535" "rep (unat (REDUCE16 s)) (unat s)"
proof -
  define r where "r = unat (REDUCE32 s)"
  have r: "r \<le> 262140" using unat_REDUCE32(2) [of s] by (simp add: r_def)
  define l where "l = (ucast (REDUCE32 s) :: u32)"
  have l: "unat l = r" using r by (simp add: l_def r_def unsigned_ucast_eq take_bit_nat_eq_self_iff)
  have lo: "unat (l AND 0xffff) = r mod 65536"
  proof -
    have "l AND 0xffff = take_bit 16 l" by (simp add: take_bit_eq_mask mask_eq_exp_minus_1)
    then have "unat (l AND 0xffff) = take_bit 16 (unat l)" by (simp only: unsigned_take_bit_eq)
    then show ?thesis using l by (simp add: take_bit_eq_mod)
  qed
  have hi: "unat (drop_bit 16 l) = r div 65536" using l by (simp only: unat_drop_bit_eq) (simp add: drop_bit_eq_div)
  have hb: "r div 65536 \<le> 3" using r by (simp add: div_le_mono [of r 262140 65536, simplified])
  define t where "t = (ucast (l AND 0xffff) + ucast (drop_bit 16 l) :: u64)"
  have t: "unat t = r mod 65536 + r div 65536"
    using lo hi hb mod_less_divisor [of 65536 r] by (simp add: t_def unat_word_ariths del: mod_less_divisor)
  have R: "REDUCE16 s = ADDCARRY t" by (simp add: REDUCE16_def l_def t_def Let_def)
  note c = unat_ADDCARRY [of t]
  have tb: "unat t \<le> 65538" unfolding t using hb mod_less_divisor [of 65536 r] by linarith
  then show "unat (REDUCE16 s) \<le> 65535" unfolding R c by (simp add: le_diff_conv)
  have "rep (unat (ADDCARRY t)) (unat t)" unfolding c by (rule rep_carry)
  also have "rep (unat t) r" unfolding t by (rule rep_high)
  also have "rep r (unat s)" unfolding r_def by (rule rep_REDUCE32)
  finally show "rep (unat (REDUCE16 s)) (unat s)" unfolding R .
qed

section \<open>The summing loops\<close>

primrec wsum :: "bytes \<Rightarrow> nat \<Rightarrow> nat \<Rightarrow> nat" where
  "wsum m lw 0 = 0"
| "wsum m lw (Suc k) = unat (get32 lw m) + wsum m (lw + 4) k"

lemma wsum_numeral [simp]: "wsum m lw (numeral k) = unat (get32 lw m) + wsum m (lw + 4) (pred_numeral k)"
  by (simp add: numeral_eq_Suc)

lemma wsum_add: "wsum m lw (j + k) = wsum m lw j + wsum m (lw + 4 * j) k"
  by (induction j arbitrary: lw) (simp_all add: add.assoc [symmetric])

lemma unat_le32:
  "unat (le32 a b c d) = unat a + 256 * unat b + 65536 * unat c + 16777216 * unat d"
proof -
  have u: "unat (ucast w :: u32) = unat w" for w :: u8 by (simp add: unsigned_ucast_eq take_bit_nat_eq_self_iff order_less_trans [OF unsigned_less])
  have l: "unat w \<le> 255" for w :: u8
  proof -
    have "unat w < 2 ^ LENGTH(8)" by (rule unsigned_less)
    then show ?thesis by simp
  qed
  have p: "unat (push_bit n (ucast w :: u32)) = 2 ^ n * unat w" if "n \<le> 24" for n and w :: u8
  proof -
    have "2 ^ n * unat w < 2 ^ n * 2 ^ 8" using unsigned_less [of w] by simp
    also have "\<dots> \<le> (2 :: nat) ^ 24 * 2 ^ 8" using that by (intro mult_right_mono power_increasing) simp_all
    finally show ?thesis unfolding unsigned_push_bit_eq u by (simp add: take_bit_nat_eq_self_iff push_bit_eq_mult mult.commute)
  qed
  have o: "x OR y = x + y" if "x AND y = 0" for x y :: u32 using that by (simp add: disjunctive_add_eq_or)
  have 1: "ucast a OR push_bit 8 (ucast b) = ucast a + (push_bit 8 (ucast b) :: u32)"
    by (rule o, rule bit_word_eqI) (auto simp: bit_simps dest: bit_imp_le_length)
  have 2: "ucast a OR push_bit 8 (ucast b) OR push_bit 16 (ucast c) = (ucast a OR push_bit 8 (ucast b)) + (push_bit 16 (ucast c) :: u32)"
    by (subst or.assoc [symmetric], rule o, rule bit_word_eqI) (auto simp: bit_simps dest: bit_imp_le_length)
  have 3: "le32 a b c d = (ucast a OR push_bit 8 (ucast b) OR push_bit 16 (ucast c)) + push_bit 24 (ucast d)"
    unfolding le32_def by (simp only: or.assoc [symmetric], rule o, rule bit_word_eqI) (auto simp: bit_simps dest: bit_imp_le_length)
  show ?thesis unfolding 3 2 1 using p [of 8 b] p [of 16 c] p [of 24 d] l [of a] l [of b] l [of c] l [of d] u [of a]
    by (simp add: unat_word_ariths)
qed

text \<open>The \<open>k\<close> words from \<open>lw\<close> on can be loaded.\<close>

primrec readable :: "(nat \<Rightarrow> bool) \<Rightarrow> nat \<Rightarrow> nat \<Rightarrow> bool" where
  "readable ok lw 0 \<longleftrightarrow> True"
| "readable ok lw (Suc k) \<longleftrightarrow> ok lw \<and> readable ok (lw + 4) k"

lemma readable_numeral [simp]: "readable ok lw (numeral k) \<longleftrightarrow> ok lw \<and> readable ok (lw + 4) (pred_numeral k)"
  by (simp add: numeral_eq_Suc)

lemma readable_add: "readable ok lw (j + k) \<longleftrightarrow> readable ok lw j \<and> readable ok (lw + 4 * j) k"
  by (induction j arbitrary: lw) (simp_all add: add.assoc [symmetric])

lemma readable_iff: "readable ok lw k \<longleftrightarrow> (\<forall>i<k. ok (lw + 4 * i))"
  by (induction k arbitrary: lw) (simp_all add: All_less_Suc2 add.assoc)

text \<open>
  Both builds share the loops and differ in how they load. A load either faults or gives the word in
  memory.
\<close>

locale word_loads =
  fixes ld :: "nat \<Rightarrow> u32 option" and ldt :: "nat \<Rightarrow> nat \<Rightarrow> u32 option" and m :: bytes
    and ok :: "nat \<Rightarrow> bool" and okt :: "nat \<Rightarrow> nat \<Rightarrow> bool"
  assumes ld: "ld a = (if ok a then Some (get32 a m) else None)"
    and ldt: "\<lbrakk>0 < n; n < 4\<rbrakk> \<Longrightarrow> ldt a n = (if okt a n then Some (word_with 0 (bytes_at m a n)) else None)"
begin

lemma ld_line_ok:
  assumes "readable ok (lw + 4) 7"
  shows "ld_line ld lw = Some (of_nat (wsum m (lw + 4) 7))"
  using assms by (simp add: ld_line_def ld add.assoc)

lemma loop32_ok:
  assumes "readable ok lw (nat len div 4)" "ok lw"
  shows "\<exists>q. loop32 ld len lw (ucast (get32 lw m)) acc =
      Some (len - 32 * (int q + 1), lw + 32 * q, ucast (get32 (lw + 32 * q) m), acc + of_nat (wsum m lw (8 * q))) \<and>
    len < 32 * int q + 36 \<and> (0 < q \<longrightarrow> 32 * int q + 4 \<le> len)"
  using assms
proof (induction "nat len" arbitrary: len lw acc rule: less_induct)
  case less
  show ?case
  proof (cases "len - 32 \<ge> 4")
    case False
    then show ?thesis by (intro exI [of _ 0]) (simp add: loop32.simps [of ld len])
  next
    case True
    have n: "nat len div 4 = 8 + nat (len - 32) div 4" using True by (simp add: nat_diff_distrib)
    have r: "readable ok lw 8" "readable ok (lw + 32) (nat (len - 32) div 4)"
      using less.prems(1) unfolding n readable_add by simp_all
    have "0 < nat (len - 32) div 4" using True by (simp add: div_greater_zero_iff)
    then have o: "ok (lw + 32)" using r(2) by (cases "nat (len - 32) div 4") auto
    have "readable ok (lw + 4) 7" using r(1) by simp
    note line = ld_line_ok [OF this]
    have lt: "nat (len - 32) < nat len" using True by simp
    obtain q where q: "loop32 ld (len - 32) (lw + 32) (ucast (get32 (lw + 32) m)) (acc + of_nat (wsum m lw 8)) =
        Some (len - 32 - 32 * (int q + 1), lw + 32 + 32 * q, ucast (get32 (lw + 32 + 32 * q) m),
          acc + of_nat (wsum m lw 8) + of_nat (wsum m (lw + 32) (8 * q)))"
      "len - 32 < 32 * int q + 36" "0 < q \<longrightarrow> 32 * int q + 4 \<le> len - 32"
      using less.hyps [OF lt r(2) o, of "acc + of_nat (wsum m lw 8)"] by blast
    have w: "wsum m lw (8 + 8 * q) = wsum m lw 8 + wsum m (lw + 32) (8 * q)"
      using wsum_add [of m lw 8 "8 * q"] by (simp del: wsum_numeral)
    have "loop32 ld len lw (ucast (get32 lw m)) acc =
        loop32 ld (len - 32) (lw + 32) (ucast (get32 (lw + 32) m)) (acc + of_nat (wsum m lw 8))"
      using True line o by (subst loop32.simps) (simp add: Let_def ld)
    then show ?thesis using q(2,3) True unfolding q(1) by (intro exI [of _ "Suc q"]) (auto simp: w add.assoc simp del: wsum_numeral)
  qed
qed

lemma loop16_ok:
  assumes "readable ok lw (n div 4)"
  shows "\<exists>q. loop16 ld (int n) lw acc = Some (int n - 16 * (int q + 1), lw + 16 * q, acc + of_nat (wsum m lw (4 * q))) \<and>
    16 * q \<le> n \<and> n < 16 * q + 16"
  using assms
proof (induction n arbitrary: lw acc rule: less_induct)
  case (less n)
  show ?case
  proof (cases "16 \<le> n")
    case False
    then show ?thesis by (intro exI [of _ 0]) (simp add: loop16.simps [of ld "int n"])
  next
    case True
    then obtain k where k: "n = 16 + k" using le_Suc_ex by blast
    then have n: "n div 4 = 4 + k div 4" by simp
    have r: "readable ok lw 4" "readable ok (lw + 16) (k div 4)" using less.prems unfolding n readable_add by simp_all
    obtain q where q: "loop16 ld (int k) (lw + 16) (acc + of_nat (wsum m lw 4)) =
        Some (int k - 16 * (int q + 1), lw + 16 + 16 * q, acc + of_nat (wsum m lw 4) + of_nat (wsum m (lw + 16) (4 * q)))"
      "16 * q \<le> k" "k < 16 * q + 16"
      using less.IH [of k "lw + 16" "acc + of_nat (wsum m lw 4)"] k r(2) by auto
    have w: "wsum m lw (4 + 4 * q) = wsum m lw 4 + wsum m (lw + 16) (4 * q)"
      using wsum_add [of m lw 4 "4 * q"] by (simp del: wsum_numeral)
    have "loop16 ld (int n) lw acc = loop16 ld (int k) (lw + 16) (acc + of_nat (wsum m lw 4))"
      using r(1) by (subst loop16.simps) (simp add: k Let_def ld add.assoc)
    then show ?thesis using q(2,3) unfolding q(1) by (intro exI [of _ "Suc q"]) (simp add: w k add.assoc del: wsum_numeral)
  qed
qed

lemma loop4_ok:
  assumes "readable ok lw (n div 4)"
  shows "loop4 ld (int n) lw acc = Some (int (n mod 4) - 4, lw + 4 * (n div 4), acc + of_nat (wsum m lw (n div 4)))"
  using assms
proof (induction n arbitrary: lw acc rule: less_induct)
  case (less n)
  show ?case
  proof (cases "4 \<le> n")
    case False
    then show ?thesis by (simp add: loop4.simps [of ld "int n"])
  next
    case True
    then obtain k where k: "n = 4 + k" using le_Suc_ex by blast
    then have n: "n div 4 = Suc (k div 4)" by simp
    have r: "ok lw" "readable ok (lw + 4) (k div 4)" using less.prems unfolding n by simp_all
    have "loop4 ld (int n) lw acc = loop4 ld (int k) (lw + 4) (acc + ucast (get32 lw m))"
      using r(1) by (subst loop4.simps) (simp add: k Let_def ld)
    then show ?thesis using less.IH [of k "lw + 4"] k r(2) n by simp
  qed
qed

lemma rest_ok:
  assumes "readable ok lw (n div 4)" "ok lw" "0 < n mod 4 \<longrightarrow> okt (lw + 4 * (n div 4)) (n mod 4)"
  shows "cksum_rest ld ldt lw (int n) acc =
    Some (REDUCE32 (acc + of_nat (wsum m lw (n div 4)) +
      (if n mod 4 = 0 then 0 else ucast (word_with 0 (bytes_at m (lw + 4 * (n div 4)) (n mod 4))))))"
proof -
  obtain q where q: "loop32 ld (int n) lw (ucast (get32 lw m)) acc =
      Some (int n - 32 * (int q + 1), lw + 32 * q, ucast (get32 (lw + 32 * q) m), acc + of_nat (wsum m lw (8 * q)))"
    "int n < 32 * int q + 36" "0 < q \<longrightarrow> 32 * int q + 4 \<le> int n"
    using loop32_ok [of lw "int n" acc] assms(1,2) by auto
  define q' where "q' = (if 32 * (q + 1) \<le> n then q + 1 else q)"
  have q': "32 * q' \<le> n" using q(3) by (auto simp: q'_def)
  define k where "k = n - 32 * q'"
  have n: "n = 32 * q' + k" "n div 4 = 8 * q' + k div 4" "n mod 4 = k mod 4"
    using q' div_mult_self1 [of 4 k "8 * q'"] mod_mult_self1 [of k "8 * q'" 4] by (simp_all add: k_def)
  have r: "readable ok lw (8 * q')" "readable ok (lw + 32 * q') (k div 4)" using assms(1) unfolding n(2) readable_add by simp_all
  have line: "ld_line ld (lw + 32 * q) = Some (of_nat (wsum m (lw + 32 * q + 4) 7))" if "32 * (q + 1) \<le> n"
  proof (rule ld_line_ok)
    have "readable ok lw (8 * q + 8)" using r(1) that by (simp add: q'_def add.commute)
    then show "readable ok (lw + 32 * q + 4) 7" unfolding readable_add by simp
  qed
  have w: "wsum m lw (8 * q) + (unat (get32 (lw + 32 * q) m) + wsum m (lw + 32 * q + 4) 7) = wsum m lw (8 * Suc q)"
    using wsum_add [of m lw "8 * q" 8] by (simp add: add.commute)
  have mid: "(if int n - 32 * (int q + 1) \<ge> 0
      then do { line \<leftarrow> ld_line ld (lw + 32 * q);
                Some (int n - 32 * (int q + 1), lw + 32 * q + 32, acc + of_nat (wsum m lw (8 * q)) + (ucast (get32 (lw + 32 * q) m) + line)) }
      else Some (int n - 32 * (int q + 1) + 32, lw + 32 * q, acc + of_nat (wsum m lw (8 * q)))) =
    Some (int k, lw + 32 * q', acc + of_nat (wsum m lw (8 * q')))"
  proof (cases "32 * (q + 1) \<le> n")
    case True
    then have "q' = Suc q" "0 \<le> int n - 32 * (int q + 1)" "int n - 32 * (int q + 1) = int k" "lw + 32 * q + 32 = lw + 32 * q'"
      by (simp_all add: q'_def k_def)
    moreover have "of_nat (wsum m lw (8 * q)) + (ucast (get32 (lw + 32 * q) m) + of_nat (wsum m (lw + 32 * q + 4) 7)) =
        (of_nat (wsum m lw (8 * q')) :: u64)"
      unfolding \<open>q' = Suc q\<close> w [symmetric] by (simp del: wsum_numeral)
    ultimately show ?thesis using line [OF True] by (simp add: add.assoc del: wsum_numeral)
  next
    case False
    then have "q' = q" "\<not> 0 \<le> int n - 32 * (int q + 1)" "int n - 32 * (int q + 1) + 32 = int k"
      using q' by (simp_all add: q'_def k_def)
    then show ?thesis by simp
  qed
  obtain p where p: "loop16 ld (int k) (lw + 32 * q') (acc + of_nat (wsum m lw (8 * q'))) =
      Some (int k - 16 * (int p + 1), lw + 32 * q' + 16 * p, acc + of_nat (wsum m lw (8 * q')) + of_nat (wsum m (lw + 32 * q') (4 * p)))"
    "16 * p \<le> k" "k < 16 * p + 16"
    using loop16_ok [OF r(2)] by blast
  define j where "j = k - 16 * p"
  have k: "k = 16 * p + j" "k div 4 = 4 * p + j div 4" "k mod 4 = j mod 4"
    using p(2) div_mult_self1 [of 4 j "4 * p"] mod_mult_self1 [of j "4 * p" 4] by (simp_all add: j_def)
  have "readable ok (lw + 32 * q' + 16 * p) (j div 4)" using r(2) unfolding k(2) readable_add by simp
  note l4 = loop4_ok [OF this, of "acc + of_nat (wsum m lw (8 * q')) + of_nat (wsum m (lw + 32 * q') (4 * p))"]
  have W: "wsum m lw (n div 4) = wsum m lw (8 * q') + wsum m (lw + 32 * q') (4 * p) + wsum m (lw + 32 * q' + 16 * p) (j div 4)"
    unfolding n(2) k(2) wsum_add by (simp add: add.assoc)
  have A: "lw + 32 * q' + 16 * p + 4 * (j div 4) = lw + 4 * (n div 4)" unfolding n(2) k(2) by simp
  have J: "int k - 16 * (int p + 1) + 16 = int j" using p(2) by (simp add: j_def)
  have t: "ldt (lw + 4 * (n div 4)) (n mod 4) = Some (word_with 0 (bytes_at m (lw + 4 * (n div 4)) (n mod 4)))" if "0 < n mod 4"
    using ldt [of "n mod 4"] assms(3) that by simp
  have "cksum_rest ld ldt lw (int n) acc =
      (let len = int (j mod 4) - 4 + 4; x = acc + of_nat (wsum m lw (8 * q')) + of_nat (wsum m (lw + 32 * q') (4 * p)) +
         of_nat (wsum m (lw + 32 * q' + 16 * p) (j div 4)) in
       do { x \<leftarrow> (if len > 0 then do { t \<leftarrow> ldt (lw + 32 * q' + 16 * p + 4 * (j div 4)) (nat len); Some (x + ucast t) } else Some x);
            Some (REDUCE32 x) })"
    unfolding cksum_rest_def ld if_P [OF assms(2)] bind.bind_lunit q(1) prod.case mid p(1) J l4 Let_def ..
  then show ?thesis unfolding W A using t n(3) k(3) by (auto simp: Let_def add.assoc)
qed

end

section \<open>What is summed\<close>

text \<open>The memory with everything but \<open>n\<close> bytes at \<open>a\<close> cleared.\<close>

definition within :: "bytes \<Rightarrow> nat \<Rightarrow> nat \<Rightarrow> bytes" where
  "within m a n = (\<lambda>x. if a \<le> x \<and> x < a + n then m x else 0)"

lemma psum_zero: "(\<And>i. i < n \<Longrightarrow> m (a + i) = 0) \<Longrightarrow> psum m a n = 0"
proof (induction n arbitrary: a)
  case (Suc n)
  have "m (Suc a + i) = 0" if "i < n" for i using Suc.prems [of "Suc i"] that by simp
  then show ?case using Suc.IH [of "Suc a"] Suc.prems [of 0] by simp
qed simp

lemma rep_word: "even lw \<Longrightarrow> rep (unat (get32 lw m)) (psum m lw 4)"
proof -
  assume e: "even lw"
  let ?a = "unat (m lw) + 256 * unat (m (lw + 1))" and ?b = "unat (m (lw + 2)) + 256 * unat (m (lw + 3))"
  have 3: "lw + 3 = Suc (Suc (Suc lw))" by simp
  have "psum m lw 4 = ?a + ?b" using e by (simp add: mult.commute) (simp only: 3)
  moreover have "unat (get32 lw m) = ?a + 65536 * ?b" by (simp add: get32_def unat_le32)
  moreover have "rep (?a + 65536 * ?b) (?a + ?b)" by (rule rep_add [OF rep_refl rep_65536])
  ultimately show ?thesis by (simp only:)
qed

lemma rep_wsum: "even lw \<Longrightarrow> rep (wsum m lw k) (psum m lw (4 * k))"
proof (induction k arbitrary: lw)
  case (Suc k)
  have "rep (unat (get32 lw m) + wsum m (lw + 4) k) (psum m lw 4 + psum m (lw + 4) (4 * k))"
    using Suc by (intro rep_add rep_word) simp_all
  then show ?case using psum_add [of m lw 4 "4 * k"] by simp
qed simp

lemma wsum_le: "wsum m lw k \<le> k * (2 ^ 32 - 1)"
proof (induction k arbitrary: lw)
  case (Suc k)
  have "unat (get32 lw m) < 2 ^ LENGTH(32)" by (rule unsigned_less)
  then show ?case using Suc [of "lw + 4"] by simp
qed simp

lemma word_with_get32:
  assumes "off + n \<le> 4"
  shows "word_with off (bytes_at m (lw + off) n) = get32 lw (within m (lw + off) n)"
proof -
  let ?xs = "wr_bytes off (bytes_at m (lw + off) n) (replicate 4 0)"
  have "?xs ! j = within m (lw + off) n (lw + j)" if "j < 4" for j
    using assms that by (auto simp: wr_bytes_def nth_append within_def bytes_at_def)
  from this [of 0] this [of 1] this [of "Suc (Suc 0)"] this [of 3] show ?thesis
    by (simp add: word_with_def rd32_def get32_def)
qed

lemma rep_part:
  assumes "even lw" "off + n \<le> 4"
  shows "rep (unat (word_with off (bytes_at m (lw + off) n))) (psum m (lw + off) n)"
proof -
  let ?w = "within m (lw + off) n"
  have "psum ?w lw 4 = psum ?w lw off + psum ?w (lw + off) n + psum ?w (lw + off + n) (4 - (off + n))"
    using psum_add [of ?w lw off "n + (4 - (off + n))"] psum_add [of ?w "lw + off" n "4 - (off + n)"] assms(2) by simp
  also have "psum ?w lw off = 0" by (rule psum_zero) (simp add: within_def)
  also have "psum ?w (lw + off + n) (4 - (off + n)) = 0" by (rule psum_zero) (simp add: within_def)
  also have "psum ?w (lw + off) n = psum m (lw + off) n" by (rule psum_same) (simp_all add: within_def)
  finally show ?thesis unfolding word_with_get32 [OF assms(2)] using rep_word [OF assms(1), of ?w] by simp
qed

text \<open>The words and the last bytes from an aligned address on.\<close>

definition rest_sum :: "bytes \<Rightarrow> nat \<Rightarrow> nat \<Rightarrow> nat" where
  "rest_sum m lw n = wsum m lw (n div 4) +
     (if n mod 4 = 0 then 0 else unat (word_with 0 (bytes_at m (lw + 4 * (n div 4)) (n mod 4))))"

lemma unat_u32_le: "unat (w :: u32) \<le> 2 ^ 32 - 1"
proof -
  have "unat w < 2 ^ LENGTH(32)" by (rule unsigned_less)
  then show ?thesis by simp
qed

lemma rest_sum_le: "rest_sum m lw n \<le> (n div 4 + 1) * (2 ^ 32 - 1)"
  using wsum_le [of m lw "n div 4"] unat_u32_le [of "word_with 0 (bytes_at m (lw + 4 * (n div 4)) (n mod 4))"]
  unfolding rest_sum_def by simp

lemma rep_rest: "even lw \<Longrightarrow> rep (rest_sum m lw n) (psum m lw n)"
proof -
  assume e: "even lw"
  have n: "4 * (n div 4) + n mod 4 = n" by simp
  have "psum m lw n = psum m lw (4 * (n div 4)) + psum m (lw + 4 * (n div 4)) (n mod 4)"
    using psum_add [of m lw "4 * (n div 4)" "n mod 4"] unfolding n .
  moreover have "rep (if n mod 4 = 0 then 0 else unat (word_with 0 (bytes_at m (lw + 4 * (n div 4)) (n mod 4))))
      (psum m (lw + 4 * (n div 4)) (n mod 4))"
    using e rep_part [of "lw + 4 * (n div 4)" 0 "n mod 4" m] mod_less_divisor [of 4 n] by simp
  ultimately show ?thesis unfolding rest_sum_def using rep_add [OF rep_wsum [OF e, of m "n div 4"]] by simp
qed

lemma reduce_sum:
  assumes "s = of_nat N" "N < 2 ^ 64" "rep N p"
  shows "rep (unat (REDUCE32 s)) p"
proof -
  have "unat s = N" using assms(1,2) by (simp add: unat_of_nat)
  then show ?thesis using rep_trans [OF rep_REDUCE32 [of s]] assms(3) by simp
qed

interpretation purecap: word_loads "ld32 c m" "\<lambda>a n. map_option (word_with 0) (ld_bytes c m a n)" m
  "\<lambda>a. fst c \<le> a \<and> a + 4 \<le> snd c" "\<lambda>a n. fst c \<le> a \<and> a + n \<le> snd c" for c m
  by unfold_locales (simp_all add: ld32_def ld_bytes_def)

text \<open>
  Before it looks at the length, the code loads the first aligned word of what is left after the
  leading bytes.
\<close>

definition head_len :: "nat \<Rightarrow> nat" where
  "head_len a = (4 - a mod 4) mod 4"

definition prefetch_ok :: "nat \<times> nat \<Rightarrow> nat \<Rightarrow> nat \<Rightarrow> bool" where
  "prefetch_ok c a n \<longleftrightarrow> (head_len a = 0 \<or> head_len a < n \<longrightarrow> a + head_len a + 4 \<le> snd c)"

lemma purecap_rest:
  assumes "fst c \<le> lw" "lw + n \<le> snd c" "lw + 4 \<le> snd c"
  shows "cksum_rest (ld32 c m) (\<lambda>a n. map_option (word_with 0) (ld_bytes c m a n)) lw (int n) acc =
    Some (REDUCE32 (acc + of_nat (rest_sum m lw n)))"
proof -
  have n: "4 * (n div 4) + n mod 4 = n" by simp
  have "readable (\<lambda>a. fst c \<le> a \<and> a + 4 \<le> snd c) lw (n div 4)" unfolding readable_iff
  proof (intro allI impI)
    fix i assume "i < n div 4"
    then have "4 * i + 4 \<le> n" using n by linarith
    then show "fst c \<le> lw + 4 * i \<and> lw + 4 * i + 4 \<le> snd c" using assms by linarith
  qed
  from purecap.rest_ok [OF this, of m acc] show ?thesis
    using assms n by (simp add: rest_sum_def add.assoc)
qed

lemma rest_reduced:
  assumes "even lw" "n < 2 ^ 31" "rep H p" "H < 2 ^ 32"
  shows "rep (unat (REDUCE32 (of_nat H + of_nat (rest_sum m lw n)))) (p + psum m lw n)"
proof (rule reduce_sum)
  show "of_nat H + of_nat (rest_sum m lw n) = (of_nat (H + rest_sum m lw n) :: u64)" by simp
  have "rest_sum m lw n \<le> (2 ^ 31 div 4 + 1) * (2 ^ 32 - 1)"
    by (rule order_trans [OF rest_sum_le]) (use assms(2) in \<open>intro mult_right_mono add_right_mono div_le_mono, simp_all\<close>)
  then show "H + rest_sum m lw n < 2 ^ 64" using assms(4) by simp
  show "rep (H + rest_sum m lw n) (p + psum m lw n)" by (intro rep_add assms(3) rep_rest assms(1))
qed

lemma head_len_cases:
  "a mod 4 = 0 \<Longrightarrow> head_len a = 0"
  "a mod 4 \<noteq> 0 \<Longrightarrow> 4 - int (a mod 4) = int (head_len a)"
  "a mod 4 \<noteq> 0 \<Longrightarrow> head_len a = 4 - a mod 4"
  "a mod 4 \<noteq> 0 \<Longrightarrow> 0 < head_len a"
  "even (a + head_len a)" "head_len a < 4"
proof -
  have l: "a mod 4 < 4" by simp
  show 1: "head_len a = 0" if "a mod 4 = 0" using that by (simp add: head_len_def)
  show 2: "head_len a = 4 - a mod 4" if "a mod 4 \<noteq> 0" using that l by (simp add: head_len_def)
  show "4 - int (a mod 4) = int (head_len a)" "0 < head_len a" if "a mod 4 \<noteq> 0" unfolding 2 [OF that] using l by (simp_all del: mod_less_divisor)
  have "4 dvd a + head_len a"
  proof (cases "a mod 4 = 0")
    case True
    then show ?thesis using 1 by (simp add: dvd_eq_mod_eq_0)
  next
    case False
    have "a + (4 - a mod 4) = 4 * (a div 4) + 4" using l mult_div_mod_eq [of 4 a] by linarith
    then show ?thesis unfolding 2 [OF False] by simp
  qed
  then show "even (a + head_len a)" by (metis dvd_trans even_numeral)
  show "head_len a < 4" by (simp add: head_len_def)
qed

lemma in_cksumdata_head:
  assumes "fst c \<le> a" "a + n \<le> snd c" "a mod 4 \<noteq> 0"
  shows "in_cksumdata c m a (int n) =
    (if n \<le> head_len a then Some (REDUCE32 (ucast (word_with (a mod 4) (bytes_at m a n))))
     else cksum_rest (ld32 c m) (\<lambda>a n. map_option (word_with 0) (ld_bytes c m a n)) (a + head_len a) (int (n - head_len a))
       (ucast (word_with (a mod 4) (bytes_at m a (head_len a)))))"
proof (cases "n \<le> head_len a")
  case True
  then have "(if int (head_len a) > int n then int n else int (head_len a)) = int n" by auto
  then show ?thesis using assms True by (simp add: in_cksumdata_def Let_def head_len_cases(2) ld_bytes_def)
next
  case False
  then have "(if int (head_len a) > int n then int n else int (head_len a)) = int (head_len a)" "int n - int (head_len a) = int (n - head_len a)" by auto
  then show ?thesis using assms False by (simp add: in_cksumdata_def Let_def head_len_cases(2) ld_bytes_def)
qed

lemma in_cksumdata_rep:
  assumes "fst c \<le> a" "a + n \<le> snd c" "prefetch_ok c a n" "n < 2 ^ 31"
  shows "\<exists>s. in_cksumdata c m a (int n) = Some s \<and> rep (unat s) (psum m a n) \<and> unat s \<le> 4 * 65535"
proof -
  let ?ld = "ld32 c m" and ?ldt = "\<lambda>a n. map_option (word_with 0) (ld_bytes c m a n)"
  have "\<exists>x. in_cksumdata c m a (int n) = Some (REDUCE32 x) \<and> rep (unat (REDUCE32 x)) (psum m a n)"
  proof (cases "a mod 4 = 0")
    case False
    let ?h = "head_len a"
    note h = head_len_cases [of a]
    have a: "even (a - a mod 4)" "a - a mod 4 + a mod 4 = a"
      by (simp_all add: minus_mod_eq_mult_div)
    define k where "k = min n ?h"
    have head: "rep (unat (word_with (a mod 4) (bytes_at m a k))) (psum m a k)"
      using rep_part [OF a(1), of "a mod 4" k m] h(3) [OF False] unfolding a(2) by (simp add: k_def)
    show ?thesis
    proof (cases "n \<le> ?h")
      case True
      have "unat (ucast (word_with (a mod 4) (bytes_at m a n)) :: u64) = unat (word_with (a mod 4) (bytes_at m a n))"
        by (simp add: unsigned_ucast_eq take_bit_nat_eq_self_iff order_le_less_trans [OF unat_u32_le])
      then have "rep (unat (REDUCE32 (ucast (word_with (a mod 4) (bytes_at m a n))))) (psum m a n)"
        using rep_trans [OF rep_REDUCE32] head True by (metis k_def min.absorb1)
      then show ?thesis using True in_cksumdata_head [OF assms(1,2) False, of m] by auto
    next
      case n: False
      have "fst c \<le> a + ?h" "a + ?h + (n - ?h) \<le> snd c" "a + ?h + 4 \<le> snd c"
        using n assms(1-3) by (auto simp: prefetch_ok_def)
      note r = purecap_rest [OF this]
      have k: "k = ?h" using n by (simp add: k_def)
      have p: "psum m a n = psum m a ?h + psum m (a + ?h) (n - ?h)" using psum_add [of m a ?h "n - ?h"] n by simp
      show ?thesis unfolding in_cksumdata_head [OF assms(1,2) False] if_not_P [OF n] r p
        using rest_reduced [OF h(5) _ head [unfolded k], of "n - ?h" m] n assms(4) order_le_less_trans [OF unat_u32_le]
        by auto
    qed
  next
    case True
    note 0 = head_len_cases(1) [OF True]
    have e: "even a" using head_len_cases(5) [of a] 0 by simp
    show ?thesis
    proof (cases "n = 20")
      case n: True
      have "in_cksumdata c m a (int n) = Some (REDUCE32 (of_nat 0 + of_nat (rest_sum m a 20)))"
        using n True assms(1,2) by (simp add: in_cksumdata_def cksum_hdr20_def ld32_def rest_sum_def add.assoc)
      then show ?thesis using rest_reduced [OF e, of 20 0 0 m] n by auto
    next
      case n: False
      have "a + 4 \<le> snd c" using assms(3) 0 by (simp add: prefetch_ok_def)
      note r = purecap_rest [OF assms(1,2) this]
      have "in_cksumdata c m a (int n) = Some (REDUCE32 (of_nat 0 + of_nat (rest_sum m a n)))"
        using n True r [of m 0] by (simp add: in_cksumdata_def Let_def)
      then show ?thesis using rest_reduced [OF e assms(4), of 0 0 m] by auto
    qed
  qed
  then show ?thesis using unat_REDUCE32(2) by auto
qed

section \<open>Chains\<close>

text \<open>The reference of RFC 1071: add 16-bit words with end-around carry, the last byte padded by zero.\<close>

fun ones_sum :: "u8 list \<Rightarrow> nat" where
  "ones_sum [] = 0"
| "ones_sum [a] = unat a"
| "ones_sum (a # b # bs) =
     (let s = unat a + 256 * unat b + ones_sum bs in if s > 65535 then s - 65535 else s)"

primrec lsum :: "nat \<Rightarrow> u8 list \<Rightarrow> nat" where
  "lsum k [] = 0"
| "lsum k (b # bs) = unat b * (if even k then 1 else 256) + lsum (Suc k) bs"

lemma psum_lsum: "psum m a n = lsum a (bytes_at m a n)"
  by (induction n arbitrary: a) (simp_all add: bytes_at_Suc)

lemma lsum_append: "lsum k (xs @ ys) = lsum k xs + lsum (k + length xs) ys"
  by (induction xs arbitrary: k) simp_all

lemma lsum_parity: "even k \<longleftrightarrow> even j \<Longrightarrow> lsum k bs = lsum j bs"
  by (induction bs arbitrary: k j) simp_all

lemma lsum_shift: "rep (256 * lsum k bs) (lsum (Suc k) bs)"
proof (induction bs arbitrary: k)
  case (Cons b bs)
  have "rep (256 * (unat b * (if even k then 1 else 256))) (unat b * (if even (Suc k) then 1 else 256))"
    using rep_65536 [of "unat b"] by (simp add: mult.commute)
  then show ?case unfolding lsum.simps distrib_left by (intro rep_add Cons)
qed simp

lemma unat_u8_le: "unat (w :: u8) \<le> 255"
proof -
  have "unat w < 2 ^ LENGTH(8)" by (rule unsigned_less)
  then show ?thesis by simp
qed

lemma ones_sum_rep: "ones_sum bs \<le> 65535 \<and> rep (ones_sum bs) (lsum 0 bs)"
proof (induction bs rule: ones_sum.induct)
  case (2 a)
  then show ?case using unat_u8_le [of a] by simp
next
  case (3 a b bs)
  let ?s = "unat a + 256 * unat b + ones_sum bs"
  have s: "?s \<le> 131070" using 3 unat_u8_le [of a] unat_u8_le [of b] by simp
  have "rep (ones_sum (a # b # bs)) ?s" unfolding ones_sum.simps Let_def by (rule rep_carry)
  moreover have "rep ?s (unat a + 256 * unat b + lsum 0 bs)" using 3 by (intro rep_add) simp_all
  moreover have "lsum 0 (a # b # bs) = unat a + 256 * unat b + lsum 0 bs"
    using lsum_parity [of 2 0 bs] by (simp add: mult.commute numeral_2_eq_2)
  ultimately have "rep (ones_sum (a # b # bs)) (lsum 0 (a # b # bs))" by (simp only: rep_trans)
  then show ?case using s by (simp add: Let_def le_diff_conv)
qed simp

text \<open>The storage goes on for at least four bytes after the data.\<close>

definition cap_slack :: "bmbuf \<Rightarrow> bool" where
  "cap_slack m \<longleftrightarrow> fst (m_cap m) \<le> m_data m \<and> m_data m + m_len m + 4 \<le> snd (m_cap m)"

text \<open>The bytes \<open>bs\<close> have been summed.\<close>

definition summed :: "u8 list \<Rightarrow> int \<times> u64 \<Rightarrow> bool" where
  "summed bs st \<longleftrightarrow> fst st = int (length bs) \<and> rep (unat (snd st)) (lsum 0 bs) \<and> unat (snd st) \<le> 2 ^ 26 * length bs"

lemma unat_push8:
  assumes "unat (d :: u64) \<le> 4 * 65535"
  shows "unat (push_bit 8 d) = 256 * unat d"
proof -
  have "unat (push_bit 8 d) = take_bit 64 (push_bit 8 (unat d))" by (simp add: unsigned_push_bit_eq)
  also have "\<dots> = 256 * unat d" using assms by (simp add: push_bit_eq_mult take_bit_nat_eq_self_iff mult.commute)
  finally show ?thesis .
qed

lemma cksum_seg_ok:
  assumes "cap_slack m" "k \<le> m_len m" "n = min l (m_len m - k)" "summed bs (clen, acc)" "length bs + l < 2 ^ 31"
  shows "\<exists>clen' acc'. cksum_seg mm m (m_data m + k) (int (m_len m - k)) (int l, clen, acc) = Some (int (l - n), clen', acc') \<and>
    summed (bs @ bytes_at mm (m_data m + k) n) (clen', acc')"
proof -
  let ?a = "m_data m + k" and ?bs = "bytes_at mm (m_data m + k) n"
  have ln: "n \<le> l" "n \<le> m_len m - k" using assms(3) by simp_all
  have mlen: "(if int l < int (m_len m - k) then int l else int (m_len m - k)) = int n" unfolding assms(3) by (simp add: min_def)
  have rest: "int l - int n = int (l - n)" using ln(1) by simp
  have n: "k + n \<le> m_len m" "length bs + n < 2 ^ 31" using assms(2,5) ln by linarith+
  have "prefetch_ok (m_cap m) ?a n" using assms(1) n(1) by (auto simp: prefetch_ok_def cap_slack_def)
  moreover have "fst (m_cap m) \<le> ?a" "?a + n \<le> snd (m_cap m)" using assms(1) n(1) by (auto simp: cap_slack_def)
  ultimately obtain d where d: "in_cksumdata (m_cap m) mm ?a (int n) = Some d" "rep (unat d) (lsum ?a ?bs)" "unat d \<le> 4 * 65535"
    using in_cksumdata_rep [of "m_cap m" ?a n mm] n(2) by (auto simp: psum_lsum)
  define e where "e = (if odd clen \<noteq> odd ?a then push_bit 8 d else d)"
  have clen: "clen = int (length bs)" using assms(4) by (simp add: summed_def)
  have e: "rep (unat e) (lsum (length bs) ?bs)" "unat e \<le> 2 ^ 26 * n"
  proof -
    have z: "unat d = 0" if "n = 0" using d(2) that by (simp add: rep_def)
    show "rep (unat e) (lsum (length bs) ?bs)"
    proof (cases "odd clen = odd ?a")
      case True
      then have "lsum ?a ?bs = lsum (length bs) ?bs" by (intro lsum_parity) (auto simp: clen)
      then show ?thesis using True d(2) by (simp add: e_def)
    next
      case False
      then have "lsum (Suc ?a) ?bs = lsum (length bs) ?bs" by (intro lsum_parity) (auto simp: clen)
      then show ?thesis
        using False rep_trans [OF rep_mult [OF d(2), of 256] lsum_shift] by (simp add: e_def unat_push8 [OF d(3)])
    qed
    have "unat e \<le> 256 * unat d" by (auto simp: e_def unat_push8 [OF d(3)])
    then show "unat e \<le> 2 ^ 26 * n" using d(3) z by (cases n) auto
  qed
  have acc: "rep (unat acc) (lsum 0 bs)" "unat acc \<le> 2 ^ 26 * length bs" using assms(4) by (simp_all add: summed_def)
  have b: "unat acc + unat e \<le> 2 ^ 26 * (length bs + n)" using acc(2) e(2) by (simp add: distrib_left)
  then have "unat acc + unat e < 2 ^ 64" using n(2) by simp
  then have u: "unat (acc + e) = unat acc + unat e" by (simp add: unat_word_ariths)
  have "summed (bs @ ?bs) (clen + int n, acc + e)"
    using rep_add [OF acc(1) e(1)] b by (simp add: summed_def clen u lsum_append)
  then show ?thesis using d(1) unfolding cksum_seg_def prod.case mlen Let_def rest e_def by simp
qed

lemma cksum_chain_ok:
  assumes "\<forall>m\<in>set ch. cap_slack m" "summed bs (clen, acc)" "length bs + n < 2 ^ 31"
  shows "\<exists>l clen' acc'. cksum_chain mm ch (int n, clen, acc) = Some (l, clen', acc') \<and>
    summed (bs @ take n (chain_data mm ch)) (clen', acc')"
  using assms
proof (induction ch arbitrary: n bs clen acc)
  case (Cons m ch)
  show ?case
  proof (cases "n = 0 \<or> m_len m = 0")
    case True
    then show ?thesis using Cons by (auto simp: m_bytes_def)
  next
    case False
    let ?k = "min n (m_len m)"
    obtain c1 a1 where 1: "cksum_seg mm m (m_data m) (int (m_len m)) (int n, clen, acc) = Some (int (n - ?k), c1, a1)"
      "summed (bs @ bytes_at mm (m_data m) ?k) (c1, a1)"
      using cksum_seg_ok [of m 0 ?k n bs clen acc mm] Cons.prems by auto
    have t: "take n (chain_data mm (m # ch)) = bytes_at mm (m_data m) ?k @ take (n - ?k) (chain_data mm ch)"
      by (simp add: m_bytes_def take_bytes_at min_def)
    show ?thesis using Cons.IH [OF _ 1(2), of "n - ?k"] Cons.prems False 1(1) unfolding t by auto
  qed
qed simp

lemma cksum_skip_ok:
  assumes "\<forall>m\<in>set ch. cap_slack m" "n < 2 ^ 31"
  shows "\<exists>l clen acc. cksum_skip mm ch (int k) (int n, 0, 0) = Some (l, clen, acc) \<and>
    summed (take n (drop k (chain_data mm ch))) (clen, acc)"
  using assms
proof (induction ch arbitrary: k)
  case Nil
  then show ?case by (simp add: summed_def)
next
  case (Cons m ch)
  have z: "summed [] (0, 0)" by (simp add: summed_def)
  consider "k = 0" | (seg) "0 < k" "k < m_len m" | (after) "0 < k" "m_len m \<le> k" by linarith
  then show ?case
  proof cases
    case 1
    then show ?thesis using cksum_chain_ok [OF Cons.prems(1) z, of n] Cons.prems(2) by auto
  next
    case seg
    let ?j = "min n (m_len m - k)"
    obtain c1 a1 where 1: "cksum_seg mm m (m_data m + k) (int (m_len m - k)) (int n, 0, 0) = Some (int (n - ?j), c1, a1)"
      "summed (bytes_at mm (m_data m + k) ?j) (c1, a1)"
      using cksum_seg_ok [of m k ?j n "[]" 0 0 mm] Cons.prems z seg by auto
    have "drop k (m_bytes mm m) = bytes_at mm (m_data m + k) (m_len m - k)"
      using bytes_at_append [of mm "m_data m" k "m_len m - k"] seg by (simp add: m_bytes_def)
    then have t: "take n (drop k (chain_data mm (m # ch))) = bytes_at mm (m_data m + k) ?j @ take (n - ?j) (chain_data mm ch)"
      using seg by (simp add: take_bytes_at min_def)
    have "int (m_len m) - int k = int (m_len m - k)" using seg by simp
    then show ?thesis using cksum_chain_ok [OF _ 1(2), of ch "n - ?j"] Cons.prems seg 1(1) unfolding t by auto
  next
    case after
    then have "int k - int (m_len m) = int (k - m_len m)" by simp
    then show ?thesis using Cons.IH [of "k - m_len m"] Cons.prems after by auto
  qed
qed

lemma finish_sum:
  assumes "rep (unat acc) (lsum 0 bs)"
  shows "ucast (NOT (REDUCE16 acc) AND 0xffff) = NOT (of_nat (ones_sum bs) :: u16)"
proof -
  have "unat (REDUCE16 acc) = ones_sum bs"
    using REDUCE16_rep [of acc] ones_sum_rep [of bs] rep_trans [OF REDUCE16_rep(2) assms] by (blast intro: rep_unique)
  then have "ucast (REDUCE16 acc) = (of_nat (ones_sum bs) :: u16)" by (metis of_nat_unat)
  moreover have "ucast (NOT (REDUCE16 acc) AND 0xffff) = NOT (ucast (REDUCE16 acc) :: u16)"
  proof (rule bit_word_eqI)
    fix n assume n: "n < LENGTH(16)"
    have "NOT (REDUCE16 acc) AND 0xffff = take_bit 16 (NOT (REDUCE16 acc))" by (simp add: take_bit_eq_mask mask_eq_exp_minus_1)
    then show "bit (ucast (NOT (REDUCE16 acc) AND 0xffff) :: u16) n = bit (NOT (ucast (REDUCE16 acc) :: u16)) n"
      using n by (simp add: bit_simps)
  qed
  ultimately show ?thesis by simp
qed

definition demo_mbuf :: "nat \<Rightarrow> nat \<Rightarrow> bmbuf" where
  "demo_mbuf a n = (demo_new {} a)\<lparr>m_cap := (a - 5, a + n + 4), m_len := n\<rparr>"

text \<open>
  C23: The checksum is that of RFC 1071. For a chain whose buffers go on for four bytes after the data, of
  whatever lengths and alignments, the checksum of \<open>len - skip\<close> bytes behind \<open>skip\<close> is the
  complement of their sum as 16-bit words with end-around carry, and no load leaves the bounds of a
  capability.
\<close>

theorem in_cksum_rfc1071:
  assumes "\<forall>m\<in>set ch. cap_slack m" "skip \<le> len" "len < 2 ^ 31"
  shows "in_cksum_skip mm ch (int len) (int skip) =
    Some (NOT (of_nat (ones_sum (take (len - skip) (drop skip (chain_data mm ch))))))"
proof -
  have l: "int len - int skip = int (len - skip)" using assms(2) by simp
  obtain x clen acc where c: "cksum_skip mm ch (int skip) (int (len - skip), 0, 0) = Some (x, clen, acc)"
    "summed (take (len - skip) (drop skip (chain_data mm ch))) (clen, acc)"
    using cksum_skip_ok [OF assms(1) less_imp_diff_less [OF assms(3)], of mm skip] by blast
  then show ?thesis unfolding in_cksum_skip_def l by (simp add: finish_sum summed_def)
qed

theorem in_cksum_rfc1071_witness:
  "in_cksum_skip (\<lambda>a. of_nat a) [demo_mbuf 101 3, demo_mbuf 206 0, demo_mbuf 303 9] 11 2 =
     Some (NOT (of_nat (ones_sum (take 9 (drop 2 (chain_data (\<lambda>a. of_nat a) [demo_mbuf 101 3, demo_mbuf 206 0, demo_mbuf 303 9]))))))"
  using in_cksum_rfc1071 [of "[demo_mbuf 101 3, demo_mbuf 206 0, demo_mbuf 303 9]" 2 11 "\<lambda>a. of_nat a"]
  by (simp add: demo_mbuf_def demo_new_def cap_slack_def)

section \<open>The two builds\<close>

lemma bind_eq_SomeE: "f \<bind> g = Some y \<Longrightarrow> (\<And>x. f = Some x \<Longrightarrow> g x = Some y \<Longrightarrow> P) \<Longrightarrow> P"
  by (cases f) auto

lemma bit_le32:
  "n < 32 \<Longrightarrow> bit (le32 a b c d) n \<longleftrightarrow>
     (if n < 8 then bit a n else if n < 16 then bit b (n - 8) else if n < 24 then bit c (n - 16) else bit d (n - 24))"
  by (auto simp: le32_def bit_simps dest: bit_imp_le_length)

lemma and_le32: "le32 a b c d AND le32 a' b' c' d' = le32 (a AND a') (b AND b') (c AND c') (d AND d')"
  by (rule bit_word_eqI) (simp add: bit_and_iff bit_le32)

text \<open>Masking an aligned word leaves what an exact copy of the bytes would give.\<close>

lemma mask_within:
  assumes "off < 4" "k < 4"
  shows "in_masks ! (4 * off + k) = get32 0 (within (\<lambda>_. 255) off (min k (if off = 0 then 3 else 4 - off)))"
proof -
  have "off \<in> {0, 1, 2, 3}" "k \<in> {0, 1, 2, 3}" using assms by auto
  then show ?thesis
    by (elim insertE emptyE; hypsubst; simp add: in_masks_def get32_def within_def le32_def)
qed

lemma and_within: "get32 lw m AND get32 0 (within (\<lambda>_. 255) off n) = get32 lw (within m (lw + off) n)"
proof -
  have "(255 :: u8) = -1" by simp
  then have 255: "x AND 255 = x" for x :: u8 by (simp only: and.right_neutral)
  have w: "m (lw + j) AND within (\<lambda>_. 255) off n j = within m (lw + off) n (lw + j)" for j
    by (simp only: within_def 255 if_distrib [of "\<lambda>z. _ AND z"] and_zero_eq add.assoc add_le_cancel_left add_less_cancel_left)
  show ?thesis using w [of 0] w [of "Suc 0"] w [of "Suc (Suc 0)"] by (simp add: get32_def and_le32 w)
qed

lemma masked_word:
  assumes "off < 4" "k = (if n \<ge> 3 then 3 else n)"
  shows "get32 lw m AND in_masks ! (4 * off + k) = word_with off (bytes_at m (lw + off) (min n (if off = 0 then 3 else 4 - off)))"
proof -
  have n: "off + min n (if off = 0 then 3 else 4 - off) \<le> 4" using assms(1) by auto
  have "min k (if off = 0 then 3 else 4 - off) = min n (if off = 0 then 3 else 4 - off)" "k < 4" using assms by auto
  then show ?thesis unfolding word_with_get32 [OF n] using assms(1) by (simp only: mask_within and_within)
qed

lemma mask_tail: "n < 4 \<Longrightarrow> in_masks ! n AND get32 a m = word_with 0 (bytes_at m a n)"
  using masked_word [of 0 n n a m] by (cases "n = 3") (auto simp: and.commute)

interpretation masked: word_loads "\<lambda>a. Some (get32 a m)" "\<lambda>a n. Some (in_masks ! n AND get32 a m)" m
  "\<lambda>_. True" "\<lambda>_ _. True" for m
  by unfold_locales (simp_all add: mask_tail)

text \<open>A build whose loads answer at least as often computes the same.\<close>

definition answers :: "('a \<Rightarrow> 'b option) \<Rightarrow> ('a \<Rightarrow> 'b option) \<Rightarrow> bool" where
  "answers f g \<longleftrightarrow> (\<forall>a w. f a = Some w \<longrightarrow> g a = Some w)"

lemma answersD: "answers f g \<Longrightarrow> f a = Some w \<Longrightarrow> g a = Some w"
  by (simp add: answers_def)

lemma ld_line_mono: "answers ld ld' \<Longrightarrow> ld_line ld lw = Some s \<Longrightarrow> ld_line ld' lw = Some s"
  unfolding ld_line_def by (auto elim!: bind_eq_SomeE simp: answersD)

lemma loop32_mono: "answers ld ld' \<Longrightarrow> loop32 ld len lw p acc = Some r \<Longrightarrow> loop32 ld' len lw p acc = Some r"
proof (induction ld len lw p acc rule: loop32.induct)
  case (1 ld len lw p acc)
  then show ?case unfolding loop32.simps [of _ len lw p acc] Let_def
    by (auto simp: bind_Some_iff ld_line_mono dest: answersD split: if_splits)
qed

lemma loop16_mono: "answers ld ld' \<Longrightarrow> loop16 ld len lw acc = Some r \<Longrightarrow> loop16 ld' len lw acc = Some r"
proof (induction ld len lw acc rule: loop16.induct)
  case (1 ld len lw acc)
  then show ?case unfolding loop16.simps [of _ len lw acc] Let_def
    by (fastforce simp: bind_Some_iff dest: answersD split: if_splits)
qed

lemma loop4_mono: "answers ld ld' \<Longrightarrow> loop4 ld len lw acc = Some r \<Longrightarrow> loop4 ld' len lw acc = Some r"
proof (induction ld len lw acc rule: loop4.induct)
  case (1 ld len lw acc)
  then show ?case unfolding loop4.simps [of _ len lw acc] Let_def
    by (auto simp: bind_Some_iff dest: answersD split: if_splits)
qed

lemma loop4_len: "loop4 ld len lw acc = Some (l, x, y) \<Longrightarrow> l < 0"
proof (induction ld len lw acc rule: loop4.induct)
  case (1 ld len lw acc)
  then show ?case unfolding loop4.simps [of _ len lw acc] Let_def by (auto simp: bind_Some_iff split: if_splits)
qed

lemma rest_mono:
  assumes "answers ld ld'" "\<And>a n w. \<lbrakk>0 < n; n < 4; ldt a n = Some w\<rbrakk> \<Longrightarrow> ldt' a n = Some w"
    and "cksum_rest ld ldt lw len acc = Some s"
  shows "cksum_rest ld' ldt' lw len acc = Some s"
proof -
  obtain p l1 a1 p1 s1 l2 a2 s2 l3 a3 s3 l4 a4 s4 where
    st: "ld lw = Some p" "loop32 ld len lw (ucast p) acc = Some (l1, a1, p1, s1)"
      "(if l1 \<ge> 0 then do { line \<leftarrow> ld_line ld a1; Some (l1, a1 + 32, s1 + (p1 + line)) } else Some (l1 + 32, a1, s1)) = Some (l2, a2, s2)"
      "loop16 ld l2 a2 s2 = Some (l3, a3, s3)" "loop4 ld (l3 + 16) a3 s3 = Some (l4, a4, s4)"
    and t: "(if l4 + 4 > 0 then do { t \<leftarrow> ldt a4 (nat (l4 + 4)); Some (s4 + ucast t) } else Some s4) \<bind> (\<lambda>acc. Some (REDUCE32 acc)) = Some s"
    using assms(3) unfolding cksum_rest_def Let_def by (auto elim!: bind_eq_SomeE)
  have 2: "(if l1 \<ge> 0 then do { line \<leftarrow> ld_line ld' a1; Some (l1, a1 + 32, s1 + (p1 + line)) } else Some (l1 + 32, a1, s1)) = Some (l2, a2, s2)"
    using st(3) ld_line_mono [OF assms(1)] by (auto simp: bind_Some_iff split: if_splits)
  have 3: "(if l4 + 4 > 0 then do { t \<leftarrow> ldt' a4 (nat (l4 + 4)); Some (s4 + ucast t) } else Some s4) \<bind> (\<lambda>acc. Some (REDUCE32 acc)) = Some s"
    using t loop4_len [OF st(5)] assms(2) by (auto simp: bind_Some_iff split: if_splits)
  show ?thesis unfolding cksum_rest_def Let_def
    using 2 3 answersD [OF assms(1) st(1)] loop32_mono [OF assms(1) st(2)] loop16_mono [OF assms(1) st(4)] loop4_mono [OF assms(1) st(5)]
    by simp
qed

text \<open>
  C24: The two builds agree. Wherever the exact loads of the pure-capability build stay within bounds, for
  every address and length, its sum is bit for bit that of the masked aligned loads.
\<close>

theorem cksum_builds_agree:
  assumes "in_cksumdata c m a len = Some s"
  shows "in_cksumdata_masked m a len = Some s"
proof -
  let ?ld = "ld32 c m" and ?ldt = "\<lambda>a n. map_option (word_with 0) (ld_bytes c m a n)"
  let ?ld' = "\<lambda>a. Some (get32 a m)" and ?ldt' = "\<lambda>a n. Some (in_masks ! n AND get32 a m)"
  have an: "answers ?ld ?ld'" by (simp add: answers_def ld32_def)
  have t: "\<And>a n w. \<lbrakk>0 < n; n < 4; ?ldt a n = Some w\<rbrakk> \<Longrightarrow> ?ldt' a n = Some w"
    by (auto simp: ld_bytes_def mask_tail split: if_splits)
  note rest = rest_mono [of ?ld ?ld' ?ldt ?ldt', OF an t]
  consider (h) "a mod 4 = 0" "len = 20" | (al) "a mod 4 = 0" "len \<noteq> 20" | (un) "a mod 4 \<noteq> 0" by blast
  then show ?thesis
  proof cases
    case h
    then show ?thesis using assms answersD [OF an]
      by (auto simp: in_cksumdata_def in_cksumdata_masked_def cksum_hdr20_def Let_def bind_Some_iff)
  next
    case al
    then show ?thesis using assms rest by (simp add: in_cksumdata_def in_cksumdata_masked_def Let_def)
  next
    case un
    define d where "d = a mod 4"
    have d: "0 < d" "d < 4" "a - d + d = a" using un by (simp_all add: d_def)
    have pos: "0 \<le> len" using assms un by (auto simp: in_cksumdata_def Let_def bind_Some_iff split: if_splits)
    let ?n = "nat (if 4 - int d > len then len else 4 - int d)"
    have n: "?n = min (nat len) (4 - d)" using d pos by auto
    have w: "get32 (a - d) m AND in_masks ! (4 * d + (if len \<ge> 3 then 3 else nat len)) = word_with d (bytes_at m a ?n)"
      using masked_word [of d "if len \<ge> 3 then 3 else nat len" "nat len" "a - d" m] d pos unfolding n by auto
    have l: "a + ?n = a - d + 4" if "len - (4 - int d) > 0" using that d by auto
    show ?thesis using assms un pos l rest w unfolding in_cksumdata_def in_cksumdata_masked_def Let_def d_def [symmetric]
      by (auto simp: bind_Some_iff ld_bytes_def split: if_splits)
  qed
qed

theorem cksum_builds_agree_witness:
  "in_cksumdata_masked (\<lambda>a. of_nat a) 5 5 = Some 0x150e"
  by (rule cksum_builds_agree [of "(4, 12)"])
    (simp add: in_cksumdata_def ld_bytes_def ld32_def cksum_rest_def loop32.simps loop16.simps loop4.simps Let_def word_with_def
      wr_bytes_def rd32_def bytes_at_def le32_def REDUCE32_def q_s_def upt_rec)

lemma prefetch_first:
  assumes "\<not> prefetch_ok c a n" "fst c \<le> a" "a + n \<le> snd c"
  shows "in_cksumdata c m a (int n) = None"
proof -
  have ld: "ld32 c m (a + head_len a) = None" and h: "head_len a = 0 \<or> head_len a < n"
    using assms(1) by (auto simp: prefetch_ok_def ld32_def)
  show ?thesis
  proof (cases "a mod 4 = 0")
    case True
    then show ?thesis using ld by (simp add: head_len_cases(1) in_cksumdata_def cksum_hdr20_def cksum_rest_def Let_def)
  next
    case False
    then show ?thesis using ld h head_len_cases(4) [OF False] by (simp add: in_cksumdata_head [OF assms(2,3)] cksum_rest_def Let_def)
  qed
qed

text \<open>
  C26: Which buffers the pure-capability build can sum. For a buffer within the bounds of its capability
  the code returns exactly if the first aligned word behind the leading bytes is in bounds as a whole: that
  word is loaded before the length is known to reach it. A packet that ends at its bounds with one to
  three bytes in that word faults.
\<close>

theorem in_cksumdata_faults:
  assumes "fst c \<le> a" "a + n \<le> snd c" "n < 2 ^ 31"
  shows "in_cksumdata c m a (int n) = None \<longleftrightarrow> (head_len a = 0 \<or> head_len a < n) \<and> snd c < a + head_len a + 4"
proof (cases "prefetch_ok c a n")
  case True
  then show ?thesis using in_cksumdata_rep [OF assms(1,2) True assms(3), of m] by (auto simp: prefetch_ok_def)
next
  case False
  then show ?thesis using prefetch_first [OF False assms(1,2), of m] by (auto simp: prefetch_ok_def not_le)
qed

theorem in_cksumdata_faults_witness:
  "in_cksumdata (0, 9) (\<lambda>_. 0) 5 4 = None \<and> in_cksumdata (0, 12) (\<lambda>_. 0) 5 4 \<noteq> None"
  using in_cksumdata_faults [of "(0, 9)" 5 4 "\<lambda>_. 0"] in_cksumdata_faults [of "(0, 12)" 5 4 "\<lambda>_. 0"] by (simp add: head_len_def)

section \<open>The header checksum\<close>

lemma in_cksum_hdr_sum:
  assumes "fst c \<le> ip" "ip + 20 \<le> snd c"
  obtains s where "in_cksum_hdr c m ip = Some (ucast (NOT (REDUCE16 s) AND 0xffff))" "rep (unat (REDUCE16 s)) (psum m ip 20)"
    "unat (REDUCE16 s) \<le> 65535"
proof -
  have "prefetch_ok c ip 20" using assms head_len_cases(6) [of ip] by (auto simp: prefetch_ok_def)
  from in_cksumdata_rep [OF assms this, of m] obtain s where s: "in_cksumdata c m ip 20 = Some s" "rep (unat s) (psum m ip 20)"
    by auto
  show thesis by (rule that [of s]) (use s REDUCE16_rep [of s] in \<open>auto simp: in_cksum_hdr_def intro: rep_trans\<close>)
qed

text \<open>\<open>ip->ip_sum = v\<close>: the low half, at offset 10.\<close>

definition put_ip_sum :: "nat \<Rightarrow> u32 \<Rightarrow> bytes \<Rightarrow> bytes" where
  "put_ip_sum ip v m = m(ip + 10 := ucast v, ip + 11 := ucast (drop_bit 8 v))"

lemma psum_put_ip_sum:
  assumes "even ip" "m (ip + 10) = 0" "m (ip + 11) = 0" "unat v \<le> 65535"
  shows "psum (put_ip_sum ip v m) ip 20 = psum m ip 20 + unat v"
proof -
  let ?m = "put_ip_sum ip v m"
  have s: "psum f ip 20 = psum f ip 10 + (psum f (ip + 10) 2 + psum f (ip + 12) 8)" for f
    using psum_add [of f ip 10 10] psum_add [of f "ip + 10" 2 8] by (simp del: psum_numeral add: add.commute)
  have o: "psum m ip 10 = psum ?m ip 10" "psum m (ip + 12) 8 = psum ?m (ip + 12) 8"
    by (rule psum_same; simp add: put_ip_sum_def)+
  have "unat (ucast v :: u8) = unat v mod 256" "unat (ucast (drop_bit 8 v) :: u8) = drop_bit 8 (unat v) mod 256"
    by (simp_all only: unsigned_ucast_eq unat_drop_bit_eq take_bit_eq_mod) simp_all
  moreover have "drop_bit 8 (unat v) mod 256 = unat v div 256" using assms(4) by (simp add: drop_bit_eq_div)
  ultimately have "unat (ucast v :: u8) = unat v mod 256" "unat (ucast (drop_bit 8 v) :: u8) = unat v div 256" by simp_all
  then have "psum ?m (ip + 10) 2 = unat v" using assms(1) by (simp add: put_ip_sum_def)
  moreover have "psum m (ip + 10) 2 = 0" using assms by (simp add: add.commute)
  ultimately show ?thesis unfolding s o by simp
qed

lemma complement16: "unat x \<le> 65535 \<Longrightarrow> unat (ucast (NOT (x :: u64) AND 0xffff) :: u32) = 65535 - unat x"
proof -
  assume x: "unat x \<le> 65535"
  let ?y = "NOT x AND 0xffff"
  have m: "z AND 0xffff = take_bit 16 z" for z :: u64 by (simp add: take_bit_eq_mask mask_eq_exp_minus_1)
  have "unat (take_bit 16 x) = unat x" using x by (simp only: unsigned_take_bit_eq) (simp add: take_bit_nat_eq_self_iff)
  then have "x AND 0xffff = x" unfolding m by (rule unsigned_word_eqI)
  then have "x OR ?y = x AND 0xffff OR NOT x AND 0xffff" by simp
  also have "\<dots> = 0xffff" by (simp add: bit.conj_disj_distrib2 [symmetric])
  finally have "x OR ?y = 0xffff" .
  moreover have "x AND ?y = 0" by (simp add: and.assoc [symmetric])
  ultimately have "x + ?y = 0xffff" by (metis disjunctive_add_eq_or)
  moreover have "unat ?y < 65536" unfolding m unsigned_take_bit_eq by (simp add: take_bit_eq_mod)
  ultimately have "unat x + unat ?y = 65535" using x unat_word_ariths(1) [of x ?y] by simp
  moreover have "unat (ucast ?y :: u32) = unat ?y"
    using \<open>unat ?y < 65536\<close> by (simp only: unsigned_ucast_eq) (simp add: take_bit_nat_eq_self_iff)
  ultimately show ?thesis by linarith
qed

text \<open>
  C25: The header checksum verifies. Computed over a header whose checksum field is zero and stored in the
  field, the checksum of the whole header is zero, which is what a receiver tests.
\<close>

theorem ip_checksum_verifies:
  assumes "even ip" "fst c \<le> ip" "ip + 20 \<le> snd c" "m (ip + 10) = 0" "m (ip + 11) = 0"
  shows "\<exists>v. in_cksum_hdr c m ip = Some v \<and> in_cksum_hdr c (put_ip_sum ip v m) ip = Some 0"
proof -
  obtain s where s: "in_cksum_hdr c m ip = Some (ucast (NOT (REDUCE16 s) AND 0xffff))" "rep (unat (REDUCE16 s)) (psum m ip 20)"
    "unat (REDUCE16 s) \<le> 65535" by (rule in_cksum_hdr_sum [OF assms(2,3)])
  let ?v = "ucast (NOT (REDUCE16 s) AND 0xffff) :: u32"
  have v: "unat ?v = 65535 - unat (REDUCE16 s)" by (rule complement16 [OF s(3)])
  obtain t where t: "in_cksum_hdr c (put_ip_sum ip ?v m) ip = Some (ucast (NOT (REDUCE16 t) AND 0xffff))"
    "rep (unat (REDUCE16 t)) (psum (put_ip_sum ip ?v m) ip 20)" "unat (REDUCE16 t) \<le> 65535" by (rule in_cksum_hdr_sum [OF assms(2,3)])
  have "rep (psum m ip 20 + unat ?v) (unat (REDUCE16 s) + (65535 - unat (REDUCE16 s)))"
    unfolding v by (rule rep_add) (use s(2) in \<open>simp_all add: rep_def\<close>)
  then have "rep (psum (put_ip_sum ip ?v m) ip 20) 65535"
    using psum_put_ip_sum [OF assms(1,4,5), of ?v] s(3) v by simp
  with t(2) have "rep (unat (REDUCE16 t)) 65535" by (rule rep_trans)
  then have "unat (REDUCE16 t) = 65535" using rep_unique [of "unat (REDUCE16 t)" 65535 65535] t(3) by simp
  then have "unat (ucast (NOT (REDUCE16 t) AND 0xffff) :: u32) = 0" using complement16 [OF t(3)] by simp
  then show ?thesis using s(1) t(1) by (simp add: unat_eq_zero)
qed

theorem ip_checksum_verifies_witness:
  "\<exists>v. in_cksum_hdr (0, 40) (\<lambda>a. if a \<in> {12, 13} then 0 else of_nat a) 2 = Some v \<and>
     in_cksum_hdr (0, 40) (put_ip_sum 2 v (\<lambda>a. if a \<in> {12, 13} then 0 else of_nat a)) 2 = Some 0"
  by (rule ip_checksum_verifies) simp_all

section \<open>Pseudo headers\<close>

lemma unat_narrow16: "unat (x :: u64) \<le> 65535 \<Longrightarrow> unat (ucast x :: u16) = unat x"
  by (simp only: unsigned_ucast_eq) (simp add: take_bit_nat_eq_self_iff)

lemma in_addword_rep: "rep (unat (in_addword a b)) (unat a + unat b)"
proof -
  have "unat w \<le> 65535" for w :: u16 using unsigned_less [of w, where 'a = nat] by simp
  from this [of a] this [of b]
  have s: "unat (ucast a + ucast b :: u64) = unat a + unat b" "unat a + unat b \<le> 2 * 65535" by (simp_all add: unat_word_ariths)
  then have "unat (ADDCARRY (ucast a + ucast b)) \<le> 65535" unfolding unat_ADDCARRY by (simp add: le_diff_conv)
  then show ?thesis unfolding in_addword_def by (simp only: unat_narrow16 unat_ADDCARRY s(1) rep_carry)
qed

lemma in_pseudo_rep: "rep (unat (in_pseudo a b c)) (unat a + unat b + unat c)"
proof -
  have "unat a < 2 ^ 32" "unat b < 2 ^ 32" "unat c < 2 ^ 32" using unsigned_less [of a] unsigned_less [of b] unsigned_less [of c] by simp_all
  then have "unat (ucast a + ucast b + ucast c :: u64) = unat a + unat b + unat c" by (simp add: unat_word_ariths)
  then show ?thesis unfolding in_pseudo_def
    using REDUCE16_rep [of "ucast a + ucast b + ucast c"] by (simp add: unat_narrow16)
qed

end
