(* ===== verification/MbufOps.thy ===== *)
theory MbufOps
  imports Mbuf
begin

text \<open>
  The operations of \<^verbatim>\<open>uipc_mbuf.c\<close> that allocate, copy or write mbufs. \<open>wf_mbuf\<close> is the
  well-formedness that \<open>m_sanity\<close> tests, \<open>mbuf_documented\<close> what mbuf(9) and the comments of
  \<^verbatim>\<open>sys/mbuf.h\<close> say of macros and allocator. The allocator hands out storage that is not in use;
  \<open>used\<close> says what is.
\<close>

section \<open>Concatenation\<close>

fun cat_loop :: "'a mbuf_h \<Rightarrow> bmbuf \<Rightarrow> bmbuf list \<Rightarrow> 'a mst \<Rightarrow> (bmbuf \<times> bmbuf list \<times> 'a mst) option" where
  "cat_loop h m [] st = Some (m, [], st)"
| "cat_loop h m (n # ns) st =
     (if \<not> h_writable h (mst_refs st) m \<or> h_trailing h (mst_refs st) m < m_len n then Some (m, n # ns, st)
      else do { st \<leftarrow> bcopy (m_cap n) (m_data n) (m_cap m) (m_data m + m_len m) (m_len n) st;
                cat_loop h (m\<lparr>m_len := m_len m + m_len n\<rparr>) ns (h_free h n st) })"

definition m_cat :: "'a mbuf_h \<Rightarrow> bmbuf list \<Rightarrow> bmbuf list \<Rightarrow> 'a mst \<Rightarrow> (bmbuf list \<times> 'a mst) option" where
  "m_cat h ch ns st =
     (if ch = [] then None
      else do { (m, ns, st) \<leftarrow> cat_loop h (last ch) ns st; Some (butlast ch @ m # ns, st) })"

definition m_catpkt :: "'a mbuf_h \<Rightarrow> bmbuf list \<Rightarrow> bmbuf list \<Rightarrow> 'a mst \<Rightarrow> (bmbuf list \<times> 'a mst) option" where
  "m_catpkt h ch ns st =
     (if ch = [] \<or> ns = [] \<or> \<not> has_hdr (hd ch) \<or> \<not> has_hdr (hd ns) then None
      else let ch = upd_hdr (\<lambda>p. p\<lparr>ph_len := ph_len p + ph_len (m_pkthdr (hd ns))\<rparr>) ch in
           do { ns \<leftarrow> m_demote h ns True {}; m_cat h ch ns st })"

section \<open>Appending and copying back\<close>

partial_function (option) append_loop ::
    "'a mbuf_h \<Rightarrow> u8 list \<Rightarrow> bmbuf list \<Rightarrow> 'a mst \<Rightarrow> (bmbuf list \<times> u8 list \<times> 'a mst) option" where
  "append_loop h bs acc st =
     (if bs = [] then Some (acc, bs, st)
      else case h_get h st of
        (None, st) \<Rightarrow> Some (acc, bs, st)
      | (Some n, st) \<Rightarrow>
          let len = min (h_MLEN h) (length bs) in
          do { st \<leftarrow> bcopy_in (take len bs) (m_cap n) (m_data n) st;
               append_loop h (drop len bs) (acc @ [n\<lparr>m_len := len\<rparr>]) st })"

definition m_append :: "'a mbuf_h \<Rightarrow> bmbuf list \<Rightarrow> u8 list \<Rightarrow> 'a mst \<Rightarrow> (bool \<times> bmbuf list \<times> 'a mst) option" where
  "m_append h ch bs st =
     (if ch = [] then None
      else let m = last ch; space = min (h_trailing h (mst_refs st) m) (length bs) in
        do { st \<leftarrow> (if space > 0 then bcopy_in (take space bs) (m_cap m) (m_data m + m_len m) st else Some st);
             (acc, rest, st) \<leftarrow> append_loop h (drop space bs) [] st;
             let ch = butlast ch @ m\<lparr>m_len := m_len m + space\<rparr> # acc;
             Some (rest = [], if_hdr (\<lambda>p. p\<lparr>ph_len := ph_len p + int (length bs - length rest)\<rparr>) ch, st) })"

section \<open>Splitting\<close>

text \<open>The mbuf in which the first \<open>len\<close> bytes end, with the mbufs before and behind it.\<close>

fun split_at :: "nat \<Rightarrow> bmbuf list \<Rightarrow> (bmbuf list \<times> bmbuf \<times> bmbuf list \<times> nat) option" where
  "split_at len [] = None"
| "split_at len (m # ch) =
     (if len > m_len m then map_option (\<lambda>(pre, r). (m # pre, r)) (split_at (len - m_len m) ch) else Some ([], m, ch, len))"

definition split_hdr :: "'a mbuf_h \<Rightarrow> bmbuf \<Rightarrow> bmbuf \<Rightarrow> nat \<Rightarrow> 'a mst \<Rightarrow> bmbuf \<times> 'a mst" where
  "split_hdr h m0 n len0 st =
     (let (p, st) = (case ph_snd_tag (m_pkthdr m0) of
            Some t \<Rightarrow> ((m_pkthdr n)\<lparr>ph_snd_tag := Some t\<rparr>, h_snd_tag_ref h t st)
          | None \<Rightarrow> ((m_pkthdr n)\<lparr>ph_rcvif := ph_rcvif (m_pkthdr m0)\<rparr>, st)) in
      (n\<lparr>m_pkthdr := p\<lparr>ph_len := ph_len (m_pkthdr m0) - int len0\<rparr>\<rparr>, st))"

definition extpacket :: "bmbuf list \<Rightarrow> bmbuf \<Rightarrow> bmbuf list \<Rightarrow> nat \<Rightarrow> bmbuf \<Rightarrow> 'a mst \<Rightarrow> (bmbuf list \<times> bmbuf list \<times> 'a mst) option" where
  "extpacket pre m post len n st =
     (let remain = m_len m - len in
      do { (n, st) \<leftarrow> (if M_EXT \<in> m_flags m then mb_dupcl (n\<lparr>m_data := m_data m + len, m_cap := m_cap m\<rparr>) m st
             else map_option (Pair n) (bcopy (m_cap m) (m_data m + len) (m_cap n) (m_data n) remain st));
           Some (n\<lparr>m_len := remain\<rparr> # post, pre @ [m\<lparr>m_len := len\<rparr>], st) })"

text \<open>Result: the tail (NULL if it failed or is empty) and what is left of the given chain.\<close>

partial_function (option) m_split :: "'a mbuf_h \<Rightarrow> bmbuf list \<Rightarrow> nat \<Rightarrow> 'a mst \<Rightarrow> (bmbuf list \<times> bmbuf list \<times> 'a mst) option" where
  "m_split h ch len0 st =
     (case split_at len0 ch of
        None \<Rightarrow> Some ([], ch, st)
      | Some (pre, m, post, len) \<Rightarrow>
          let remain = m_len m - len; m0 = hd ch in
          if has_hdr m0
          then case h_gethdr h st of
                 (None, st) \<Rightarrow> Some ([], ch, st)
               | (Some n, st) \<Rightarrow>
                   let (n, st) = split_hdr h m0 n len0 st;
                       ch = upd_hdr (ph_len_update (\<lambda>_. int len0)) (pre @ [m]);
                       pre = butlast ch; m = last ch in
                   if remain = 0 then Some (n # post, ch, st)
                   else if M_EXT \<in> m_flags m then extpacket pre m post len n st
                   else if remain > h_MHLEN h
                   then let n = h_align h 0 n in
                        do { (n', ch, st) \<leftarrow> m_split h (m # post) len st;
                             if n' = [] then Some ([], pre @ ch, h_free h n st)
                             else Some (n\<lparr>m_len := 0\<rparr> # n', pre @ ch, st) }
                   else extpacket pre m post len (h_align h remain n) st
          else if remain = 0 then Some (post, pre @ [m], st)
          else case h_get h st of
                 (None, st) \<Rightarrow> Some ([], ch, st)
               | (Some n, st) \<Rightarrow> extpacket pre m post len (h_align h remain n) st)"

section \<open>Pulling up\<close>

text \<open>The loop of \<open>m_pullup\<close> and \<open>m_copyup\<close>; \<open>mp\<close> is \<open>max_protohdr\<close>.\<close>

partial_function (option) pullup_loop ::
    "'a mbuf_h \<Rightarrow> nat \<Rightarrow> int \<Rightarrow> nat \<Rightarrow> bmbuf \<Rightarrow> bmbuf list \<Rightarrow> 'a mst \<Rightarrow> (int \<times> bmbuf \<times> bmbuf list \<times> 'a mst) option" where
  "pullup_loop h mp len space m ns st =
     (case ns of [] \<Rightarrow> None
      | n # ns \<Rightarrow>
          let count = min (min (nat (max len (int mp))) space) (m_len n) in
          do { st \<leftarrow> bcopy (m_cap n) (m_data n) (m_cap m) (m_data m + m_len m) count st;
               let len = len - int count;
               let m = m\<lparr>m_len := m_len m + count\<rparr>;
               let n = n\<lparr>m_len := m_len n - count\<rparr>;
               let (ns, st) = (if m_len n \<noteq> 0 then (n\<lparr>m_data := m_data n + count\<rparr> # ns, st) else (ns, h_free h n st));
               if len > 0 \<and> ns \<noteq> [] then pullup_loop h mp len (space - count) m ns st else Some (len, m, ns, st) })"

definition pullup_end :: "'a mbuf_h \<Rightarrow> int \<times> bmbuf \<times> bmbuf list \<times> 'a mst \<Rightarrow> bmbuf list \<times> 'a mst" where
  "pullup_end h r = (case r of (len, m, ns, st) \<Rightarrow> if len > 0 then ([], h_freem h ns (h_free h m st)) else (m # ns, st))"

definition m_pullup :: "'a mbuf_h \<Rightarrow> nat \<Rightarrow> bmbuf list \<Rightarrow> nat \<Rightarrow> 'a mst \<Rightarrow> (bmbuf list \<times> 'a mst) option" where
  "m_pullup h mp ch len st =
     (case ch of [] \<Rightarrow> None
      | n # ns \<Rightarrow>
          if M_EXT \<notin> m_flags n \<and> m_data n + len < m_dat n + h_MLEN h \<and> ns \<noteq> []
          then if m_len n \<ge> len then Some (ch, st)
               else map_option (pullup_end h)
                 (pullup_loop h mp (int len - int (m_len n)) (m_dat n + h_MLEN h - (m_data n + m_len n)) n ns st)
          else if len > h_MHLEN h then Some ([], h_freem h ch st)
          else case h_get h st of
                 (None, st) \<Rightarrow> Some ([], h_freem h ch st)
               | (Some m, st) \<Rightarrow>
                   let (m, n) = (if has_hdr n then m_move_pkthdr h m n else (m, n)) in
                   map_option (pullup_end h) (pullup_loop h mp (int len) (m_dat m + h_MLEN h - (m_data m + m_len m)) m (n # ns) st))"

definition m_copyup :: "'a mbuf_h \<Rightarrow> nat \<Rightarrow> bmbuf list \<Rightarrow> nat \<Rightarrow> nat \<Rightarrow> 'a mst \<Rightarrow> (bmbuf list \<times> 'a mst) option" where
  "m_copyup h mp ch len dstoff st =
     (case ch of [] \<Rightarrow> None
      | n # ns \<Rightarrow>
          if int len > int (h_MHLEN h) - int dstoff then Some ([], h_freem h ch st)
          else case h_get h st of
                 (None, st) \<Rightarrow> Some ([], h_freem h ch st)
               | (Some m, st) \<Rightarrow>
                   let (m, n) = (if has_hdr n then m_move_pkthdr h m n else (m, n)); m = m\<lparr>m_data := m_data m + dstoff\<rparr> in
                   map_option (pullup_end h) (pullup_loop h mp (int len) (m_dat m + h_MLEN h - (m_data m + m_len m)) m (n # ns) st))"

section \<open>Prepending\<close>

definition m_prepend :: "'a mbuf_h \<Rightarrow> bmbuf list \<Rightarrow> nat \<Rightarrow> 'a mst \<Rightarrow> (bmbuf list \<times> 'a mst) option" where
  "m_prepend h ch len st =
     (case ch of [] \<Rightarrow> None
      | m # ch' \<Rightarrow>
          (case (if has_hdr m then h_gethdr h st else h_get h st) of
             (None, st) \<Rightarrow> Some ([], h_freem h ch st)
           | (Some mn, st) \<Rightarrow>
               let (mn, m) = (if has_hdr m then m_move_pkthdr h mn m else (mn, m));
                   mn = (if len < h_size h mn then h_align h len mn else mn) in
               Some (mn\<lparr>m_len := len\<rparr> # m # ch', st)))"

section \<open>Concatenation keeps the bytes\<close>

lemma put_bytes_apart: "span a (length bs) \<subseteq> S \<Longrightarrow> S \<inter> U = {} \<Longrightarrow> x \<in> U \<Longrightarrow> put_bytes a bs mm x = mm x"
  by (rule put_bytes_other) blast

lemma wf_room: "wf_mbuf h m \<Longrightarrow> m_data m + m_len m \<le> store_hi h m"
  by (simp add: wf_mbuf_def)

lemma wf_inb: "wf_mbuf h m \<Longrightarrow> m_data m + j + k \<le> store_hi h m \<Longrightarrow> inb (m_cap m) (m_data m + j) k"
  using store_base_le [of h m] by (auto simp: wf_mbuf_def inb_def)

lemma cat_loop_ok:
  assumes "mbuf_documented h used" "wf_mbuf h m" "\<forall>n\<in>set ns. wf_mbuf h n"
    and "\<forall>n\<in>set ns. span (m_data m + m_len m) (store_hi h m - (m_data m + m_len m)) \<inter> data_span n = {}"
  shows "\<exists>k ns' st'. cat_loop h m ns st = Some (m\<lparr>m_len := k\<rparr>, ns', st') \<and> wf_mbuf h (m\<lparr>m_len := k\<rparr>) \<and> set ns' \<subseteq> set ns \<and>
    chain_data (mst_mem st') (m\<lparr>m_len := k\<rparr> # ns') = m_bytes (mst_mem st) m @ chain_data (mst_mem st) ns \<and>
    (\<forall>x. x \<notin> span (m_data m + m_len m) (store_hi h m - (m_data m + m_len m)) \<longrightarrow> mst_mem st' x = mst_mem st x)"
  using assms(2-)
proof (induction ns arbitrary: m st)
  case Nil
  then show ?case by (intro exI [of _ "m_len m"] exI [of _ "[]"] exI [of _ st]) simp
next
  case (Cons n ns)
  let ?R = "span (m_data m + m_len m) (store_hi h m - (m_data m + m_len m))"
  show ?case
  proof (cases "\<not> h_writable h (mst_refs st) m \<or> h_trailing h (mst_refs st) m < m_len n")
    case True
    then show ?thesis using Cons.prems by (intro exI [of _ "m_len m"] exI [of _ "n # ns"] exI [of _ st]) simp
  next
    case False
    let ?b = "m_bytes (mst_mem st) n" and ?m = "m\<lparr>m_len := m_len m + m_len n\<rparr>"
    let ?mem = "put_bytes (m_data m + m_len m) ?b (mst_mem st)"
    let ?st = "h_free h n (st\<lparr>mst_mem := ?mem\<rparr>)"
    have fit: "m_data m + m_len m + m_len n \<le> store_hi h m"
      using False wf_room [OF Cons.prems(1)] by (auto simp: doc_trailing [OF assms(1)])
    have b: "bcopy (m_cap n) (m_data n) (m_cap m) (m_data m + m_len m) (m_len n) st = Some (st\<lparr>mst_mem := ?mem\<rparr>)"
      using wf_cap_ok [of h n] wf_inb [OF Cons.prems(1) fit] Cons.prems(2) by (simp add: bcopy_def m_bytes_def cap_ok_def)
    have wf: "wf_mbuf h ?m" using Cons.prems(1) fit by (simp add: wf_upd_len)
    have R: "span (m_data m + m_len m) (m_len n) \<subseteq> ?R"
      "span (m_data ?m + m_len ?m) (store_hi h ?m - (m_data ?m + m_len ?m)) \<subseteq> ?R" using fit by (auto simp: span_def)
    have ns: "chain_data ?mem ns = chain_data (mst_mem st) ns"
      by (rule chain_data_put_other) (use Cons.prems(3) R in \<open>auto simp: disjoint_iff\<close>)
    have m: "m_bytes ?mem ?m = m_bytes (mst_mem st) m @ ?b" using m_bytes_extend [of m ?b] by simp
    have "\<forall>x\<in>set ns. span (m_data ?m + m_len ?m) (store_hi h ?m - (m_data ?m + m_len ?m)) \<inter> data_span x = {}"
      using Cons.prems(3) R(2) by (meson disjoint_iff list.set_intros(2) subsetD)
    from Cons.IH [OF wf _ this, of ?st] Cons.prems(2) obtain k ns' st' where
      1: "cat_loop h ?m ns ?st = Some (?m\<lparr>m_len := k\<rparr>, ns', st')" "wf_mbuf h (?m\<lparr>m_len := k\<rparr>)" "set ns' \<subseteq> set ns"
        "chain_data (mst_mem st') (?m\<lparr>m_len := k\<rparr> # ns') = m_bytes (mst_mem ?st) ?m @ chain_data (mst_mem ?st) ns"
        "\<forall>x. x \<notin> span (m_data ?m + m_len ?m) (store_hi h ?m - (m_data ?m + m_len ?m)) \<longrightarrow> mst_mem st' x = mst_mem ?st x" by auto
    have x: "mst_mem st' x = mst_mem st x" if "x \<notin> ?R" for x
    proof -
      have "mst_mem st' x = mst_mem ?st x" using 1(5) R(2) that by blast
      also have "\<dots> = ?mem x" by (simp add: doc_free(1) [OF assms(1)])
      also have "\<dots> = mst_mem st x" by (rule put_bytes_other) (use R(1) that in \<open>simp only: length_m_bytes, blast\<close>)
      finally show ?thesis .
    qed
    show ?thesis
    proof (intro exI conjI)
      show "cat_loop h m (n # ns) st = Some (m\<lparr>m_len := k\<rparr>, ns', st')" using False b 1(1) by simp
      show "wf_mbuf h (m\<lparr>m_len := k\<rparr>)" "set ns' \<subseteq> set (n # ns)" using 1(2,3) by auto
      show "chain_data (mst_mem st') (m\<lparr>m_len := k\<rparr> # ns') = m_bytes (mst_mem st) m @ chain_data (mst_mem st) (n # ns)"
        using 1(4) m ns doc_free(1) [OF assms(1)] by simp
    qed (use x in blast)
  qed
qed

lemma m_cat_ok:
  assumes "mbuf_documented h used" "ch \<noteq> []" "\<forall>m\<in>set (ch @ ns). wf_mbuf h m"
    and "\<forall>m\<in>set (butlast ch @ ns). room h st (last ch) \<inter> data_span m = {}"
  shows "\<exists>k ns' st'. m_cat h ch ns st = Some (butlast ch @ (last ch)\<lparr>m_len := k\<rparr> # ns', st') \<and> wf_mbuf h ((last ch)\<lparr>m_len := k\<rparr>) \<and>
    set ns' \<subseteq> set ns \<and>
    chain_data (mst_mem st') (butlast ch @ (last ch)\<lparr>m_len := k\<rparr> # ns') = chain_data (mst_mem st) ch @ chain_data (mst_mem st) ns"
proof -
  let ?m = "last ch"
  have d: "chain_data mm ch = chain_data mm (butlast ch) @ m_bytes mm ?m" for mm
    using assms(2) chain_data_simps(3) [of mm "butlast ch" "[?m]"] by simp
  have wf: "wf_mbuf h ?m" "\<forall>n\<in>set ns. wf_mbuf h n" using assms(2,3) by auto
  show ?thesis
  proof (cases "h_writable h (mst_refs st) ?m")
    case False
    then have "cat_loop h ?m ns st = Some (?m\<lparr>m_len := m_len ?m\<rparr>, ns, st)" by (cases ns) simp_all
    then show ?thesis using assms(2) wf by (intro exI [of _ "m_len ?m"] exI [of _ ns] exI [of _ st]) (simp add: m_cat_def d)
  next
    case True
    then have R: "room h st ?m = span (m_data ?m + m_len ?m) (store_hi h ?m - (m_data ?m + m_len ?m))"
      by (simp add: room_def doc_trailing [OF assms(1)])
    obtain k ns' st' where 1: "cat_loop h ?m ns st = Some (?m\<lparr>m_len := k\<rparr>, ns', st')" "wf_mbuf h (?m\<lparr>m_len := k\<rparr>)" "set ns' \<subseteq> set ns"
        "chain_data (mst_mem st') (?m\<lparr>m_len := k\<rparr> # ns') = m_bytes (mst_mem st) ?m @ chain_data (mst_mem st) ns"
        "\<forall>x. x \<notin> room h st ?m \<longrightarrow> mst_mem st' x = mst_mem st x"
      using cat_loop_ok [OF assms(1) wf, of st] assms(4) unfolding R by auto
    have "chain_data (mst_mem st') (butlast ch) = chain_data (mst_mem st) (butlast ch)"
      by (rule chain_data_same) (use 1(5) assms(4) in \<open>auto simp: disjoint_iff\<close>)
    then show ?thesis using 1 assms(2) by (intro exI [of _ k] exI [of _ ns'] exI [of _ st']) (simp add: m_cat_def d)
  qed
qed

section \<open>Allocation\<close>

text \<open>What is known after a successful allocation.\<close>

lemma fresh_Some:
  assumes "fresh_mbuf h used fl st (Some m, st')"
  shows "mst_mem st' = mst_mem st" "mst_refs st' = mst_refs st" "wf_mbuf h m" "m_len m = 0" "m_flags m = fl" "m_data m = store_lo m"
    "m_pkthdr m = pkthdr_zero" "own_span h m \<inter> used (mst_al st) = {}" "used (mst_al st) \<subseteq> used (mst_al st')" "own_span h m \<subseteq> used (mst_al st')"
    "M_EXT \<in> fl \<Longrightarrow> ext_size (m_ext m) = h_MCLBYTES h \<and> h_writable h (mst_refs st') m"
  using assms by (auto simp: fresh_mbuf_def)

lemma fresh_None:
  assumes "fresh_mbuf h used fl st (None, st')"
  shows "mst_mem st' = mst_mem st" "mst_refs st' = mst_refs st" "used (mst_al st) \<subseteq> used (mst_al st')"
  using assms by (auto simp: fresh_mbuf_def)

text \<open>Within the storage of the mbuf.\<close>

definition stored :: "'a mbuf_h \<Rightarrow> bmbuf \<Rightarrow> nat set" where
  "stored h m = span (store_lo m) (store_hi h m - store_lo m)"

lemma stored_upd [simp]:
  "stored h (m\<lparr>m_len := k\<rparr>) = stored h m" "stored h (m\<lparr>m_data := a\<rparr>) = stored h m" "stored h (m\<lparr>m_pkthdr := p\<rparr>) = stored h m"
  by (simp_all add: stored_def)

lemma wf_stored: "wf_mbuf h m \<Longrightarrow> data_span m \<subseteq> stored h m"
  by (auto simp: wf_mbuf_def data_span_def stored_def)

lemma stored_own: "wf_mbuf h m \<Longrightarrow> stored h m \<subseteq> own_span h m"
  by (auto simp: wf_mbuf_def stored_def own_span_def store_lo_def store_hi_def)

lemma size_get: "m_flags m = {} \<Longrightarrow> store_lo m = m_dat m \<and> store_hi h m = m_dat m + h_MLEN h"
  by (simp add: store_lo_def store_hi_def has_hdr_def)

lemma size_gethdr: "wf_mbuf h m \<Longrightarrow> m_flags m = {M_PKTHDR} \<Longrightarrow> store_hi h m = store_lo m + h_MHLEN h"
  by (auto simp: store_lo_def store_hi_def has_hdr_def wf_mbuf_def)

lemma size_getcl: "M_EXT \<in> m_flags m \<Longrightarrow> store_hi h m = store_lo m + ext_size (m_ext m)"
  by (simp add: store_lo_def store_hi_def)

text \<open>Memory and storage in use after a step that only writes to storage that was free.\<close>

definition grows :: "('a \<Rightarrow> nat set) \<Rightarrow> 'a mst \<Rightarrow> 'a mst \<Rightarrow> bool" where
  "grows used st st' \<longleftrightarrow> used (mst_al st) \<subseteq> used (mst_al st') \<and> (\<forall>x\<in>used (mst_al st). mst_mem st' x = mst_mem st x)"

lemma grows_refl [simp]: "grows used st st"
  by (simp add: grows_def)

lemma grows_trans [trans]: "grows used a b \<Longrightarrow> grows used b c \<Longrightarrow> grows used a c"
  by (auto simp: grows_def subset_iff)

lemma grows_data: "grows used st st' \<Longrightarrow> \<forall>m\<in>set ch. data_span m \<subseteq> used (mst_al st) \<Longrightarrow> chain_data (mst_mem st') ch = chain_data (mst_mem st) ch"
  by (rule chain_data_same) (auto simp: grows_def)

lemma same_store_grows: "same_store used st st' \<Longrightarrow> grows used st st'"
  by (simp add: same_store_def grows_def)

text \<open>Bytes written into a fresh mbuf.\<close>

lemma fresh_fill:
  assumes f: "fresh_mbuf h used fl st (Some n, st1)" and len: "m_data n = store_lo n" "length bs \<le> store_hi h n - store_lo n"
  shows "bcopy_in bs (m_cap n) (m_data n) st1 = Some (st1\<lparr>mst_mem := put_bytes (m_data n) bs (mst_mem st1)\<rparr>)"
    "m_bytes (put_bytes (m_data n) bs (mst_mem st1)) (n\<lparr>m_len := length bs\<rparr>) = bs"
    "wf_mbuf h (n\<lparr>m_len := length bs\<rparr>)" "data_span (n\<lparr>m_len := length bs\<rparr>) \<subseteq> used (mst_al st1)"
    "grows used st (st1\<lparr>mst_mem := put_bytes (m_data n) bs (mst_mem st1)\<rparr>)"
proof -
  note F = fresh_Some [OF f]
  have fit: "m_data n + length bs \<le> store_hi h n" using len wf_room [OF F(3)] by simp
  show "bcopy_in bs (m_cap n) (m_data n) st1 = Some (st1\<lparr>mst_mem := put_bytes (m_data n) bs (mst_mem st1)\<rparr>)"
    using wf_inb [OF F(3), of 0 "length bs"] fit by (simp add: bcopy_in_def)
  show "m_bytes (put_bytes (m_data n) bs (mst_mem st1)) (n\<lparr>m_len := length bs\<rparr>) = bs" by (simp add: m_bytes_def)
  show wf: "wf_mbuf h (n\<lparr>m_len := length bs\<rparr>)" using F(3) fit by (rule wf_upd_len)
  have s: "span (m_data n) (length bs) \<subseteq> own_span h n"
    using wf_stored [OF wf] stored_own [OF F(3)] by (simp add: data_span_def)
  then show "data_span (n\<lparr>m_len := length bs\<rparr>) \<subseteq> used (mst_al st1)" using F(10) by (simp add: data_span_def)
  have "put_bytes (m_data n) bs (mst_mem st1) x = mst_mem st x" if "x \<in> used (mst_al st)" for x
    using put_bytes_apart [OF s F(8) that] F(1) by simp
  then show "grows used st (st1\<lparr>mst_mem := put_bytes (m_data n) bs (mst_mem st1)\<rparr>)" using F(9) by (simp add: grows_def)
qed

text \<open>A chain of well-formed mbufs in storage that is in use.\<close>

definition live :: "'a mbuf_h \<Rightarrow> ('a \<Rightarrow> nat set) \<Rightarrow> 'a mst \<Rightarrow> bmbuf list \<Rightarrow> bool" where
  "live h used st ch \<longleftrightarrow> (\<forall>m\<in>set ch. wf_mbuf h m \<and> data_span m \<subseteq> used (mst_al st))"

lemma live_simps [simp]:
  "live h used st []" "live h used st (m # ch) \<longleftrightarrow> wf_mbuf h m \<and> data_span m \<subseteq> used (mst_al st) \<and> live h used st ch"
  "live h used st (ch @ ch') \<longleftrightarrow> live h used st ch \<and> live h used st ch'" "live h used (st\<lparr>mst_mem := mm\<rparr>) ch = live h used st ch"
  by (auto simp: live_def)

lemma live_grows: "live h used st ch \<Longrightarrow> grows used st st' \<Longrightarrow> live h used st' ch \<and> chain_data (mst_mem st') ch = chain_data (mst_mem st) ch"
  using grows_data [of used st st' ch] by (auto simp: live_def grows_def)

lemma live_if_hdr [simp]: "live h used st (if_hdr f ch) = live h used st ch"
  by (cases ch) (auto simp: if_hdr_def upd_hdr_def live_def data_span_def)

lemma demo_packet_live: "j \<le> 40 \<Longrightarrow> k \<le> 256 \<Longrightarrow> live demo_h demo_used demo_st (demo_packet j k)"
  by (auto simp: demo_packet_def demo_st_def demo_simps live_def wf_mbuf_def store_base_def store_lo_def store_hi_def has_hdr_def data_span_def)

lemma append_loop_ok:
  assumes "mbuf_documented h used"
  shows "\<exists>acc' k st'. append_loop h bs acc st = Some (acc @ acc', drop k bs, st') \<and> k \<le> length bs \<and>
    chain_data (mst_mem st') acc' = take k bs \<and> live h used st' acc' \<and> grows used st st' \<and> (k = length bs \<or> (\<exists>s. fst (h_get h s) = None))"
proof (induction "length bs" arbitrary: bs acc st rule: less_induct)
  case less
  show ?case
  proof (cases "bs = []")
    case True
    then show ?thesis by (subst append_loop.simps) (intro exI [of _ "[]"] exI [of _ 0] exI [of _ st], simp)
  next
    case False
    obtain r st1 where g: "h_get h st = (r, st1)" by fastforce
    note f = doc_fresh(1) [OF assms, of st, unfolded g]
    show ?thesis
    proof (cases r)
      case None
      note f = f [unfolded None, THEN fresh_None(1)] f [unfolded None, THEN fresh_None(3)]
      have "\<exists>s. fst (h_get h s) = None" using g None by (intro exI [of _ st]) simp
      then show ?thesis using False g None f by (subst append_loop.simps) (intro exI [of _ "[]"] exI [of _ 0] exI [of _ st1], simp add: grows_def)
    next
      case (Some n)
      note F = fresh_Some [OF f [unfolded Some]]
      let ?k = "min (h_MLEN h) (length bs)" and ?b = "take (min (h_MLEN h) (length bs)) bs"
      have lb: "length ?b = ?k" by simp
      have "length ?b \<le> store_hi h n - store_lo n" using size_get [OF F(5), of h] by simp
      note fill = fresh_fill [OF f [unfolded Some] F(6) this, unfolded lb]
      let ?n = "n\<lparr>m_len := ?k\<rparr>" and ?st = "st1\<lparr>mst_mem := put_bytes (m_data n) ?b (mst_mem st1)\<rparr>"
      have "length (drop ?k bs) < length bs" using doc_sizes [OF assms] False by simp
      from less(1) [OF this, of "acc @ [?n]" ?st] obtain acc' k st' where
        1: "append_loop h (drop ?k bs) (acc @ [?n]) ?st = Some ((acc @ [?n]) @ acc', drop k (drop ?k bs), st')" "k \<le> length (drop ?k bs)"
          "chain_data (mst_mem st') acc' = take k (drop ?k bs)" "live h used st' acc'" "grows used ?st st'"
          "k = length (drop ?k bs) \<or> (\<exists>s. fst (h_get h s) = None)" by blast
      have n: "live h used ?st [?n]" "chain_data (mst_mem ?st) [?n] = ?b" using fill(2-4) by simp_all
      show ?thesis
      proof (intro exI conjI)
        show "append_loop h bs acc st = Some (acc @ ?n # acc', drop (?k + k) bs, st')"
          using False g Some fill(1) 1(1) by (subst append_loop.simps) (simp add: Let_def add.commute)
        show "?k + k \<le> length bs" using 1(2) by simp
        show "live h used st' (?n # acc')" using live_grows [OF n(1) 1(5)] 1(4) by simp
        have "chain_data (mst_mem st') [?n] = ?b" using live_grows [OF n(1) 1(5)] n(2) by simp
        then show "chain_data (mst_mem st') (?n # acc') = take (?k + k) bs" using 1(3) by (simp add: take_add)
        show "grows used st st'" using fill(5) 1(5) by (rule grows_trans)
        show "?k + k = length bs \<or> (\<exists>s. fst (h_get h s) = None)" using 1(6) by auto
      qed
    qed
  qed
qed

text \<open>
  C29: Appending to a packet. If the chain is well formed and the space behind its last mbuf is not used by
  its other mbufs, \<open>m_append\<close> returns, whatever the allocator answers: the chain
  holds its old bytes and a prefix of the new ones, all of them if and only if the result is 1, which it
  is unless \<open>m_get\<close> can fail; the packet header counts them, and the mbufs are well formed.
\<close>

theorem m_append_appends:
  assumes "mbuf_documented h used" "ch \<noteq> []" "live h used st ch" "hdr_ok ch" "room h st (last ch) \<subseteq> used (mst_al st)"
    "\<forall>m\<in>set (butlast ch). room h st (last ch) \<inter> data_span m = {}"
  shows "\<exists>ok ch' st' k. m_append h ch bs st = Some (ok, ch', st') \<and> k \<le> length bs \<and> (ok \<longleftrightarrow> k = length bs) \<and>
    (ok \<or> (\<exists>s. fst (h_get h s) = None)) \<and> chain_data (mst_mem st') ch' = chain_data (mst_mem st) ch @ take k bs \<and> hdr_ok ch' \<and> live h used st' ch'"
proof -
  let ?m = "last ch"
  let ?s = "min (h_trailing h (mst_refs st) ?m) (length bs)"
  let ?b = "take ?s bs" and ?pre = "butlast ch"
  let ?st = "st\<lparr>mst_mem := put_bytes (m_data ?m + m_len ?m) ?b (mst_mem st)\<rparr>" and ?n = "?m\<lparr>m_len := m_len ?m + ?s\<rparr>"
  have ch: "ch = ?pre @ [?m]" using assms(2) by simp
  have lv: "live h used st ?pre" "wf_mbuf h ?m" using assms(3) by (subst (asm) ch, simp)+
  have lb: "length ?b = ?s" by simp
  have fit: "m_data ?m + m_len ?m + ?s \<le> store_hi h ?m"
    using wf_room [OF lv(2)] by (auto simp: doc_trailing [OF assms(1)])
  have st: "(if ?s > 0 then bcopy_in ?b (m_cap ?m) (m_data ?m + m_len ?m) st else Some st) = Some ?st"
    using wf_inb [OF lv(2) fit] by (auto simp: bcopy_in_def)
  have sub: "span (m_data ?m + m_len ?m) (length ?b) \<subseteq> room h st ?m" by (auto simp: room_def)
  have pre: "chain_data (mst_mem ?st) ?pre = chain_data (mst_mem st) ?pre"
    using assms(6) sub by (simp, intro chain_data_put_other) blast
  have n: "m_bytes (mst_mem ?st) ?n = m_bytes (mst_mem st) ?m @ ?b" using m_bytes_extend [of ?m ?b] by simp
  have "data_span ?n \<subseteq> data_span ?m \<union> span (m_data ?m + m_len ?m) (length ?b)" by (auto simp: data_span_def)
  moreover have "data_span ?m \<subseteq> used (mst_al st)" using assms(3) by (subst (asm) ch, simp)
  ultimately have lv': "live h used ?st (?pre @ [?n])" using lv wf_upd_len [OF lv(2)] fit sub assms(5) by (simp add: add.assoc) blast
  obtain acc k st' where 1: "append_loop h (drop ?s bs) [] ?st = Some (acc, drop k (drop ?s bs), st')" "k \<le> length (drop ?s bs)"
    "chain_data (mst_mem st') acc = take k (drop ?s bs)" "live h used st' acc" "grows used ?st st'"
    "k = length (drop ?s bs) \<or> (\<exists>s. fst (h_get h s) = None)"
    using append_loop_ok [OF assms(1), of "drop ?s bs" "[]" ?st] by auto
  let ?ch = "?pre @ ?n # acc" and ?k = "?s + k"
  let ?f = "\<lambda>p. p\<lparr>ph_len := ph_len p + int (length bs - length (drop k (drop ?s bs)))\<rparr>"
  have d: "chain_data (mst_mem st') ?ch = chain_data (mst_mem st) ch @ take ?k bs"
    using live_grows [OF lv' 1(5)] 1(3) pre n by (subst (2) ch) (simp add: take_add)
  have k: "?k \<le> length bs" "length bs - length (drop k (drop ?s bs)) = ?k" using 1(2) by auto
  have hd: "has_hdr (hd ?ch) = has_hdr (hd ch)" "m_pkthdr (hd ?ch) = m_pkthdr (hd ch)"
    by (subst (2) ch, cases ?pre; simp add: has_hdr_def)+
  have len: "m_length ?ch = m_length ch + ?k" using arg_cong [OF d, of length] k(1) by simp
  show ?thesis
  proof (intro exI conjI)
    show "m_append h ch bs st = Some (drop k (drop ?s bs) = [], if_hdr ?f ?ch, st')"
      using assms(2) st 1(1) by (simp add: m_append_def Let_def)
    show "?k \<le> length bs" "(drop k (drop ?s bs) = []) \<longleftrightarrow> ?k = length bs" using k by auto
    show "drop k (drop ?s bs) = [] \<or> (\<exists>s. fst (h_get h s) = None)" using 1(6) by auto
    show "chain_data (mst_mem st') (if_hdr ?f ?ch) = chain_data (mst_mem st) ch @ take ?k bs" using d by simp
    show "hdr_ok (if_hdr ?f ?ch)" using assms(2,4) hd len k(2) by (simp add: hdr_ok_def hd_if_hdr)
    show "live h used st' (if_hdr ?f ?ch)" using live_grows [OF lv' 1(5)] 1(4) live_if_hdr by simp
  qed
qed

theorem m_append_appends_witness:
  "\<exists>ok ch' st' k. m_append demo_h (demo_packet 10 20) [1, 2, 3] demo_st = Some (ok, ch', st') \<and> k \<le> length [1, 2, 3 :: u8] \<and>
    (ok \<longleftrightarrow> k = length [1, 2, 3 :: u8]) \<and> (ok \<or> (\<exists>s. fst (h_get demo_h s) = None)) \<and>
    chain_data (mst_mem st') ch' = chain_data (mst_mem demo_st) (demo_packet 10 20) @ take k [1, 2, 3] \<and>
    hdr_ok ch' \<and> live demo_h demo_used st' ch'"
proof (rule m_append_appends [OF demo_documented _ demo_packet_live])
  show "room demo_h demo_st (last (demo_packet 10 20)) \<subseteq> demo_used (mst_al demo_st)"
    "\<forall>m\<in>set (butlast (demo_packet 10 20)). room demo_h demo_st (last (demo_packet 10 20)) \<inter> data_span m = {}"
    by (auto simp: demo_packet_def demo_st_def demo_simps room_def data_span_def)
qed (simp_all add: demo_packet_def hdr_ok_def)

section \<open>Splitting partitions the bytes\<close>

lemma split_at_Some:
  "split_at len ch = Some (pre, m, post, l) \<Longrightarrow> ch = pre @ m # post \<and> len = m_length pre + l \<and> l \<le> m_len m"
proof (induction ch arbitrary: len pre)
  case (Cons x ch)
  show ?case
  proof (cases "len > m_len x")
    case True
    then obtain p where "split_at (len - m_len x) ch = Some (p, m, post, l)" "pre = x # p" using Cons.prems by auto
    then show ?thesis using Cons.IH [of "len - m_len x" p] True by auto
  qed (use Cons.prems in auto)
qed simp

lemma split_at_None: "split_at len ch = None \<Longrightarrow> m_length ch < len \<or> ch = []"
proof (induction ch arbitrary: len)
  case (Cons x ch)
  then have l: "m_len x < len" "split_at (len - m_len x) ch = None" by (auto split: if_splits)
  from Cons.IH [OF l(2)] show ?case using l(1) by auto
qed simp

definition ext_ok :: "bmbuf \<Rightarrow> bool" where
  "ext_ok m \<longleftrightarrow> (M_EXT \<in> m_flags m \<longrightarrow> ext_embref (m_ext m) \<or> ext_cnt (m_ext m) \<noteq> 0)"

text \<open>\<open>n'\<close> is \<open>n\<close> after it was made to share the storage of \<open>m\<close>.\<close>

definition dup_of :: "bmbuf \<Rightarrow> bmbuf \<Rightarrow> bmbuf \<Rightarrow> bool" where
  "dup_of n m n' \<longleftrightarrow> m_data n' = m_data n \<and> m_cap n' = m_cap n \<and> m_len n' = m_len n \<and>
     m_flags n' = m_flags n \<union> m_flags m \<inter> {M_RDONLY, M_EXT} \<and> m_pkthdr n' = m_pkthdr n \<and>
     ext_buf (m_ext n') = ext_buf (m_ext m) \<and> ext_size (m_ext n') = ext_size (m_ext m) \<and>
     m_obj n' = m_obj n \<and> m_dat n' = m_dat n \<and> m_pktdat n' = m_pktdat n"

lemma mb_dupcl_ok:
  assumes "M_EXT \<in> m_flags m" "M_EXT \<notin> m_flags n" "ext_ok m"
  obtains n' st' where "mb_dupcl n m st = Some (n', st')" "mst_mem st' = mst_mem st" "mst_al st' = mst_al st" "dup_of n m n'"
proof -
  have "\<exists>n' st'. mb_dupcl n m st = Some (n', st') \<and> mst_mem st' = mst_mem st \<and> mst_al st' = mst_al st \<and> dup_of n m n'"
    using assms by (cases "ext_embref (m_ext m)"; cases "ext_extref (m_ext m)") (simp_all add: mb_dupcl_def ext_ok_def Let_def dup_of_def)
  then show thesis using that by blast
qed

lemma dup_of_wf:
  assumes "dup_of n m n'" "wf_mbuf h m" "wf_mbuf h n0" "M_EXT \<in> m_flags m" "j + k \<le> m_len m"
    and n: "m_data n = m_data m + j" "m_cap n = m_cap m" "m_obj n = m_obj n0" "m_dat n = m_dat n0" "m_pktdat n = m_pktdat n0"
  shows "wf_mbuf h (n'\<lparr>m_len := k\<rparr>)" "m_bytes mm (n'\<lparr>m_len := k\<rparr>) = take k (drop j (m_bytes mm m))" "data_span (n'\<lparr>m_len := k\<rparr>) \<subseteq> data_span m"
proof -
  show "wf_mbuf h (n'\<lparr>m_len := k\<rparr>)" using assms by (simp add: wf_mbuf_def store_lo_def store_hi_def store_base_def dup_of_def)
  have "bytes_at mm (m_data m) (m_len m) = bytes_at mm (m_data m) j @ bytes_at mm (m_data m + j) (m_len m - j)"
    using bytes_at_append [of mm "m_data m" j "m_len m - j"] assms(5) by simp
  then show "m_bytes mm (n'\<lparr>m_len := k\<rparr>) = take k (drop j (m_bytes mm m))" using assms by (simp add: m_bytes_def take_bytes_at dup_of_def)
  show "data_span (n'\<lparr>m_len := k\<rparr>) \<subseteq> data_span m" using assms by (auto simp: data_span_def dup_of_def)
qed

lemma extpacket_ok:
  assumes m: "wf_mbuf h m" "ext_ok m" "l \<le> m_len m" and U: "\<forall>x\<in>set (pre @ m # post). data_span x \<subseteq> U"
    and n: "wf_mbuf h n" "M_EXT \<notin> m_flags n" "own_span h n \<inter> U = {}"
    and room: "M_EXT \<notin> m_flags m \<Longrightarrow> store_lo n' \<le> m_data n' \<and> m_data n' + (m_len m - l) \<le> store_hi h n'"
    and n': "n' = n\<lparr>m_data := a\<rparr>"
  shows "\<exists>n'' st'. extpacket pre m post l n' st = Some (n'' # post, pre @ [m\<lparr>m_len := l\<rparr>], st') \<and> mst_al st' = mst_al st \<and>
    (\<forall>x\<in>U. mst_mem st' x = mst_mem st x) \<and> wf_mbuf h n'' \<and> data_span n'' \<subseteq> U \<union> own_span h n \<and> m_len n'' = m_len m - l \<and>
    has_hdr n'' = has_hdr n \<and> m_pkthdr n'' = m_pkthdr n \<and> m_bytes (mst_mem st') n'' = drop l (m_bytes (mst_mem st) m)"
proof (cases "M_EXT \<in> m_flags m")
  case True
  let ?n = "n'\<lparr>m_data := m_data m + l, m_cap := m_cap m\<rparr>"
  have "M_EXT \<notin> m_flags ?n" using n(2) by (simp add: n')
  from mb_dupcl_ok [OF True this m(2), of st] obtain d st' where
    d: "mb_dupcl ?n m st = Some (d, st')" "mst_mem st' = mst_mem st" "mst_al st' = mst_al st" "dup_of ?n m d" by blast
  let ?d = "d\<lparr>m_len := m_len m - l\<rparr>"
  have w: "wf_mbuf h ?d" "m_bytes mm ?d = take (m_len m - l) (drop l (m_bytes mm m))" "data_span ?d \<subseteq> data_span m" for mm
    using dup_of_wf [OF d(4) m(1) n(1) True, where j = l and k = "m_len m - l"] m(3) by (simp_all add: n')
  show ?thesis
  proof (intro exI conjI)
    show "extpacket pre m post l n' st = Some (?d # post, pre @ [m\<lparr>m_len := l\<rparr>], st')" using True d(1) by (simp add: extpacket_def Let_def)
    show "data_span ?d \<subseteq> U \<union> own_span h n" using w(3) U by auto
  qed (use w d True in \<open>auto simp: has_hdr_def dup_of_def n'\<close>)
next
  case False
  let ?r = "m_len m - l" let ?b = "bytes_at (mst_mem st) (m_data m + l) ?r"
  let ?st = "st\<lparr>mst_mem := put_bytes (m_data n') ?b (mst_mem st)\<rparr>" and ?n = "n'\<lparr>m_len := ?r\<rparr>"
  have r: "store_lo n \<le> a" "a + ?r \<le> store_hi h n" using room [OF False] by (simp_all add: n')
  have b: "?b = drop l (m_bytes (mst_mem st) m)"
    using bytes_at_append [of "mst_mem st" "m_data m" l ?r] m(3) by (simp add: m_bytes_def)
  have i: "inb (m_cap m) (m_data m + l) ?r" using wf_inb [OF m(1), of l ?r] wf_room [OF m(1)] m(3) by simp
  have o: "inb (m_cap n') (m_data n') ?r" using n(1) r store_base_le [OF n(1)] by (auto simp: n' wf_mbuf_def inb_def)
  have wf: "wf_mbuf h ?n" using n(1) r by (simp add: n' wf_mbuf_def)
  have s: "span a ?r \<subseteq> own_span h n" using wf_stored [OF wf] stored_own [OF n(1)] by (simp add: n' data_span_def)
  have x: "mst_mem ?st x = mst_mem st x" if "x \<in> U" for x
    using put_bytes_apart [of a ?b "own_span h n" U x] s n(3) that by (simp add: n')
  show ?thesis
  proof (intro exI conjI)
    show "extpacket pre m post l n' st = Some (?n # post, pre @ [m\<lparr>m_len := l\<rparr>], ?st)"
      using False i o by (simp add: extpacket_def bcopy_def Let_def)
    show "m_bytes (mst_mem ?st) ?n = drop l (m_bytes (mst_mem st) m)"
      unfolding b [symmetric] using bytes_at_put_same [of "m_data n'" ?b] by (simp add: m_bytes_def)
    show "data_span ?n \<subseteq> U \<union> own_span h n" using s by (auto simp: n' data_span_def)
  qed (use x wf in \<open>auto simp: n' has_hdr_def\<close>)
qed

text \<open>Both parts after the mbuf \<open>m\<close> was cut at \<open>l\<close>.\<close>

lemma cut_data:
  assumes "\<forall>x\<in>set (pre @ m # post). data_span x \<subseteq> U" "\<forall>x\<in>U. mm' x = mm x" "l \<le> m_len m" "m_bytes mm' n = drop l (m_bytes mm m)"
  shows "chain_data mm' (pre @ [m\<lparr>m_len := l\<rparr>]) = take (m_length pre + l) (chain_data mm (pre @ m # post))"
    "chain_data mm' (n # post) = drop (m_length pre + l) (chain_data mm (pre @ m # post))"
proof -
  have c: "chain_data mm' ch = chain_data mm ch" if "set ch \<subseteq> set (pre @ m # post)" for ch
    by (rule chain_data_same) (use that assms(1,2) in blast)
  have "chain_data mm' pre = chain_data mm pre" "chain_data mm' post = chain_data mm post" by (rule c, auto)+
  moreover have "m_bytes mm' m = m_bytes mm m" by (rule m_bytes_cong) (use assms(1,2) in auto)
  ultimately show "chain_data mm' (pre @ [m\<lparr>m_len := l\<rparr>]) = take (m_length pre + l) (chain_data mm (pre @ m # post))"
    "chain_data mm' (n # post) = drop (m_length pre + l) (chain_data mm (pre @ m # post))"
    using assms(3,4) by (simp_all add: m_bytes_cut)
qed

lemma live_cut: "live h used st (pre @ m # post) \<Longrightarrow> l \<le> m_len m \<Longrightarrow> live h used st (pre @ [m\<lparr>m_len := l\<rparr>])"
  using wf_room [of h m] by (auto simp: data_span_def intro!: wf_upd_len)

lemma wf_internal_len: "wf_mbuf h m \<Longrightarrow> M_EXT \<notin> m_flags m \<Longrightarrow> m_len m \<le> h_MLEN h"
  by (auto simp: wf_mbuf_def store_lo_def store_hi_def split: if_splits)

text \<open>Cutting with a freshly allocated mbuf.\<close>

lemma extpacket_fresh:
  assumes doc: "mbuf_documented h used" and f: "fresh_mbuf h used fl st (Some n, st1)" "M_EXT \<notin> fl"
    and lv: "live h used st (pre @ m # post)" "ext_ok m" "l \<le> m_len m"
    and n: "n' = n\<lparr>m_pkthdr := p\<rparr>" "n'' = n' \<or> n'' = h_align h (m_len m - l) n'" "same_store used st1 st2"
    and room: "M_EXT \<notin> m_flags m \<Longrightarrow> n'' = h_align h (m_len m - l) n' \<and> m_len m - l \<le> store_hi h n - store_lo n"
  shows "\<exists>d st'. extpacket pre m post l n'' st2 = Some (d # post, pre @ [m\<lparr>m_len := l\<rparr>], st') \<and> grows used st st' \<and>
    live h used st' (pre @ [m\<lparr>m_len := l\<rparr>]) \<and> live h used st' (d # post) \<and> m_len d = m_len m - l \<and> has_hdr d = (M_PKTHDR \<in> fl) \<and> m_pkthdr d = p \<and>
    chain_data (mst_mem st') (pre @ [m\<lparr>m_len := l\<rparr>]) = take (m_length pre + l) (chain_data (mst_mem st) (pre @ m # post)) \<and>
    chain_data (mst_mem st') (d # post) = drop (m_length pre + l) (chain_data (mst_mem st) (pre @ m # post))"
proof -
  note F = fresh_Some [OF f(1)]
  let ?U = "used (mst_al st)"
  have U: "\<forall>x\<in>set (pre @ m # post). data_span x \<subseteq> ?U" using lv(1) by (auto simp: live_def)
  have wf: "wf_mbuf h n'" "M_EXT \<notin> m_flags n'" "own_span h n' = own_span h n" "store_lo n' = store_lo n" "store_hi h n' = store_hi h n" "m_len n' = 0"
    using F f(2) by (simp_all add: n own_span_def)
  obtain a where a: "h_align h (m_len m - l) n' = n'\<lparr>m_data := a\<rparr>"
    "\<lbrakk>wf_mbuf h n'; m_len n' = 0; m_len m - l \<le> store_hi h n' - store_lo n'\<rbrakk> \<Longrightarrow> store_lo n' \<le> a \<and> a + (m_len m - l) \<le> store_hi h n'"
    using doc_align [OF doc] by metis
  have "n' = n'\<lparr>m_data := m_data n'\<rparr>" by simp
  then obtain b where b: "n'' = n'\<lparr>m_data := b\<rparr>" "M_EXT \<notin> m_flags m \<Longrightarrow> b = a" using n(2) a(1) room by (metis bmbuf.select_convs(6) bmbuf.update_convs(6) bmbuf.surjective)
  have "store_lo n'' \<le> m_data n'' \<and> m_data n'' + (m_len m - l) \<le> store_hi h n''" if "M_EXT \<notin> m_flags m"
    using a(2) [OF wf(1,6)] room [OF that, THEN conjunct2] b(2) [OF that] wf(4,5) by (simp add: b(1))
  from extpacket_ok [OF _ lv(2,3) U wf(1,2) _ this b(1), of st2] obtain d st' where
    d: "extpacket pre m post l n'' st2 = Some (d # post, pre @ [m\<lparr>m_len := l\<rparr>], st')" "mst_al st' = mst_al st2" "\<forall>x\<in>?U. mst_mem st' x = mst_mem st2 x"
      "wf_mbuf h d" "data_span d \<subseteq> ?U \<union> own_span h n" "m_len d = m_len m - l" "has_hdr d = has_hdr n'" "m_pkthdr d = m_pkthdr n'"
      "m_bytes (mst_mem st') d = drop l (m_bytes (mst_mem st2) m)"
    using lv(1) F(8) wf(3) by auto
  have s2: "mst_mem st2 = mst_mem st" "used (mst_al st1) \<subseteq> used (mst_al st2)" using n(3) F(1) by (simp_all add: same_store_def)
  have g: "grows used st st'" using d(2,3) s2 F(9) by (auto simp: grows_def)
  have "data_span d \<subseteq> used (mst_al st')" using d(2,5) s2(2) F(9,10) by auto
  then have "live h used st' (d # post)" using live_grows [OF lv(1) g] d(4) by simp
  moreover have "live h used st' (pre @ [m\<lparr>m_len := l\<rparr>])" using live_cut [OF _ lv(3)] live_grows [OF lv(1) g] by blast
  moreover have "has_hdr d = (M_PKTHDR \<in> fl)" "m_pkthdr d = p" using d(7,8) F(5) by (simp_all add: n has_hdr_def)
  ultimately show ?thesis using d(1,6) g cut_data [OF U _ lv(3), of "mst_mem st'" "mst_mem st" d] d(3,9) s2(1) by auto
qed

definition parts :: "bytes \<Rightarrow> bmbuf list \<Rightarrow> nat \<Rightarrow> bytes \<Rightarrow> bmbuf list \<Rightarrow> bmbuf list \<Rightarrow> bool" where
  "parts mm ch len mm' ch' n \<longleftrightarrow> chain_data mm' ch' = take len (chain_data mm ch) \<and> chain_data mm' n = drop len (chain_data mm ch)"

lemma m_split_plain:
  assumes "mbuf_documented h used" "live h used st ch" "\<forall>m\<in>set ch. ext_ok m" "\<not> has_hdr (hd ch)"
    and s: "split_at len ch = Some (pre, m, post, l)"
  shows "\<exists>n ch' st'. m_split h ch len st = Some (n, ch', st') \<and> grows used st st' \<and> live h used st' ch' \<and> live h used st' n \<and>
    (n = [] \<and> ch' = ch \<or> n \<noteq> [] \<and> parts (mst_mem st) ch len (mst_mem st') ch' n) \<and>
    ch' \<noteq> [] \<and> has_hdr (hd ch') = has_hdr (hd ch) \<and> (n \<noteq> [] \<longrightarrow> \<not> has_hdr (hd n) \<or> hd n \<in> set (tl ch))"
proof -
  have ch: "ch = pre @ m # post" and len: "len = m_length pre + l" "l \<le> m_len m" using split_at_Some [OF s] by auto
  show ?thesis
  proof (cases "m_len m - l = 0")
    case True
    then have l: "l = m_len m" using len by simp
    have 1: "m_split h ch len st = Some (post, pre @ [m], st)" using s True assms(4) by (subst m_split.simps) (simp add: Let_def)
    have "post = [] \<and> pre @ [m] = ch \<or> post \<noteq> [] \<and> parts (mst_mem st) ch len (mst_mem st) (pre @ [m]) post"
      by (cases post) (simp_all add: ch len l parts_def)
    moreover have "live h used st (pre @ [m])" "live h used st post" using assms(2) by (simp_all add: ch)
    moreover have "has_hdr (hd (pre @ [m])) = has_hdr (hd ch)" "post \<noteq> [] \<longrightarrow> hd post \<in> set (tl ch)" by (cases pre; simp add: ch)+
    ultimately show ?thesis using 1 grows_refl by blast
  next
    case False
    obtain r st1 where g: "h_get h st = (r, st1)" by fastforce
    note f = doc_fresh(1) [OF assms(1), of st, unfolded g]
    show ?thesis
    proof (cases r)
      case None
      have 1: "m_split h ch len st = Some ([], ch, st1)" using s False assms(4) g None by (subst m_split.simps) (simp add: Let_def)
      have "grows used st st1" using fresh_None [OF f [unfolded None]] by (simp add: grows_def)
      then show ?thesis using 1 live_grows [OF assms(2)] live_simps(1) ch by blast
    next
      case (Some n)
      note fs = f [unfolded Some]
      have 1: "m_split h ch len st = extpacket pre m post l (h_align h (m_len m - l) n) st1"
        using s False assms(4) g Some by (subst m_split.simps) (simp add: Let_def)
      have sz: "m_len m - l \<le> store_hi h n - store_lo n" if "M_EXT \<notin> m_flags m"
        using wf_internal_len [OF _ that, of h] assms(2) size_get [OF fresh_Some(5) [OF fs], of h] by (simp add: ch)
      obtain d st' where 2: "extpacket pre m post l (h_align h (m_len m - l) n) st1 = Some (d # post, pre @ [m\<lparr>m_len := l\<rparr>], st')" "grows used st st'"
        "live h used st' (pre @ [m\<lparr>m_len := l\<rparr>])" "live h used st' (d # post)" "parts (mst_mem st) ch len (mst_mem st') (pre @ [m\<lparr>m_len := l\<rparr>]) (d # post)" "\<not> has_hdr d"
        using extpacket_fresh [of h used "{}" st n st1 pre m post l n "m_pkthdr n" "h_align h (m_len m - l) n" st1] assms(1,2,3) fs len sz
        by (auto simp: same_store_def ch parts_def)
      have "has_hdr (hd (pre @ [m\<lparr>m_len := l\<rparr>])) = has_hdr (hd ch)" by (cases pre) (simp_all add: ch has_hdr_def)
      then show ?thesis using 1 2 by (metis list.distinct(1) list.sel(1) append_is_Nil_conv)
    qed
  qed
qed

lemma split_hdr_ok:
  assumes "mbuf_documented h used"
  obtains p st2 where "split_hdr h m0 n len0 st = (n\<lparr>m_pkthdr := p\<rparr>, st2)" "ph_len p = ph_len (m_pkthdr m0) - int len0" "same_store used st st2"
proof (cases "ph_snd_tag (m_pkthdr m0)")
  case None
  then show thesis using that [of _ st] by (auto simp: split_hdr_def same_store_def)
next
  case (Some t)
  then show thesis using that [of _ "h_snd_tag_ref h t st"] doc_tags(2) [OF assms] by (auto simp: split_hdr_def)
qed

text \<open>The first part with the new length in its packet header.\<close>

lemma upd_last:
  assumes "c = upd_hdr f (pre @ [m])"
  shows "c = butlast c @ [last c]" "m_flags (last c) = m_flags m" "m_len (last c) = m_len m" "wf_mbuf h (last c) = wf_mbuf h m"
    "ext_ok (last c) = ext_ok m" "m_length (butlast c) = m_length pre" "live h used st (butlast c @ last c # post) = live h used st (pre @ m # post)"
    "chain_data mm (butlast c @ last c # post) = chain_data mm (pre @ m # post)"
    "pre \<noteq> [] \<Longrightarrow> last c = m" "has_hdr (hd c) = has_hdr (hd (pre @ [m]))" "m_pkthdr (hd c) = f (m_pkthdr (hd (pre @ [m])))"
    "hd (butlast c @ [(last c)\<lparr>m_len := l\<rparr>]) = (if pre = [] then (hd c)\<lparr>m_len := l\<rparr> else hd c)" "c \<noteq> []"
    "live h used st c = live h used st (pre @ [m])" "chain_data mm c = chain_data mm (pre @ [m])" "m_length c = m_length (pre @ [m])"
    "pre \<noteq> [] \<Longrightarrow> butlast c \<noteq> [] \<and> hd (butlast c) = hd c"
  using assms by (cases pre; auto simp: upd_hdr_def ext_ok_def live_def data_span_def has_hdr_def chain_data_def)+

lemma wf_hdr_len: "wf_mbuf h m \<Longrightarrow> has_hdr m \<Longrightarrow> M_EXT \<notin> m_flags m \<Longrightarrow> m_len m \<le> h_MHLEN h"
  by (auto simp: wf_mbuf_def store_lo_def store_hi_def)

lemma hdr_ok_parts:
  assumes "parts mm ch len mm' c n" "len \<le> m_length ch" "hdr_ok ch" "has_hdr (hd ch)" "ch \<noteq> []"
    "m_pkthdr (hd c) = (m_pkthdr (hd ch))\<lparr>ph_len := int len\<rparr>" "ph_len (m_pkthdr (hd n)) = ph_len (m_pkthdr (hd ch)) - int len"
  shows "hdr_ok c \<and> hdr_ok n"
proof -
  have "m_length c = len" "m_length n = m_length ch - len"
    using assms(1,2) unfolding parts_def by (metis length_chain_data length_take min.absorb2, metis length_chain_data length_drop)
  then show ?thesis using assms(2-) by (auto simp: hdr_ok_def)
qed

lemma m_split_hdr:
  assumes doc: "mbuf_documented h used" and lv: "live h used st ch" and ext: "\<forall>m\<in>set ch. ext_ok m" and hdr: "has_hdr (hd ch)" "hdr_ok ch"
    and plain: "\<forall>m\<in>set (tl ch). \<not> has_hdr m" and s: "split_at len ch = Some (pre, m, post, l)"
  shows "\<exists>n ch' st'. m_split h ch len st = Some (n, ch', st') \<and> grows used st st' \<and> live h used st' ch' \<and> live h used st' n \<and>
    (n = [] \<and> chain_data (mst_mem st') ch' = chain_data (mst_mem st) ch \<or>
     n \<noteq> [] \<and> parts (mst_mem st) ch len (mst_mem st') ch' n \<and> hdr_ok ch' \<and> hdr_ok n)"
proof -
  have ch: "ch = pre @ m # post" and len: "len = m_length pre + l" "l \<le> m_len m" using split_at_Some [OF s] by auto
  have hd: "hd ch = hd (pre @ [m])" "ch \<noteq> []" "len \<le> m_length ch" using len by (cases pre; simp add: ch)+
  obtain r st1 where g: "h_gethdr h st = (r, st1)" by fastforce
  note f = doc_fresh(2) [OF doc, of st, unfolded g]
  show ?thesis
  proof (cases r)
    case None
    have 1: "m_split h ch len st = Some ([], ch, st1)" using s hdr(1) g None by (subst m_split.simps) (simp add: Let_def)
    have "grows used st st1" using fresh_None [OF f [unfolded None]] by (simp add: grows_def)
    then show ?thesis using 1 live_grows [OF lv] live_simps(1) by blast
  next
    case (Some n)
    note fs = f [unfolded Some]
    note F = fresh_Some [OF fs]
    obtain p st2 where sp: "split_hdr h (hd ch) n len st1 = (n\<lparr>m_pkthdr := p\<rparr>, st2)" "ph_len p = ph_len (m_pkthdr (hd ch)) - int len" "same_store used st1 st2"
      by (rule split_hdr_ok [OF doc])
    define n1 where "n1 = n\<lparr>m_pkthdr := p\<rparr>"
    define c where "c = upd_hdr (ph_len_update (\<lambda>_. int len)) (pre @ [m])"
    let ?pre = "butlast c" and ?m = "last c" and ?rem = "m_len m - l"
    note U = upd_last [OF c_def]
    have unf: "m_split h ch len st =
      (if ?rem = 0 then Some (n1 # post, c, st2)
       else if M_EXT \<in> m_flags ?m then extpacket ?pre ?m post l n1 st2
       else if ?rem > h_MHLEN h
       then do { (n', ch, st) \<leftarrow> m_split h (?m # post) l st2;
                 if n' = [] then Some ([], ?pre @ ch, h_free h (h_align h 0 n1) st) else Some ((h_align h 0 n1)\<lparr>m_len := 0\<rparr> # n', ?pre @ ch, st) }
       else extpacket ?pre ?m post l (h_align h ?rem n1) st2)"
      unfolding c_def n1_def using s hdr(1) g Some sp(1) by (subst m_split.simps) (simp add: Let_def)
    have g2: "grows used st st2" using sp(3) F(1,9) by (auto simp: grows_def same_store_def)
    have lvc: "live h used st (?pre @ ?m # post)" using lv U(7) [of h used st post] by (simp only: ch)
    have hp: "m_pkthdr (hd c) = (m_pkthdr (hd ch))\<lparr>ph_len := int len\<rparr>" using U(11) hd(1) by simp
    have hn: "ph_len (m_pkthdr n1) = ph_len (m_pkthdr (hd ch)) - int len" using sp(2) by (simp add: n1_def)
    have d: "chain_data mm (?pre @ ?m # post) = chain_data mm ch" for mm using U(8) by (simp add: ch)
    have szn: "store_hi h n - store_lo n = h_MHLEN h" using size_gethdr [OF F(3,5)] by simp
    have wfm: "wf_mbuf h m" "ext_ok m" using lv ext by (simp_all add: ch)
    have hc: "m_pkthdr (hd (?pre @ [?m\<lparr>m_len := l\<rparr>])) = (m_pkthdr (hd ch))\<lparr>ph_len := int len\<rparr>" using U(12) [of l] hp by auto
    have ext_case: ?thesis if e: "m_split h ch len st = extpacket ?pre ?m post l n'' st2" "n'' = n1 \<or> n'' = h_align h (m_len ?m - l) n1"
      "M_EXT \<notin> m_flags ?m \<Longrightarrow> n'' = h_align h (m_len ?m - l) n1 \<and> m_len ?m - l \<le> store_hi h n - store_lo n" for n''
    proof -
      obtain x st' where x: "extpacket ?pre ?m post l n'' st2 = Some (x # post, ?pre @ [?m\<lparr>m_len := l\<rparr>], st')" "grows used st st'"
        "live h used st' (?pre @ [?m\<lparr>m_len := l\<rparr>])" "live h used st' (x # post)" "m_pkthdr x = p"
        "parts (mst_mem st) ch len (mst_mem st') (?pre @ [?m\<lparr>m_len := l\<rparr>]) (x # post)"
        using extpacket_fresh [OF doc fs _ lvc _ _ n1_def e(2) sp(3) e(3)] wfm(2) U(3,5,6) len unfolding d parts_def by auto
      have "hdr_ok (?pre @ [?m\<lparr>m_len := l\<rparr>]) \<and> hdr_ok (x # post)"
        by (rule hdr_ok_parts [OF x(6) hd(3) hdr(2,1) hd(2) hc]) (use x(5) hn in \<open>simp add: n1_def\<close>)
      then show ?thesis using e(1) x by (metis list.distinct(1))
    qed
    consider (z) "?rem = 0" | (e) "?rem \<noteq> 0" "M_EXT \<in> m_flags ?m" | (r) "?rem \<noteq> 0" "M_EXT \<notin> m_flags ?m" "?rem > h_MHLEN h"
      | (i) "?rem \<noteq> 0" "M_EXT \<notin> m_flags ?m" "?rem \<le> h_MHLEN h" by linarith
    then show ?thesis
    proof cases
      case e
      then show ?thesis using unf by (intro ext_case [of n1]) simp_all
    next
      case i
      then show ?thesis using unf szn U(3) by (intro ext_case [of "h_align h ?rem n1"]) simp_all
    next
      case z
      then have l: "l = m_len m" using len by simp
      have 1: "m_split h ch len st = Some (n1 # post, c, st2)" using unf z by simp
      have n0: "m_len n1 = 0" "m_bytes mm n1 = []" "data_span n1 = {}" "wf_mbuf h n1" for mm
        using F(3,4) by (simp_all add: n1_def m_bytes_def data_span_def)
      have lc: "live h used st c" using lv U(14) [of h used st] by (simp add: ch)
      have "parts (mst_mem st) ch len (mst_mem st2) c (n1 # post)"
        using live_grows [OF lv g2] n0(2) U(15) by (simp add: parts_def ch len l)
      moreover from this have "hdr_ok c \<and> hdr_ok (n1 # post)"
        by (rule hdr_ok_parts [OF _ hd(3) hdr(2,1) hd(2) hp]) (use hn in simp)
      moreover have "live h used st2 c" "live h used st2 (n1 # post)"
        using live_grows [OF lc g2] live_grows [OF lv g2] n0 by (simp_all add: ch)
      ultimately show ?thesis using 1 g2 by (metis list.distinct(1))
    next
      case r
      have pre: "pre \<noteq> []"
      proof
        assume "pre = []"
        then have "has_hdr m" using hdr(1) by (simp add: ch)
        then show False using wf_hdr_len [OF wfm(1)] r U(2) by simp
      qed
      then have m: "?m = m" by (rule U(9))
      have "set (m # post) \<subseteq> set (tl ch)" using pre by (cases pre) (auto simp: ch)
      then have pl: "\<not> has_hdr (hd (m # post))" "\<And>x. x \<in> set (m # post) \<Longrightarrow> \<not> has_hdr x" using plain by auto
      have sp': "split_at l (m # post) = Some ([], m, post, l)" using len(2) by simp
      have l2: "live h used st2 (m # post)" "\<forall>x\<in>set (m # post). ext_ok x" using live_grows [OF lv g2] ext by (simp_all add: ch)
      obtain n' c' st' where 1: "m_split h (m # post) l st2 = Some (n', c', st')" "grows used st2 st'" "live h used st' c'" "live h used st' n'"
        "n' = [] \<and> c' = m # post \<or> n' \<noteq> [] \<and> parts (mst_mem st2) (m # post) l (mst_mem st') c' n'"
        using m_split_plain [OF doc l2 pl(1) sp'] by blast
      have g3: "grows used st st'" by (rule grows_trans [OF g2 1(2)])
      have lp: "live h used st ?pre" using lvc by simp
      obtain a where al: "h_align h 0 n1 = n1\<lparr>m_data := a\<rparr>"
        "\<lbrakk>wf_mbuf h n1; m_len n1 = 0; 0 \<le> store_hi h n1 - store_lo n1\<rbrakk> \<Longrightarrow> store_lo n1 \<le> a \<and> a + 0 \<le> store_hi h n1"
        using doc_align [OF doc] by metis
      show ?thesis
      proof (cases "n' = []")
        case True
        let ?st = "h_free h (h_align h 0 n1) st'"
        have own: "own_span h (h_align h 0 n1) = own_span h n" unfolding al(1) by (simp add: n1_def own_span_def)
        have "grows used st ?st" using g3 doc_free(1) [OF doc, of "h_align h 0 n1" st'] doc_free(2) [OF doc, of st' "h_align h 0 n1"] F(8) own
          by (auto simp: grows_def)
        moreover have "m_split h ch len st = Some ([], ?pre @ m # post, ?st)" using unf r 1(1,5) True by (simp add: m)
        moreover have "live h used st (?pre @ m # post)" "chain_data (mst_mem st) (?pre @ m # post) = chain_data (mst_mem st) ch"
          using lvc d by (simp_all only: m)
        ultimately show ?thesis using live_grows [of h used st "?pre @ m # post" ?st] by (metis live_simps(1))
      next
        case False
        let ?n = "(h_align h 0 n1)\<lparr>m_len := 0\<rparr>"
        have n0: "m_bytes mm ?n = []" "data_span ?n = {}" "m_pkthdr ?n = p" for mm
          unfolding al(1) by (simp_all add: n1_def m_bytes_def data_span_def)
        have cn: "chain_data (mst_mem st') (?n # n') = chain_data (mst_mem st') n'" by (simp add: n0(1))
        have wfn: "wf_mbuf h ?n" using al(2) F(3,4) unfolding al(1) by (simp add: n1_def wf_mbuf_def)
        have p: "parts (mst_mem st2) (m # post) l (mst_mem st') c' n'" using 1(5) False by simp
        have d2: "chain_data (mst_mem st2) (m # post) = chain_data (mst_mem st) (m # post)"
          using live_grows [OF _ g2, of h "m # post"] lv by (simp add: ch)
        have dp: "chain_data (mst_mem st') ?pre = chain_data (mst_mem st) ?pre" "m_length ?pre = m_length pre"
          using live_grows [OF lp g3] U(6) by simp_all
        have "parts (mst_mem st) ch len (mst_mem st') (?pre @ c') (?n # n')"
          using p dp d2 cn unfolding parts_def d [symmetric] len(1) by (simp add: m del: chain_data_simps(2))
        moreover from this have "hdr_ok (?pre @ c') \<and> hdr_ok (?n # n')"
          by (rule hdr_ok_parts [OF _ hd(3) hdr(2,1) hd(2)]) (use hp hn n0(3) U(17) [OF pre] in \<open>simp_all add: n1_def\<close>)
        moreover have "m_split h ch len st = Some (?n # n', ?pre @ c', st')" using unf r 1(1) False by (simp add: m)
        moreover have "live h used st' (?pre @ c')" "live h used st' (?n # n')" using live_grows [OF lp g3] 1(3,4) wfn n0(2) by simp_all
        ultimately show ?thesis using g3 by (metis list.distinct(1))
      qed
    qed
  qed
qed

text \<open>A tail that is NULL.\<close>

lemma extpacket_ne: "extpacket pre m post l n st = Some r \<Longrightarrow> fst r \<noteq> []"
  by (auto simp: extpacket_def Let_def split: bind_splits if_splits)

lemma m_split_null:
  "m_split h ch len0 st = Some r \<Longrightarrow> fst r = [] \<and> split_at len0 ch \<noteq> None \<longrightarrow>
    (\<exists>s. fst (h_get h s) = None \<or> fst (h_gethdr h s) = None) \<or> \<not> has_hdr (hd ch) \<and> len0 = m_length ch"
  apply (erule m_split.raw_induct [where P = "\<lambda>h ch len0 st r. fst r = [] \<and> split_at len0 ch \<noteq> None \<longrightarrow>
    (\<exists>s. fst (h_get h s) = None \<or> fst (h_gethdr h s) = None) \<or> \<not> has_hdr (hd ch) \<and> len0 = m_length ch", rotated])
  apply (intro impI, elim conjE)
  subgoal premises p for f h ch len0 st r
  proof (rule ccontr)
    assume c: "\<not> ((\<exists>s. fst (h_get h s) = None \<or> fst (h_gethdr h s) = None) \<or> \<not> has_hdr (hd ch) \<and> len0 = m_length ch)"
    obtain pre m post l where s: "split_at len0 ch = Some (pre, m, post, l)" using p(4) by auto
    note S = split_at_Some [OF s]
    have al: "h_get h st = (x, s1) \<Longrightarrow> x \<noteq> None" "h_gethdr h st = (x, s1) \<Longrightarrow> x \<noteq> None" for x s1
      using c by (metis fst_conv)+
    have rc: "f h (last (upd_hdr g (pre @ [m])) # post) l st' \<noteq> Some ([], z)" if "m_len m \<noteq> l" for g st' z
    proof
      let ?m = "last (upd_hdr g (pre @ [m]))"
      assume "f h (?m # post) l st' = Some ([], z)"
      moreover have "m_len ?m = m_len m" by (cases pre) (simp_all add: upd_hdr_def)
      then have "l \<noteq> m_length (?m # post)" "split_at l (?m # post) \<noteq> None" using that S by simp_all
      ultimately show False using p(1) [of h "?m # post" l st' "([], z)"] c by auto
    qed
    have ep: "extpacket pre' m' post l n st' \<noteq> Some r" for pre' m' n st' using extpacket_ne p(3) by blast
    show False using p(2,3) s S c al rc ep
      by (auto simp: Let_def split: prod.splits option.splits if_splits bind_splits)
  qed
  done

text \<open>
  C27: Splitting a packet. If the length is within the packet, \<open>m_split\<close> returns, without recursing for ever,
  whatever the allocator answers. Either it gives a tail: the two chains are well formed, hold the first
  \<open>len0\<close> bytes and the rest, and their packet headers count them. Or it gives NULL, which
  it does only if an allocation can fail or there are no bytes for a chain without header, and the given
  chain still holds all bytes. Nothing that was in use is overwritten.
\<close>

theorem m_split_partitions:
  assumes "mbuf_documented h used" "live h used st ch" "\<forall>m\<in>set ch. ext_ok m" "hdr_ok ch" "\<forall>m\<in>set (tl ch). \<not> has_hdr m"
    "ch \<noteq> []" "len0 \<le> m_length ch"
  shows "\<exists>n ch' st'. m_split h ch len0 st = Some (n, ch', st') \<and> grows used st st' \<and> live h used st' ch' \<and> live h used st' n \<and>
    (n = [] \<and> chain_data (mst_mem st') ch' = chain_data (mst_mem st) ch \<and>
       ((\<exists>s. fst (h_get h s) = None \<or> fst (h_gethdr h s) = None) \<or> \<not> has_hdr (hd ch) \<and> len0 = m_length ch) \<or>
     n \<noteq> [] \<and> chain_data (mst_mem st') ch' = take len0 (chain_data (mst_mem st) ch) \<and>
       chain_data (mst_mem st') n = drop len0 (chain_data (mst_mem st) ch) \<and> hdr_ok ch' \<and> hdr_ok n)"
proof -
  obtain pre m post l where s: "split_at len0 ch = Some (pre, m, post, l)"
    using split_at_None [of len0 ch] assms(6,7) by (cases "split_at len0 ch") auto
  have null: "(\<exists>s. fst (h_get h s) = None \<or> fst (h_gethdr h s) = None) \<or> \<not> has_hdr (hd ch) \<and> len0 = m_length ch"
    if "m_split h ch len0 st = Some (n, c)" "n = []" for n c using m_split_null [OF that(1)] that(2) s by simp
  show ?thesis
  proof (cases "has_hdr (hd ch)")
    case True
    then obtain n ch' st' where 1: "m_split h ch len0 st = Some (n, ch', st')" "grows used st st' \<and> live h used st' ch' \<and> live h used st' n"
      "n = [] \<and> chain_data (mst_mem st') ch' = chain_data (mst_mem st) ch \<or>
       n \<noteq> [] \<and> parts (mst_mem st) ch len0 (mst_mem st') ch' n \<and> hdr_ok ch' \<and> hdr_ok n"
      using m_split_hdr [OF assms(1-3) True assms(4,5) s] by blast
    show ?thesis using 1(2,3) null [OF 1(1)] unfolding parts_def by (intro exI [of _ n] exI [of _ ch'] exI [of _ st'] conjI 1(1)) blast+
  next
    case False
    then obtain n ch' st' where 1: "m_split h ch len0 st = Some (n, ch', st')" "grows used st st'" "live h used st' ch'" "live h used st' n"
      "n = [] \<and> ch' = ch \<or> n \<noteq> [] \<and> parts (mst_mem st) ch len0 (mst_mem st') ch' n" "has_hdr (hd ch') = has_hdr (hd ch)"
      "n \<noteq> [] \<longrightarrow> \<not> has_hdr (hd n) \<or> hd n \<in> set (tl ch)"
      using m_split_plain [OF assms(1-3) False s] by blast
    moreover have "n \<noteq> [] \<longrightarrow> \<not> has_hdr (hd n)" using 1(7) assms(5) by blast
    ultimately show ?thesis using False live_grows [OF assms(2) 1(2)] null [OF 1(1)] unfolding parts_def hdr_ok_def
      by (intro exI [of _ n] exI [of _ ch'] exI [of _ st']) auto
  qed
qed

lemma demo_packet_ok:
  "hdr_ok (demo_packet j k)" "\<forall>m\<in>set (demo_packet j k). ext_ok m" "\<forall>m\<in>set (tl (demo_packet j k)). \<not> has_hdr m"
  "demo_packet j k \<noteq> []" "m_length (demo_packet j k) = j + k"
  by (simp_all add: demo_packet_def hdr_ok_def ext_ok_def has_hdr_def demo_new_def)

theorem m_split_partitions_witness:
  "\<exists>n ch' st'. m_split demo_h (demo_packet 10 20) 13 demo_st = Some (n, ch', st') \<and>
    grows demo_used demo_st st' \<and> live demo_h demo_used st' ch' \<and> live demo_h demo_used st' n \<and>
    (n = [] \<and> chain_data (mst_mem st') ch' = chain_data (mst_mem demo_st) (demo_packet 10 20) \<and>
       ((\<exists>s. fst (h_get demo_h s) = None \<or> fst (h_gethdr demo_h s) = None) \<or>
        \<not> has_hdr (hd (demo_packet 10 20)) \<and> 13 = m_length (demo_packet 10 20)) \<or>
     n \<noteq> [] \<and> chain_data (mst_mem st') ch' = take 13 (chain_data (mst_mem demo_st) (demo_packet 10 20)) \<and>
       chain_data (mst_mem st') n = drop 13 (chain_data (mst_mem demo_st) (demo_packet 10 20)) \<and> hdr_ok ch' \<and> hdr_ok n)"
  by (rule m_split_partitions [OF demo_documented])
    (simp_all add: demo_packet_ok demo_packet_live)

text \<open>The same documentation allows \<open>m_get\<close> to fail always.\<close>

lemma doc_no_get:
  assumes "mbuf_documented h used"
  shows "mbuf_documented (h\<lparr>h_get := \<lambda>st. (None, st)\<rparr>) used"
proof -
  let ?h = "h\<lparr>h_get := \<lambda>st. (None, st)\<rparr>"
  have s: "store_hi ?h = store_hi h" "wf_mbuf ?h = wf_mbuf h" "own_span ?h = own_span h" by (simp_all add: fun_eq_iff store_hi_def wf_mbuf_def own_span_def)
  then have f: "fresh_mbuf ?h used fl st x = fresh_mbuf h used fl st x" for fl st x by (cases "fst x") (simp_all add: fresh_mbuf_def)
  have "macros_documented ?h = macros_documented h" unfolding macros_documented_def s by simp
  then have "macros_documented ?h" using doc_macros [OF assms] by simp
  moreover have "allocator_documented ?h used"
    using doc_alloc [OF assms] unfolding allocator_documented_def by (simp add: f s) (simp add: fresh_mbuf_def)
  ultimately show ?thesis using assms by (simp add: mbuf_documented_def)
qed

text \<open>
  A failed split leaves a wrong packet header. When the tail does not fit behind a packet header and the second
  allocation fails, \<open>m_split\<close> returns NULL with all bytes still in the chain, but its header says
  \<open>len0\<close>; the comment promises that the chain is restored.
\<close>

theorem m_split_failure_breaks_header:
  "\<exists>h used (st :: nat mst) ch len0 ch' st'. mbuf_documented h used \<and> live h used st ch \<and> (\<forall>m\<in>set ch. ext_ok m) \<and> hdr_ok ch \<and>
    len0 \<le> m_length ch \<and> m_split h ch len0 st = Some ([], ch', st') \<and>
    chain_data (mst_mem st') ch' = chain_data (mst_mem st) ch \<and> ph_len (m_pkthdr (hd ch')) = int len0 \<and> len0 \<noteq> m_length ch'"
proof -
  define h where "h = demo_h\<lparr>h_get := \<lambda>st. (None, st)\<rparr>"
  define ch where "ch = [(demo_new {M_PKTHDR} 0)\<lparr>m_len := 10, m_pkthdr := pkthdr_zero\<lparr>ph_len := 60\<rparr>\<rparr>, (demo_new {} 512)\<lparr>m_len := 50\<rparr>]"
  have "mbuf_documented h demo_used" unfolding h_def by (rule doc_no_get [OF demo_documented])
  moreover have "live h demo_used demo_st ch" "\<forall>m\<in>set ch. ext_ok m" "hdr_ok ch" "12 \<le> m_length ch"
    by (auto simp: h_def ch_def demo_st_def demo_simps live_def wf_mbuf_def store_base_def store_lo_def store_hi_def has_hdr_def data_span_def ext_ok_def hdr_ok_def)
  moreover have "\<exists>ch' st'. m_split h ch 12 demo_st = Some ([], ch', st') \<and> chain_data (mst_mem st') ch' = chain_data (mst_mem demo_st) ch \<and>
    ph_len (m_pkthdr (hd ch')) = 12 \<and> m_length ch' = 60"
    by (subst m_split.simps, subst m_split.simps)
      (simp add: h_def ch_def demo_st_def demo_simps has_hdr_def split_hdr_def upd_hdr_def Let_def pkthdr_zero_def m_bytes_def)
  ultimately show ?thesis by fastforce
qed

section \<open>Pulling up keeps the bytes\<close>

text \<open>
  With room for what is still to be pulled up, the loop ends. \<open>S\<close> is the storage \<open>m\<close> is
  filled from its end on.
\<close>

definition pulled :: "'a mbuf_h \<Rightarrow> u8 list \<Rightarrow> bmbuf \<Rightarrow> int \<Rightarrow> nat \<Rightarrow> bmbuf list \<Rightarrow> 'a mst \<Rightarrow> bool" where
  "pulled h bs m len k ns st \<longleftrightarrow> wf_mbuf h (m\<lparr>m_len := k\<rparr>) \<and> (\<forall>n\<in>set ns. wf_mbuf h n) \<and> (len > 0 \<longrightarrow> ns = []) \<and>
     m_bytes (mst_mem st) (m\<lparr>m_len := k\<rparr>) @ chain_data (mst_mem st) ns = bs"

lemma pullup_loop_ok:
  assumes doc: "mbuf_documented h used"
    and "wf_mbuf h m" "m_data m + m_len m + space \<le> store_hi h m" "len \<le> int space" "ns \<noteq> []"
    and "\<forall>n\<in>set ns. wf_mbuf h n \<and> data_span n \<inter> span (m_data m + m_len m) space = {}"
  shows "\<exists>k ns' st'. pullup_loop h mp len space m ns st = Some (len - int k, m\<lparr>m_len := m_len m + k\<rparr>, ns', st') \<and>
    pulled h (m_bytes (mst_mem st) m @ chain_data (mst_mem st) ns) m (len - int k) (m_len m + k) ns' st'"
  using assms(2-)
proof (induction "length ns" arbitrary: ns m space len st)
  case 0
  then show ?case by simp
next
  case (Suc x)
  then obtain n ns1 where ns: "ns = n # ns1" by (cases ns) auto
  define c where "c = min (min (nat (max len (int mp))) space) (m_len n)"
  have c: "c \<le> m_len n" "c \<le> space" "c < m_len n \<Longrightarrow> len \<le> int c" using Suc.prems(3) by (auto simp: c_def)
  let ?a = "m_data m + m_len m" let ?b = "bytes_at (mst_mem st) (m_data n) c"
  let ?st = "st\<lparr>mst_mem := put_bytes ?a ?b (mst_mem st)\<rparr>" and ?m = "m\<lparr>m_len := m_len m + c\<rparr>"
  have wf: "wf_mbuf h n" "wf_mbuf h m" using Suc.prems by (simp_all add: ns)
  have bc: "bcopy (m_cap n) (m_data n) (m_cap m) ?a c st = Some ?st"
    using wf_inb [OF wf(2), of "m_len m" c] wf_inb [OF wf(1), of 0 c] wf_room [OF wf(1)] Suc.prems(2) c by (simp add: bcopy_def)
  have wfm: "wf_mbuf h ?m" using wf_upd_len [OF wf(2), of "m_len m + c"] Suc.prems(2) c(2) by simp
  have sub: "span ?a (length ?b) \<subseteq> span ?a space" using c(2) by auto
  have data: "m_bytes (mst_mem ?st) ?m = m_bytes (mst_mem st) m @ ?b" using m_bytes_extend [of m ?b] by simp
  have keep: "m_bytes (mst_mem ?st) y = m_bytes (mst_mem st) y" if "data_span y \<inter> span ?a space = {}" for y
  proof (rule m_bytes_cong)
    fix z assume "z \<in> data_span y"
    then show "mst_mem ?st z = mst_mem st z" using put_bytes_apart [OF sub, of "data_span y" z] that by (simp add: Int_commute)
  qed
  have rest: "chain_data (mst_mem ?st) ns1 = chain_data (mst_mem st) ns1"
    by (rule chain_data_cong) (use keep Suc.prems(5) in \<open>simp add: ns\<close>)
  have b: "?b = take c (m_bytes (mst_mem st) n)" using c(1) by (simp add: m_bytes_def take_bytes_at)
  let ?n = "n\<lparr>m_len := m_len n - c, m_data := m_data n + c\<rparr>"
  have unf: "pullup_loop h mp len space m ns st =
    (let (ns, st) = (if m_len n - c \<noteq> 0 then (?n # ns1, ?st) else (ns1, h_free h (n\<lparr>m_len := m_len n - c\<rparr>) ?st)) in
     if len - int c > 0 \<and> ns \<noteq> [] then pullup_loop h mp (len - int c) (space - c) ?m ns st else Some (len - int c, ?m, ns, st))"
    using bc by (subst pullup_loop.simps) (simp add: ns Let_def c_def [symmetric])
  show ?case
  proof (cases "m_len n - c = 0")
    case False
    then have len: "len \<le> int c" using c by simp
    have 1: "pullup_loop h mp len space m ns st = Some (len - int c, ?m, ?n # ns1, ?st)" using unf False len by simp
    have "m_bytes (mst_mem ?st) ?n = drop c (m_bytes (mst_mem st) n)"
      using m_bytes_cut(2) [OF c(1), of "mst_mem ?st"] keep [of n] Suc.prems(5) by (simp add: ns)
    then have "m_bytes (mst_mem ?st) ?m @ chain_data (mst_mem ?st) (?n # ns1) = m_bytes (mst_mem st) m @ chain_data (mst_mem st) ns"
      unfolding data using rest b by (simp add: ns)
    moreover have "wf_mbuf h ?n" using wf(1) c(1) by (simp add: wf_mbuf_def)
    then have "\<forall>y\<in>set (?n # ns1). wf_mbuf h y" using Suc.prems(5) by (simp add: ns)
    ultimately have "pulled h (m_bytes (mst_mem st) m @ chain_data (mst_mem st) ns) m (len - int c) (m_len m + c) (?n # ns1) ?st"
      using wfm len by (simp only: pulled_def) simp
    with 1 show ?thesis by blast
  next
    case True
    then have "m_bytes (mst_mem st) m @ ?b = m_bytes (mst_mem st) m @ m_bytes (mst_mem st) n" using c(1) by (simp add: m_bytes_def)
    with data have data': "m_bytes (mst_mem ?st) ?m = m_bytes (mst_mem st) m @ m_bytes (mst_mem st) n" by (rule trans)
    let ?f = "h_free h (n\<lparr>m_len := m_len n - c\<rparr>) ?st"
    have mem: "mst_mem ?f = mst_mem ?st" by (rule doc_free(1) [OF doc])
    have all: "m_bytes (mst_mem ?f) ?m @ chain_data (mst_mem ?f) ns1 = m_bytes (mst_mem st) m @ chain_data (mst_mem st) ns"
      unfolding mem data' rest by (simp add: ns)
    show ?thesis
    proof (cases "len - int c > 0 \<and> ns1 \<noteq> []")
      case False
      then have 1: "pullup_loop h mp len space m ns st = Some (len - int c, ?m, ns1, ?f)" using unf True False by (simp only: Let_def) auto
      have "\<forall>y\<in>set ns1. wf_mbuf h y" "len - int c > 0 \<longrightarrow> ns1 = []" using Suc.prems(5) False by (simp_all add: ns)
      then have "pulled h (m_bytes (mst_mem st) m @ chain_data (mst_mem st) ns) m (len - int c) (m_len m + c) ns1 ?f"
        using wfm all by (simp only: pulled_def)
      with 1 show ?thesis by blast
    next
      case more: True
      have sp: "span (m_data ?m + m_len ?m) (space - c) \<subseteq> span ?a space" using c(2) by auto
      have "\<exists>k ns' st'. pullup_loop h mp (len - int c) (space - c) ?m ns1 ?f = Some (len - int c - int k, ?m\<lparr>m_len := m_len ?m + k\<rparr>, ns', st') \<and>
        pulled h (m_bytes (mst_mem ?f) ?m @ chain_data (mst_mem ?f) ns1) ?m (len - int c - int k) (m_len ?m + k) ns' st'"
      proof (rule Suc.hyps(1))
        show "x = length ns1" using Suc.hyps(2) by (simp add: ns)
        show "m_data ?m + m_len ?m + (space - c) \<le> store_hi h ?m" using Suc.prems(2) c(2) by simp
        show "len - int c \<le> int (space - c)" using Suc.prems(3) c(2) by simp
        show "\<forall>n\<in>set ns1. wf_mbuf h n \<and> data_span n \<inter> span (m_data ?m + m_len ?m) (space - c) = {}"
        proof
          fix y assume "y \<in> set ns1"
          then have "wf_mbuf h y" "data_span y \<inter> span ?a space = {}" using Suc.prems(5) by (simp_all add: ns)
          then show "wf_mbuf h y \<and> data_span y \<inter> span (m_data ?m + m_len ?m) (space - c) = {}" using sp by blast
        qed
      qed (use wfm more in simp_all)
      then obtain k ns' st' where 2: "pullup_loop h mp (len - int c) (space - c) ?m ns1 ?f = Some (len - int c - int k, ?m\<lparr>m_len := m_len ?m + k\<rparr>, ns', st')"
        "pulled h (m_bytes (mst_mem st) m @ chain_data (mst_mem st) ns) ?m (len - int c - int k) (m_len ?m + k) ns' st'"
        unfolding all by blast
      have "pullup_loop h mp len space m ns st = Some (len - int (c + k), m\<lparr>m_len := m_len m + (c + k)\<rparr>, ns', st')"
        using unf True more 2(1) by (simp add: add.assoc)
      moreover have "pulled h (m_bytes (mst_mem st) m @ chain_data (mst_mem st) ns) m (len - int (c + k)) (m_len m + (c + k)) ns' st'"
        using 2(2) by (simp add: pulled_def add.assoc algebra_simps)
      ultimately show ?thesis by blast
    qed
  qed
qed

lemma move_pkthdr_ok:
  assumes "mbuf_documented h used" "wf_mbuf h m" "M_EXT \<notin> m_flags m" "m_len m = 0" "wf_mbuf h n" "has_hdr n" "m_move_pkthdr h m n = (m', n')"
  shows "wf_mbuf h m'" "has_hdr m'" "M_EXT \<notin> m_flags m'" "m_pkthdr m' = m_pkthdr n" "m_len m' = 0" "m_data m' = m_pktdat m" "m_dat m' = m_dat m"
    "store_hi h m' = m_dat m + h_MLEN h" "own_span h m' = own_span h m" "wf_mbuf h n'" "m_bytes mm n' = m_bytes mm n" "data_span n' = data_span n" "\<not> has_hdr n'"
    "store_lo m' = m_pktdat m"
proof -
  have m: "m' = m\<lparr>m_flags := m_flags n \<inter> h_COPYFLAGS h, m_data := m_pktdat m, m_cap := m_obj m, m_pkthdr := m_pkthdr n\<rparr>"
    and n: "n' = n\<lparr>m_pkthdr := (m_pkthdr n)\<lparr>ph_tags := [], ph_snd_tag := None\<rparr>, m_flags := m_flags n - {M_PKTHDR}\<rparr>"
    using assms(3,7) doc_flags [OF assms(1)] by (auto simp: m_move_pkthdr_def Let_def to_pktdat_def)
  show fl: "M_EXT \<notin> m_flags m'" "has_hdr m'" using assms(6) doc_flags [OF assms(1)] by (simp_all add: m has_hdr_def)
  show "wf_mbuf h m'" using assms(2,4) fl by (simp add: wf_mbuf_def store_base_def store_lo_def store_hi_def) (simp add: m)
  show "wf_mbuf h n'" using assms(5,6) by (auto simp: n wf_mbuf_def store_base_def store_lo_def store_hi_def has_hdr_def split: if_splits)
  show "store_hi h m' = m_dat m + h_MLEN h" "own_span h m' = own_span h m" using fl(1) assms(3) by (simp_all add: store_hi_def own_span_def) (simp_all add: m)
  show "m_pkthdr m' = m_pkthdr n" "m_len m' = 0" "m_data m' = m_pktdat m" "m_dat m' = m_dat m" using assms(4) by (simp_all add: m)
  show "m_bytes mm n' = m_bytes mm n" "data_span n' = data_span n" "\<not> has_hdr n'" by (simp_all add: n m_bytes_def data_span_def has_hdr_def)
  show "store_lo m' = m_pktdat m" using fl by (simp add: store_lo_def) (simp add: m)
qed

text \<open>A fresh mbuf that takes over the packet header of \<open>n\<close>, if it has one.\<close>

lemma new_head:
  assumes "mbuf_documented h used" "fresh_mbuf h used {} st (Some m, st1)" "wf_mbuf h n"
    "(if has_hdr n then m_move_pkthdr h m n else (m, n)) = (m', n')"
  shows "wf_mbuf h m' \<and> m_len m' = 0 \<and> store_hi h m' = m_dat m' + h_MLEN h \<and> m_dat m' + h_MLEN h - m_data m' \<ge> h_MHLEN h \<and>
    own_span h m' = own_span h m \<and> has_hdr m' = has_hdr n \<and> (has_hdr n \<longrightarrow> m_pkthdr m' = m_pkthdr n) \<and>
    wf_mbuf h n' \<and> (\<forall>mm. m_bytes mm n' = m_bytes mm n) \<and> data_span n' = data_span n"
proof -
  note F = fresh_Some [OF assms(2)]
  show ?thesis
  proof (cases "has_hdr n")
    case True
    then have mv: "m_move_pkthdr h m n = (m', n')" using assms(4) by simp
    have "M_EXT \<notin> m_flags m" using F(5) by simp
    note M = move_pkthdr_ok [OF assms(1) F(3) this F(4) assms(3) True mv]
    have "m_pktdat m + h_MHLEN h = m_dat m + h_MLEN h" using F(3) by (simp add: wf_mbuf_def)
    then show ?thesis using M True by simp
  next
    case False
    then show ?thesis using assms(3,4) F(3-6) size_get [OF F(5), of h] doc_sizes [OF assms(1)] by (auto simp: has_hdr_def)
  qed
qed

text \<open>The end of \<open>m_pullup\<close> and \<open>m_copyup\<close>, from a head \<open>m\<close> to be filled.\<close>

lemma pullup_finish:
  assumes doc: "mbuf_documented h used" and m: "wf_mbuf h m" "m_data m + m_len m + space \<le> store_hi h m" and len: "len \<le> int space"
    and ns: "ns \<noteq> []" "\<forall>n\<in>set ns. wf_mbuf h n \<and> data_span n \<inter> span (m_data m + m_len m) space = {}"
    and hdr: "has_hdr m \<longrightarrow> ph_len (m_pkthdr m) = int (m_len m + m_length ns)"
  shows "\<exists>ch' st'. map_option (pullup_end h) (pullup_loop h mp len space m ns st) = Some (ch', st') \<and>
    (ch' \<noteq> [] \<longrightarrow> int (m_len m) + len \<le> int (m_len (hd ch')) \<and> hdr_ok ch' \<and> (\<forall>x\<in>set ch'. wf_mbuf h x) \<and>
       chain_data (mst_mem st') ch' = m_bytes (mst_mem st) m @ chain_data (mst_mem st) ns) \<and>
    (ch' = [] \<longleftrightarrow> len > int (m_length ns))"
proof -
  obtain k ns' st' where p: "pullup_loop h mp len space m ns st = Some (len - int k, m\<lparr>m_len := m_len m + k\<rparr>, ns', st')"
    "pulled h (m_bytes (mst_mem st) m @ chain_data (mst_mem st) ns) m (len - int k) (m_len m + k) ns' st'"
    using pullup_loop_ok [OF doc m len ns] by blast
  let ?m = "m\<lparr>m_len := m_len m + k\<rparr>"
  have d: "m_bytes (mst_mem st') ?m @ chain_data (mst_mem st') ns' = m_bytes (mst_mem st) m @ chain_data (mst_mem st) ns"
    "wf_mbuf h ?m" "\<forall>n\<in>set ns'. wf_mbuf h n" "len - int k > 0 \<longrightarrow> ns' = []" using p(2) by (simp_all add: pulled_def)
  have l: "k + m_length ns' = m_length ns" using arg_cong [OF d(1), of length] by simp
  show ?thesis
  proof (cases "len - int k > 0")
    case True
    then have "len > int (m_length ns)" using d(4) l by simp
    then show ?thesis using p(1) True by (simp add: pullup_end_def)
  next
    case False
    then have "hdr_ok (?m # ns')" using hdr l by (simp add: hdr_ok_def has_hdr_def)
    moreover have "\<not> len > int (m_length ns)" using False l by linarith
    ultimately show ?thesis using p(1) False d by (simp add: pullup_end_def)
  qed
qed

text \<open>The case of a new first mbuf, with \<open>d\<close> bytes left free before the data.\<close>

lemma pull_new:
  assumes "mbuf_documented h used" "fresh_mbuf h used {} st (Some m, st1)" "live h used st (n # ns)" "hdr_ok (n # ns)"
    "(if has_hdr n then m_move_pkthdr h m n else (m, n)) = (m', n')" "d + len \<le> h_MHLEN h"
  defines "e \<equiv> m'\<lparr>m_data := m_data m' + d\<rparr>"
  shows "\<exists>ch' st'. map_option (pullup_end h) (pullup_loop h mp (int len) (m_dat e + h_MLEN h - (m_data e + m_len e)) e (n' # ns) st1) = Some (ch', st') \<and>
    (ch' \<noteq> [] \<longrightarrow> len \<le> m_len (hd ch') \<and> chain_data (mst_mem st') ch' = chain_data (mst_mem st) (n # ns) \<and> hdr_ok ch' \<and> (\<forall>x\<in>set ch'. wf_mbuf h x)) \<and>
    (ch' = [] \<longleftrightarrow> len > m_length (n # ns))"
proof -
  note F = fresh_Some [OF assms(2)]
  have wf: "wf_mbuf h n" "\<forall>x\<in>set ns. wf_mbuf h x" using assms(3) by (auto simp: live_def)
  have M: "wf_mbuf h m'" "m_len m' = 0" "store_hi h m' = m_dat m' + h_MLEN h" "m_dat m' + h_MLEN h - m_data m' \<ge> h_MHLEN h"
    "own_span h m' = own_span h m" "has_hdr m' = has_hdr n" "has_hdr n \<longrightarrow> m_pkthdr m' = m_pkthdr n"
    and N: "wf_mbuf h n'" "\<And>mm. m_bytes mm n' = m_bytes mm n" "data_span n' = data_span n"
    using new_head [OF assms(1,2) wf(1) assms(5)] by auto
  have E: "wf_mbuf h e" "m_len e = 0" "store_hi h e = m_dat e + h_MLEN h" "own_span h e = own_span h m" "has_hdr e = has_hdr n"
    "has_hdr n \<longrightarrow> m_pkthdr e = m_pkthdr n" "m_dat e + h_MLEN h - m_data e \<ge> len" "m_data e \<le> m_dat e + h_MLEN h"
    using M wf_room [OF M(1)] assms(6) by (auto simp: e_def wf_mbuf_def own_span_def has_hdr_def)
  let ?sp = "m_dat e + h_MLEN h - (m_data e + m_len e)"
  have sub: "span (m_data e + m_len e) ?sp \<subseteq> own_span h m" using E(1-4) stored_own [OF E(1)] by (auto simp: stored_def wf_mbuf_def)
  have dj: "\<forall>x\<in>set (n' # ns). wf_mbuf h x \<and> data_span x \<inter> span (m_data e + m_len e) ?sp = {}"
  proof
    fix x assume "x \<in> set (n' # ns)"
    then have "wf_mbuf h x" "data_span x \<subseteq> used (mst_al st)" using N wf(2) assms(3) by (auto simp: live_def)
    then show "wf_mbuf h x \<and> data_span x \<inter> span (m_data e + m_len e) ?sp = {}" using sub F(8) by blast
  qed
  have len': "m_len n' = m_len n" using N(2) [of "\<lambda>_. 0"] by (metis length_m_bytes)
  have "\<exists>ch' st'. map_option (pullup_end h) (pullup_loop h mp (int len) ?sp e (n' # ns) st1) = Some (ch', st') \<and>
    (ch' \<noteq> [] \<longrightarrow> int (m_len e) + int len \<le> int (m_len (hd ch')) \<and> hdr_ok ch' \<and> (\<forall>x\<in>set ch'. wf_mbuf h x) \<and>
      chain_data (mst_mem st') ch' = m_bytes (mst_mem st1) e @ chain_data (mst_mem st1) (n' # ns)) \<and>
    (ch' = [] \<longleftrightarrow> int len > int (m_length (n' # ns)))"
    by (rule pullup_finish [OF assms(1) E(1) _ _ _ dj]) (use E assms(4) len' in \<open>auto simp: hdr_ok_def\<close>)
  moreover have "m_bytes (mst_mem st1) e = []" using E(2) by (simp add: m_bytes_def)
  ultimately show ?thesis using N(2) F(1) E(2) len' by auto
qed

text \<open>
  C28: Pulling up the start of a packet. \<open>m_pullup\<close> ends, whatever the allocator answers. Unless it gives up and
  frees the chain, the first \<open>len\<close> bytes are contiguous in the first mbuf, the bytes of the packet and
  the count in its header are what they were, and the mbufs are well formed. It gives up only if the packet has fewer
  bytes, if they do not fit into an mbuf, or if there is none.
\<close>

theorem m_pullup_contiguous:
  assumes "mbuf_documented h used" "live h used st ch" "ch \<noteq> []" "hdr_ok ch"
    "\<forall>m\<in>set (tl ch). span (m_data (hd ch) + m_len (hd ch)) (store_hi h (hd ch) - (m_data (hd ch) + m_len (hd ch))) \<inter> data_span m = {}"
  shows "\<exists>ch' st'. m_pullup h mp ch len st = Some (ch', st') \<and>
    (ch' \<noteq> [] \<longrightarrow> len \<le> m_len (hd ch') \<and> chain_data (mst_mem st') ch' = chain_data (mst_mem st) ch \<and> hdr_ok ch' \<and> (\<forall>m\<in>set ch'. wf_mbuf h m)) \<and>
    (ch' = [] \<longrightarrow> len > m_length ch \<or> len > h_MHLEN h \<or> fst (h_get h st) = None)"
proof -
  obtain n ns where ch: "ch = n # ns" using assms(3) by (cases ch) auto
  have wf: "wf_mbuf h n" "\<forall>x\<in>set ns. wf_mbuf h x" using assms(2) by (auto simp: live_def ch)
  consider (inp) "M_EXT \<notin> m_flags n \<and> m_data n + len < m_dat n + h_MLEN h \<and> ns \<noteq> []"
    | (big) "\<not> (M_EXT \<notin> m_flags n \<and> m_data n + len < m_dat n + h_MLEN h \<and> ns \<noteq> [])" "len > h_MHLEN h"
    | (new) "\<not> (M_EXT \<notin> m_flags n \<and> m_data n + len < m_dat n + h_MLEN h \<and> ns \<noteq> [])" "len \<le> h_MHLEN h" by linarith
  then show ?thesis
  proof cases
    case inp
    show ?thesis
    proof (cases "m_len n \<ge> len")
      case True
      then have "m_pullup h mp ch len st = Some (ch, st)" using inp by (simp add: m_pullup_def ch)
      then show ?thesis using True assms(4) wf by (simp add: ch)
    next
      case False
      let ?sp = "m_dat n + h_MLEN h - (m_data n + m_len n)"
      have hi: "store_hi h n = m_dat n + h_MLEN h" using inp by (simp add: store_hi_def)
      have "\<exists>ch' st'. map_option (pullup_end h) (pullup_loop h mp (int len - int (m_len n)) ?sp n ns st) = Some (ch', st') \<and>
        (ch' \<noteq> [] \<longrightarrow> int (m_len n) + (int len - int (m_len n)) \<le> int (m_len (hd ch')) \<and> hdr_ok ch' \<and> (\<forall>x\<in>set ch'. wf_mbuf h x) \<and>
          chain_data (mst_mem st') ch' = m_bytes (mst_mem st) n @ chain_data (mst_mem st) ns) \<and>
        (ch' = [] \<longleftrightarrow> int len - int (m_len n) > int (m_length ns))"
        by (rule pullup_finish [OF assms(1) wf(1)]) (use wf_room [OF wf(1)] inp wf(2) assms(4,5) hi in \<open>auto simp: ch hdr_ok_def\<close>)
      moreover have "m_pullup h mp ch len st = map_option (pullup_end h) (pullup_loop h mp (int len - int (m_len n)) ?sp n ns st)"
        using inp False by (simp add: m_pullup_def ch)
      ultimately show ?thesis by (auto simp: ch)
    qed
  next
    case big
    then have "m_pullup h mp ch len st = Some ([], h_freem h ch st)" by (auto simp: m_pullup_def ch)
    then show ?thesis using big by simp
  next
    case new
    obtain r st1 where g: "h_get h st = (r, st1)" by fastforce
    note f = doc_fresh(1) [OF assms(1), of st, unfolded g]
    show ?thesis
    proof (cases r)
      case None
      then have "m_pullup h mp ch len st = Some ([], h_freem h ch st1)" using new g by (auto simp: m_pullup_def ch)
      then show ?thesis using g None by simp
    next
      case (Some m)
      obtain m' n' where mv: "(if has_hdr n then m_move_pkthdr h m n else (m, n)) = (m', n')" by fastforce
      let ?sp = "m_dat m' + h_MLEN h - (m_data m' + m_len m')"
      have "m_pullup h mp ch len st = map_option (pullup_end h) (pullup_loop h mp (int len) ?sp m' (n' # ns) st1)"
        using new g Some mv by (auto simp: m_pullup_def ch)
      moreover have "m'\<lparr>m_data := m_data m' + 0\<rparr> = m'" "0 + len \<le> h_MHLEN h" using new(2) by simp_all
      note pull_new [OF assms(1) f [unfolded Some] assms(2,4) [unfolded ch] mv this(2), of mp, unfolded this(1)]
      ultimately show ?thesis unfolding ch by (metis (no_types))
    qed
  qed
qed

theorem m_pullup_contiguous_witness:
  "\<exists>ch' st'. m_pullup demo_h 40 (demo_packet 10 20) 14 demo_st = Some (ch', st') \<and>
    (ch' \<noteq> [] \<longrightarrow> 14 \<le> m_len (hd ch') \<and> chain_data (mst_mem st') ch' = chain_data (mst_mem demo_st) (demo_packet 10 20) \<and> hdr_ok ch' \<and>
      (\<forall>m\<in>set ch'. wf_mbuf demo_h m)) \<and>
    (ch' = [] \<longrightarrow> 14 > m_length (demo_packet 10 20) \<or> 14 > h_MHLEN demo_h \<or> fst (h_get demo_h demo_st) = None)"
proof (rule m_pullup_contiguous [OF demo_documented demo_packet_live demo_packet_ok(4,1)])
  let ?p = "hd (demo_packet 10 20)"
  show "\<forall>m\<in>set (tl (demo_packet 10 20)). span (m_data ?p + m_len ?p) (store_hi demo_h ?p - (m_data ?p + m_len ?p)) \<inter> data_span m = {}"
    by (auto simp: demo_packet_def demo_simps store_hi_def data_span_def)
qed simp_all

lemma m_copyup_contiguous:
  assumes "mbuf_documented h used" "live h used st ch" "ch \<noteq> []" "hdr_ok ch"
  shows "\<exists>ch' st'. m_copyup h mp ch len dstoff st = Some (ch', st') \<and>
    (ch' \<noteq> [] \<longrightarrow> len \<le> m_len (hd ch') \<and> chain_data (mst_mem st') ch' = chain_data (mst_mem st) ch \<and> hdr_ok ch' \<and> (\<forall>m\<in>set ch'. wf_mbuf h m)) \<and>
    (ch' = [] \<longrightarrow> len > m_length ch \<or> len + dstoff > h_MHLEN h \<or> fst (h_get h st) = None)"
proof -
  obtain n ns where ch: "ch = n # ns" using assms(3) by (cases ch) auto
  obtain r st1 where g: "h_get h st = (r, st1)" by fastforce
  note f = doc_fresh(1) [OF assms(1), of st, unfolded g]
  consider "len + dstoff > h_MHLEN h" | "len + dstoff \<le> h_MHLEN h" "r = None" | (new) m where "len + dstoff \<le> h_MHLEN h" "r = Some m"
    by (cases r; cases "len + dstoff > h_MHLEN h") (auto simp: not_less)
  then show ?thesis
  proof cases
    case new
    obtain m' n' where mv: "(if has_hdr n then m_move_pkthdr h m n else (m, n)) = (m', n')" by fastforce
    let ?e = "m'\<lparr>m_data := m_data m' + dstoff\<rparr>"
    have "m_copyup h mp ch len dstoff st = map_option (pullup_end h) (pullup_loop h mp (int len) (m_dat ?e + h_MLEN h - (m_data ?e + m_len ?e)) ?e (n' # ns) st1)"
      using new g mv by (auto simp: m_copyup_def ch)
    moreover have "dstoff + len \<le> h_MHLEN h" using new(1) by simp
    note pull_new [OF assms(1) f [unfolded new(2)] assms(2,4) [unfolded ch] mv this, of mp]
    ultimately show ?thesis unfolding ch by (metis (no_types))
  qed (use g in \<open>auto simp: m_copyup_def ch\<close>)
qed

text \<open>A new first mbuf with \<open>len\<close> bytes of space; the packet header moves there.\<close>

lemma m_prepend_ok:
  assumes "mbuf_documented h used" "live h used st (m # ch)" "len \<le> h_MHLEN h" "m_prepend h (m # ch) len st = Some (c, st')" "c \<noteq> []"
  shows "\<exists>mn m'. c = mn # m' # ch \<and> m_len mn = len \<and> wf_mbuf h mn \<and> has_hdr mn = has_hdr m \<and> \<not> has_hdr m' \<and>
    chain_data (mst_mem st') (m' # ch) = chain_data (mst_mem st) (m # ch) \<and> data_span mn \<inter> used (mst_al st) = {}"
proof -
  let ?fl = "if has_hdr m then {M_PKTHDR} else {}"
  obtain r st1 where g: "(if has_hdr m then h_gethdr h st else h_get h st) = (r, st1)" by fastforce
  have f: "fresh_mbuf h used ?fl st (r, st1)" using doc_fresh(1,2) [OF assms(1), of st] g by (auto split: if_splits)
  obtain n where r: "r = Some n" using assms(4,5) g by (cases r) (auto simp: m_prepend_def)
  note F = fresh_Some [OF f [unfolded r]]
  have wf: "wf_mbuf h m" using assms(2) by simp
  have ne: "M_EXT \<notin> m_flags n" using F(5) by auto
  obtain mn m' where mv: "(if has_hdr m then m_move_pkthdr h n m else (n, m)) = (mn, m')" by fastforce
  have M: "wf_mbuf h mn \<and> m_len mn = 0 \<and> m_data mn = store_lo mn \<and> own_span h mn = own_span h n \<and> has_hdr mn = has_hdr m \<and> \<not> has_hdr m' \<and>
    m_bytes (mst_mem st) m' = m_bytes (mst_mem st) m \<and> store_hi h mn - store_lo mn \<ge> h_MHLEN h"
  proof (cases "has_hdr m")
    case True
    then have mv': "m_move_pkthdr h n m = (mn, m')" using mv by simp
    note K = move_pkthdr_ok [OF assms(1) F(3) ne F(4) wf True this]
    moreover have "m_pktdat n + h_MHLEN h = m_dat n + h_MLEN h" using F(3) by (simp add: wf_mbuf_def)
    ultimately show ?thesis using True by simp
  next
    case False
    then have "mn = n" "m' = m" "m_flags n = {}" using mv F(5) by simp_all
    then show ?thesis using False F(3,4,6) size_get [of n h] doc_sizes [OF assms(1)] by (simp add: has_hdr_def)
  qed
  define e where "e = (if len < h_size h mn then h_align h len mn else mn)"
  obtain a where "e = mn\<lparr>m_data := a\<rparr>" "store_lo mn \<le> a" "a + len \<le> store_hi h mn"
  proof (cases "len < h_size h mn")
    case True
    moreover obtain a where "h_align h len mn = mn\<lparr>m_data := a\<rparr>"
      "\<lbrakk>wf_mbuf h mn; m_len mn = 0; len \<le> store_hi h mn - store_lo mn\<rbrakk> \<Longrightarrow> store_lo mn \<le> a \<and> a + len \<le> store_hi h mn"
      using doc_align [OF assms(1)] by metis
    ultimately show thesis using that [of a] M doc_start [OF assms(1), of mn] by (simp add: e_def)
  next
    case False
    have "m_data mn + len \<le> store_hi h mn" using M wf_room [of h mn] assms(3) by linarith
    then show thesis using False M that [of "m_data mn"] by (simp add: e_def)
  qed
  then have E: "wf_mbuf h (e\<lparr>m_len := len\<rparr>)" "has_hdr e = has_hdr m" "own_span h (e\<lparr>m_len := len\<rparr>) = own_span h n"
    using M by (auto simp: wf_mbuf_def own_span_def has_hdr_def)
  have "c = e\<lparr>m_len := len\<rparr> # m' # ch" "st' = st1" using assms(4) g r mv by (auto simp: m_prepend_def e_def Let_def)
  moreover have "data_span (e\<lparr>m_len := len\<rparr>) \<inter> used (mst_al st) = {}"
    using wf_stored [OF E(1)] stored_own [OF E(1)] E(3) F(8) by blast
  ultimately show ?thesis using E M F(1) by (auto simp: has_hdr_def)
qed

end
