(* ===== verification/Spec2Isabelle.thy ===== *)
theory Spec2Isabelle
  imports Pmd Cksum MbufOps
begin

text \<open>
  \<^bold>\<open>The program.\<close> The repository is a kernel-bypass network stack for a Solarflare SFC7120 adapter on
  CHERI (FreeBSD/CheriBSD on Morello). Its parts, from the hardware up:

  \<^item> the kernel driver (\<^verbatim>\<open>src/sfc7120.c\<close>, \<^verbatim>\<open>src/sfc7120_mcdi.c\<close>): brings the adapter up by commands
    to its management controller (MC) through a DMA mailbox, owns the descriptor rings, event queues and packet
    buffers, and offers a slow data path by ioctl;
  \<^item> the CAPIO framework (\<^verbatim>\<open>src/capio.c\<close>): hands one process a sealed capability as access token and maps
    the driver's memory regions and register slices into it;
  \<^item> the user library (\<^verbatim>\<open>src/userlib/sfc7120_user.c\<close>): attaches, maps the regions by way of the modmap
    driver and runs the data path directly on rings, buffers and doorbells;
  \<^item> the DPDK poll-mode driver (\<^verbatim>\<open>src/fstack-capio/rte_eth_capio.c\<close>) on top of the library;
  \<^item> the TCP/IP stack F-Stack, FreeBSD code with changes for CHERI
    (\<^verbatim>\<open>src/fstack-capio/modified-sources\<close>), of which the packet buffers and the checksum are modelled here.

  \<^bold>\<open>Conventions.\<close> A function of the source is one definition with the name it has there, its
  state a record passed along. A fault (a bounds or permission trap of CHERI, a failed KASSERT) is the
  value None; an error the code returns is a value of \<open>errno\<close>, with OK for 0. Machine integers
  are words where wrap-around can matter. What is outside the repository (firmware, bus_dma, newbus, the
  VM system, modmap, DPDK's pools, the NIC's DMA) is a parameter; its answers are functions of the trace
  of interactions so far, so that they may depend on the history in any way. What a theorem needs of them
  is a hypothesis, and a witness shows that it can hold.

  \<^bold>\<open>Theories, and what they model and show.\<close>

  \<^descr> Prelude: word types, \<open>errno\<close>, the locale \<open>pow2_ring\<close> of ring arithmetic (interpreted for the
    512-entry rings on 32 and 16 bits) and the locale \<open>invariant_machine\<close>.
  \<^descr> Regs: \<^verbatim>\<open>sfc7120_mmio.h\<close>, \<^verbatim>\<open>sfc7120_uapi.h\<close>, \<^verbatim>\<open>sfc7120_tables.c\<close>: doorbell offsets,
    the slice manifest and descriptor words. A store through a slice reaches only data-path doorbells;
    descriptors can be read back.
  \<^descr> Io: the trace of device accesses, the environment, little-endian words in byte buffers.
  \<^descr> Mcdi: the mailbox transport of \<^verbatim>\<open>sfc7120_mcdi.c\<close>. Requests decode to what was passed, every
    command returns, a success carries the sequence number of the request; the locale \<open>command_channel\<close> is what the wrappers
    rely on. Two defects are proved: the overrun of the mailbox by long extended requests and error
    responses taken for success.
  \<^descr> McdiCmds: the command wrappers, with checked accesses to their request and response buffers. They never fault, send what their queue needs, and their flags follow the
    MC's answers.
  \<^descr> Capio: \<^verbatim>\<open>capio.c\<close>: tokens, region table, pager, ioctl and mmap. After an attach exactly the sealed
    token passes the check; without it no ioctl has an effect.
  \<^descr> CapioMachine: interleavings of the entry points, with mmap in two steps where it drops its lock
    (\<open>capio_step\<close>). As long as no two mmap calls of one region overlap (\<open>capio_serial\<close>) each region
    has at most one live mapping; with such an overlap it can have two.
  \<^descr> Driver and Lifecycle: \<^verbatim>\<open>sfc7120.c\<close> without the data path. For every pattern of failures attach brings the
    device up or releases what it took, detach releases in order (both but for the statistics buffer), the published table never maps the whole BAR.
  \<^descr> DataPath: the TX and RX ioctls, the interrupt handler and the RX task. What each does to rings,
    buffers and doorbells; the event queues as FIFOs (locale \<open>event_queue\<close>); all positions stay
    in range under every interleaving, if the NIC keeps frames within their slots.
  \<^descr> UserLib: the direct path of the user library. Under the same condition it is confined to its mappings, polls a FIFO, and
    transmits exactly as the kernel does.
  \<^descr> Session: set-up and tear-down over CAPIO and modmap (locale \<open>modmap_service\<close>, interpreted on the
    CAPIO callbacks). Sessions can follow each other for ever; the kernel gets
    the ring positions of a session back if one of its calls set \<open>used_poll\<close>.
  \<^descr> Pmd: the DPDK driver. Delivered buffers are owned exclusively, for every full receive window and for
    partly filled windows that divide the ring; completions free exactly the
    completed buffers; a frame that does not fit is freed although it is left to the caller.
  \<^descr> Mbuf: \<^verbatim>\<open>uipc_mbuf.c\<close>: packets as lists of mbufs whose data pointers are capabilities into one memory;
    the allocator and the header macros are the parameter record \<open>mbuf_h\<close>, the laws of \<open>mbuf_documented\<close> what the
    code relies on, shown consistent by \<open>demo_h\<close>. Copying out, traversal and trimming.
  \<^descr> MbufOps: concatenation, appending, splitting, pull-up, prepending. Each returns, keeps the bytes of the packet
    and its header length, and writes only to storage that was free; a failed split is shown to leave a
    wrong header length.
  \<^descr> Cksum: \<^verbatim>\<open>in_cksum.c\<close>. The unrolled sum over a chain is the checksum of RFC 1071, both builds
    agree, and which buffers make the pure-capability build fault.

  \<^bold>\<open>Bounds and fuel.\<close> The loops of the code are recursive functions with termination proofs, except
  the poll of the mailbox and of event queues. Those are bounded in the source by a time-out or a
  number of events, and the model recurses on that bound; that the bound is enough is part of the
  theorems on termination and on the FIFOs. Checksums are proved for lengths below $2^{31}$, the range of
  the C type.

  \<^bold>\<open>Not modelled.\<close> Probe, open and method tables of the driver: look-ups without state. Barriers and
  cache maintenance: the memory model is sequential. Diagnostic counters and messages. The rest of F-Stack, the
  FreeBSD and DPDK sources carried in the repository. The benchmarks and the packet generator
  (\<^verbatim>\<open>src/bench\<close>, \<^verbatim>\<open>src/userlib/bench.c\<close>): they measure and print. The ports of nginx and
  redis: adapters of socket calls. The vendor headers kept for reference are not compiled.
\<close>

end
